(* ===== verification/Prelude.thy ===== *)
theory Prelude
  imports Main "HOL-Library.Word"
begin

section \<open>Shared vocabulary of the kernel model\<close>

text \<open>
  Machine integers, memory, byte views and the generic lemmas that the component theories
  share. A \<open>uint32_t\<close> is a \<open>32 word\<close>, so its arithmetic wraps; a C \<open>int\<close> whose
  value stays small is an \<open>int\<close>. A pointer to bytes is seen through a \<open>view\<close>: the
  byte at index \<open>i\<close> of \<open>p\<close> is \<open>view_of m p i\<close>. A local or global C array is a
  view too: the elements past its end are whatever memory follows it, so that no read of the
  model is unspecified and an out-of-range access is visible instead of being hidden.
\<close>

unbundle bit_operations_syntax

named_theorems wsimps \<open>word arithmetic read as natural numbers\<close>
named_theorems kdefs \<open>definitions of kernel operations, unfolded together\<close>
named_theorems frame \<open>what an operation leaves unchanged\<close>

subsection \<open>Types\<close>

type_synonym u8 = "8 word"
type_synonym u16 = "16 word"
type_synonym u32 = "32 word"

type_synonym mem = "u32 \<Rightarrow> u8"
type_synonym view = "int \<Rightarrow> u8"

text \<open>The error return of the kernel (\<open>types.h\<close>).\<close>

definition ERROR :: int where
  "ERROR = -1"

lemma ERROR_neq_nonneg [simp]: "0 \<le> n \<Longrightarrow> ERROR \<noteq> n" "0 \<le> n \<Longrightarrow> n \<noteq> ERROR"
  by (simp_all add: ERROR_def)

subsection \<open>Memory and views\<close>

definition view_of :: "mem \<Rightarrow> u32 \<Rightarrow> view" where
  "view_of m p i = m (p + word_of_int i)"

text \<open>A little-endian \<open>uint32_t\<close> stored at address \<open>p\<close>, or at index \<open>i\<close> of a view.\<close>

definition le32 :: "u8 \<Rightarrow> u8 \<Rightarrow> u8 \<Rightarrow> u8 \<Rightarrow> u32" where
  "le32 b0 b1 b2 b3 = ucast b0 OR push_bit 8 (ucast b1)
     OR push_bit 16 (ucast b2) OR push_bit 24 (ucast b3)"

definition u32_at :: "mem \<Rightarrow> u32 \<Rightarrow> u32" where
  "u32_at m p = le32 (m p) (m (p + 1)) (m (p + 2)) (m (p + 3))"

definition view_u32 :: "view \<Rightarrow> int \<Rightarrow> u32" where
  "view_u32 v i = le32 (v i) (v (i + 1)) (v (i + 2)) (v (i + 3))"

text \<open>The first \<open>n\<close> bytes of a view, and the C string it starts with, cut at \<open>n\<close>.\<close>

definition bytes :: "view \<Rightarrow> nat \<Rightarrow> u8 list" where
  "bytes s n = map (\<lambda>i. s (int i)) [0..<n]"

definition cprefix :: "nat \<Rightarrow> view \<Rightarrow> u8 list" where
  "cprefix n s = takeWhile (\<lambda>b. b \<noteq> 0) (bytes s n)"

text \<open>The view holds a NUL-terminated string of length \<open>n\<close>.\<close>

definition is_cstr :: "view \<Rightarrow> nat \<Rightarrow> bool" where
  "is_cstr s n \<longleftrightarrow> s (int n) = 0 \<and> 0 \<notin> set (bytes s n)"

text \<open>The bytes of a C string literal, followed by its NUL and by zeros.\<close>

definition lit :: "string \<Rightarrow> view" where
  "lit s i = (if 0 \<le> i \<and> i < int (length s) then of_char (s ! nat i) else 0)"

lemma le32_bytes [simp]:
  "ucast (le32 b0 b1 b2 b3) = b0" "ucast (drop_bit 8 (le32 b0 b1 b2 b3)) = b1"
  "ucast (drop_bit 16 (le32 b0 b1 b2 b3)) = b2" "ucast (drop_bit 24 (le32 b0 b1 b2 b3)) = b3"
  by (rule bit_word_eqI; auto simp: le32_def bit_simps dest: bit_imp_le_length)+

lemma view_u32_of: "view_u32 (view_of m p) i = u32_at m (p + word_of_int i)"
  by (simp add: view_u32_def view_of_def u32_at_def add.assoc)

lemma length_bytes [simp]: "length (bytes s n) = n"
  by (simp add: bytes_def)

lemma nth_bytes [simp]: "i < n \<Longrightarrow> bytes s n ! i = s (int i)"
  by (simp add: bytes_def)

lemma bytes_Suc: "bytes s (Suc n) = bytes s n @ [s (int n)]"
  by (simp add: bytes_def)

lemma bytes_0 [simp]: "bytes s 0 = []"
  by (simp add: bytes_def)

lemma set_bytes: "set (bytes s n) = (\<lambda>i. s (int i)) ` {..<n}"
  by (auto simp: bytes_def)

lemma drop_bytes:
  "i < n \<Longrightarrow> drop (unat i) (bytes s (unat n)) = s (uint i) # drop (Suc (unat i)) (bytes s (unat n))"
  by (simp add: Cons_nth_drop_Suc [symmetric] word_less_nat_alt)

lemma bytes_eq_iff: "bytes s n = bytes t n \<longleftrightarrow> (\<forall>i<n. s (int i) = t (int i))"
  by (auto simp: list_eq_iff_nth_eq)

lemma is_cstrI: "s (int n) = 0 \<Longrightarrow> (\<And>i. i < n \<Longrightarrow> s (int i) \<noteq> 0) \<Longrightarrow> is_cstr s n"
  unfolding is_cstr_def set_bytes by (metis imageE lessThan_iff)

lemma is_cstrD:
  assumes "is_cstr s n"
  shows "s (int n) = 0" and "i < n \<Longrightarrow> s (int i) \<noteq> 0"
  using assms unfolding is_cstr_def set_bytes by (auto simp: image_iff)

lemma is_cstr_unique: "is_cstr s n \<Longrightarrow> is_cstr s k \<Longrightarrow> n = k"
  by (metis is_cstrD linorder_neqE_nat)

lemma cstr_exists:
  assumes "s (int k) = 0"
  obtains n where "n \<le> k" "is_cstr s n"
proof -
  let ?n = "LEAST i. s (int i) = 0"
  have "s (int ?n) = 0" using assms by (rule LeastI)
  moreover have "?n \<le> k" using assms by (rule Least_le)
  moreover have "i < ?n \<Longrightarrow> s (int i) \<noteq> 0" for i by (rule not_less_Least)
  ultimately show ?thesis using that is_cstrI by blast
qed

lemma length_cprefix_le: "length (cprefix n s) \<le> n"
  using length_takeWhile_le [of _ "bytes s n"] by (simp add: cprefix_def)

lemma cprefix_nth: "i < length (cprefix n s) \<Longrightarrow> cprefix n s ! i = s (int i)"
  using length_cprefix_le [of n s] by (simp add: cprefix_def takeWhile_nth)

lemma cprefix_nonzero: "i < length (cprefix n s) \<Longrightarrow> s (int i) \<noteq> 0"
  using cprefix_nth [of i n s] nth_mem [of i "cprefix n s"]
  by (auto simp: cprefix_def dest: set_takeWhileD)

lemma cprefix_end: "length (cprefix n s) < n \<Longrightarrow> s (int (length (cprefix n s))) = 0"
  using nth_length_takeWhile [of "\<lambda>b. b \<noteq> 0" "bytes s n"] by (simp add: cprefix_def)

lemma cprefix_step_iff:
  "i \<le> length (cprefix n s) \<Longrightarrow> s (int i) \<noteq> 0 \<and> i < n \<longleftrightarrow> i < length (cprefix n s)"
  using cprefix_nonzero [of i n s] cprefix_end [of n s] length_cprefix_le [of n s]
  by (cases "i = length (cprefix n s)") auto

lemma cprefix_cstr: "is_cstr s k \<Longrightarrow> cprefix n s = bytes s (min k n)"
proof (rule nth_equalityI)
  assume k: "is_cstr s k"
  have "length (cprefix n s) \<le> n" by (rule length_cprefix_le)
  moreover have "\<not> k < length (cprefix n s)"
    using cprefix_nonzero [of k n s] is_cstrD(1) [OF k] by auto
  moreover have "\<not> length (cprefix n s) < min k n"
    using cprefix_end [of n s] is_cstrD(2) [OF k] by auto
  ultimately show *: "length (cprefix n s) = length (bytes s (min k n))"
    unfolding length_bytes by linarith
  fix i assume "i < length (cprefix n s)"
  with * show "cprefix n s ! i = bytes s (min k n) ! i" by (simp add: cprefix_nth)
qed

subsection \<open>Words\<close>

lemma unat_Suc_less [wsimps]: "(x :: 'a::len word) < y \<Longrightarrow> unat (x + 1) = Suc (unat x)"
proof -
  assume "x < y"
  then have "unat x < unat y" by (simp add: word_less_nat_alt)
  moreover have "unat y < 2 ^ LENGTH('a)" by simp
  ultimately have "Suc (unat x) < 2 ^ LENGTH('a)" by linarith
  then show ?thesis by (simp add: unat_word_ariths)
qed

lemma uint_Suc_less [wsimps]: "(x :: 'a::len word) < y \<Longrightarrow> uint (x + 1) = uint x + 1"
  using unat_Suc_less [of x y] by (simp only: uint_nat of_nat_Suc)

lemma unat_of_nat_less [wsimps]: "k < 2 ^ LENGTH('a) \<Longrightarrow> unat (of_nat k :: 'a::len word) = k"
  by (simp add: unsigned_of_nat take_bit_nat_eq_self)

lemma uint_of_nat_less [wsimps]: "k < 2 ^ LENGTH('a) \<Longrightarrow> uint (of_nat k :: 'a::len word) = int k"
  using unat_of_nat_less [of k, where 'a = 'a] by (simp only: uint_nat)

lemma unat_u32: "unat (w :: u32) < 4294967296"
proof -
  have "unat w < 2 ^ LENGTH(32)" by (rule unsigned_less)
  then show ?thesis by simp
qed

lemma uint_less_int: "uint w < int k \<longleftrightarrow> unat w < k"
  by (metis of_nat_unat of_nat_less_iff)

lemma int_le_uint: "int k \<le> uint w \<longleftrightarrow> k \<le> unat w"
  by (metis of_nat_unat of_nat_le_iff)

lemma sint_small: "unat (w :: u32) < 2147483648 \<Longrightarrow> sint w = int (unat w)"
  by (simp add: sint_uint signed_take_bit_int_eq_self_iff uint_nat del: of_nat_unat)

lemma sint_nonneg: "0 \<le> sint (w :: u32) \<Longrightarrow> sint w = int (unat w)"
  using sint_lt [of w] by (simp add: uint_sint take_bit_int_eq_self)

lemma unat_pred [wsimps]: "(n :: 'a::len word) \<noteq> 0 \<Longrightarrow> unat (n - 1) = unat n - 1"
  by (rule unat_minus_one)

text \<open>A value stored into an \<open>int8_t\<close>.\<close>

definition int8 :: "int \<Rightarrow> int" where
  "int8 n = sint (word_of_int n :: u8)"

lemma int8_small [simp]: "-128 \<le> n \<Longrightarrow> n < 128 \<Longrightarrow> int8 n = n"
  by (simp add: int8_def signed_of_int signed_take_bit_int_eq_self_iff)

lemma of_nat_u32_eq: "a < 2 ^ 32 \<Longrightarrow> b < 2 ^ 32 \<Longrightarrow> (of_nat a :: u32) = of_nat b \<longleftrightarrow> a = b"
proof -
  assume "a < 2 ^ 32" and "b < 2 ^ 32"
  then have "unat (of_nat a :: u32) = a" and "unat (of_nat b :: u32) = b"
    by (simp_all add: unat_of_nat_less)
  then show ?thesis by metis
qed

end
