(* ===== verification/LibString.thy ===== *)
theory LibString
  imports Prelude
begin

section \<open>String routines of the kernel library\<close>

text \<open>
  \<open>strlen\<close>, \<open>strncmp\<close>, \<open>strcpy\<close>, \<open>strncpy\<close>, \<open>strrev\<close>, \<open>itoa\<close>
  and \<open>left_pad\<close> of \<open>src/student-distrib/lib.c\<close>. A string argument is the view of
  the bytes it points at; a routine that writes returns the new view of its destination. The
  loops that stop only at a NUL are partial: \<open>None\<close> is a call that never returns. The
  \<open>int32_t\<close> counters of \<open>strncmp\<close> and \<open>strncpy\<close> are compared with an unsigned
  bound, so they are kept as words; as an offset from a 32-bit pointer the signed and the
  unsigned reading of a counter are the same address.
\<close>

subsection \<open>Definitions\<close>

partial_function (option) strlen_loop :: "view \<Rightarrow> u32 \<Rightarrow> u32 option" where
  "strlen_loop s len = (if s (uint len) \<noteq> 0 then strlen_loop s (len + 1) else Some len)"

definition strlen :: "view \<Rightarrow> u32 option" where
  "strlen s = strlen_loop s 0"

text \<open>\<open>int8_t\<close> is a signed character, so the difference is taken on signed values.\<close>

function strncmp_loop :: "view \<Rightarrow> view \<Rightarrow> u32 \<Rightarrow> u32 \<Rightarrow> int" where
  "strncmp_loop s1 s2 n i =
     (if i < n then
        if s1 (uint i) \<noteq> s2 (uint i) \<or> s1 (uint i) = 0
        then sint (s1 (uint i)) - sint (s2 (uint i))
        else strncmp_loop s1 s2 n (i + 1)
      else 0)"
  by pat_completeness auto
termination
  by (relation "measure (\<lambda>(s1, s2, n, i). unat n - unat i)")
    (auto simp: wsimps word_less_nat_alt)

definition strncmp :: "view \<Rightarrow> view \<Rightarrow> u32 \<Rightarrow> int" where
  "strncmp s1 s2 n = strncmp_loop s1 s2 n 0"

partial_function (option) strcpy_loop :: "view \<Rightarrow> view \<Rightarrow> int \<Rightarrow> view option" where
  "strcpy_loop dest src i =
     (if src i \<noteq> 0 then strcpy_loop (dest(i := src i)) src (i + 1)
      else Some (dest(i := 0)))"

definition strcpy :: "view \<Rightarrow> view \<Rightarrow> view option" where
  "strcpy dest src = strcpy_loop dest src 0"

function strncpy_copy :: "view \<Rightarrow> view \<Rightarrow> u32 \<Rightarrow> u32 \<Rightarrow> view \<times> u32" where
  "strncpy_copy dest src n i =
     (if src (uint i) \<noteq> 0 \<and> i < n
      then strncpy_copy (dest(uint i := src (uint i))) src n (i + 1)
      else (dest, i))"
  by pat_completeness auto
termination
  by (relation "measure (\<lambda>(dest, src, n, i). unat n - unat i)")
    (auto simp: wsimps word_less_nat_alt)

function strncpy_pad :: "view \<Rightarrow> u32 \<Rightarrow> u32 \<Rightarrow> view" where
  "strncpy_pad dest n i =
     (if i < n then strncpy_pad (dest(uint i := 0)) n (i + 1) else dest)"
  by pat_completeness auto
termination
  by (relation "measure (\<lambda>(dest, n, i). unat n - unat i)")
    (auto simp: wsimps word_less_nat_alt)

definition strncpy :: "view \<Rightarrow> view \<Rightarrow> u32 \<Rightarrow> view" where
  "strncpy dest src n = (let (d, i) = strncpy_copy dest src n 0 in strncpy_pad d n i)"

function strrev_loop :: "view \<Rightarrow> int \<Rightarrow> int \<Rightarrow> view" where
  "strrev_loop s beg end1 =
     (if beg < end1
      then strrev_loop (s(end1 := s beg, beg := s end1)) (beg + 1) (end1 - 1)
      else s)"
  by pat_completeness auto
termination
  by (relation "measure (\<lambda>(s, beg, end1). nat (end1 - beg))") auto

definition strrev :: "view \<Rightarrow> view option" where
  "strrev s = map_option (\<lambda>n. strrev_loop s 0 (sint (n - 1))) (strlen s)"

definition itoa_lookup :: view where
  "itoa_lookup = lit ''0123456789ABCDEFGHIJKLMNOPQRSTUVWXYZ''"

text \<open>A division by a zero radix traps (\<open>None\<close>); a radix of one never ends.\<close>

partial_function (option) itoa_loop :: "u32 \<Rightarrow> view \<Rightarrow> int \<Rightarrow> u32 \<Rightarrow> (view \<times> int) option" where
  "itoa_loop newval buf newbuf radix =
     (if newval > 0 then
        if radix = 0 then None
        else itoa_loop (newval div radix)
               (buf(newbuf := itoa_lookup (sint (newval mod radix)))) (newbuf + 1) radix
      else Some (buf, newbuf))"

definition itoa :: "u32 \<Rightarrow> view \<Rightarrow> u32 \<Rightarrow> view option" where
  "itoa value buf radix =
     (if value = 0 then Some (buf(0 := of_char (CHR ''0''), 1 := 0))
      else case itoa_loop value buf 0 radix of
             None \<Rightarrow> None
           | Some (buf', newbuf) \<Rightarrow> strrev (buf'(newbuf := 0)))"

fun left_pad_spaces :: "view \<Rightarrow> nat \<Rightarrow> view" where
  "left_pad_spaces out 0 = out"
| "left_pad_spaces out (Suc i) = (left_pad_spaces out i)(int i := of_char (CHR '' ''))"

definition left_pad :: "view \<Rightarrow> view \<Rightarrow> u32 \<Rightarrow> view option" where
  "left_pad inp out len =
     (case strlen inp of
        None \<Rightarrow> None
      | Some in_len \<Rightarrow>
          if len \<le> in_len then Some ((strncpy out inp len)(uint len := 0))
          else let offset = sint (len - in_len);
                   out1 = left_pad_spaces out (nat offset);
                   out2 = strncpy (\<lambda>i. out1 (i + offset)) inp len;
                   out3 = (\<lambda>i. out2 (i - offset))
               in Some (out3(uint len := 0)))"

declare strncmp_loop.simps [simp del] strncpy_copy.simps [simp del]
  strncpy_pad.simps [simp del] strrev_loop.simps [simp del]

subsection \<open>Reference digits\<close>

text \<open>
  The digits of a number, least significant first, and the value a digit string denotes: what
  \<open>itoa\<close> is checked against.
\<close>

fun digits :: "nat \<Rightarrow> nat \<Rightarrow> nat list" where
  "digits r v = (if v = 0 \<or> r < 2 then [] else v mod r # digits r (v div r))"

declare digits.simps [simp del]

definition num_text :: "nat \<Rightarrow> nat \<Rightarrow> u8 list" where
  "num_text r v = (if v = 0 then [of_char (CHR ''0'')]
     else map (\<lambda>d. itoa_lookup (int d)) (rev (digits r v)))"

definition digit_val :: "u8 \<Rightarrow> nat" where
  "digit_val b = (if b \<le> 57 then unat b - 48 else unat b - 55)"

definition parse_num :: "nat \<Rightarrow> u8 list \<Rightarrow> nat" where
  "parse_num r bs = foldl (\<lambda>acc b. acc * r + digit_val b) 0 bs"

subsection \<open>strlen\<close>

lemma strlen_loop_cstr:
  "is_cstr s n \<Longrightarrow> n < 2 ^ 32 \<Longrightarrow> k \<le> n \<Longrightarrow> strlen_loop s (of_nat k) = Some (of_nat n)"
proof (induction "n - k" arbitrary: k)
  case 0
  then have "k = n" by simp
  with 0 show ?case
    by (subst strlen_loop.simps) (simp add: wsimps is_cstrD)
next
  case (Suc d)
  then have k: "k < n" and "d = n - Suc k" by simp_all
  with Suc.hyps(1) [of "Suc k"] Suc.prems have "strlen_loop s (of_nat (Suc k)) = Some (of_nat n)"
    by simp
  moreover from k Suc.prems have "s (uint (of_nat k :: u32)) \<noteq> 0"
    by (simp add: wsimps is_cstrD)
  ultimately show ?case
    by (subst strlen_loop.simps) (simp add: add.commute)
qed

lemma strlen_cstr: "is_cstr s n \<Longrightarrow> n < 2 ^ 32 \<Longrightarrow> strlen s = Some (of_nat n)"
  using strlen_loop_cstr [of s n 0] by (simp add: strlen_def)

lemma strlen_loop_NUL: "strlen_loop s len = Some r \<Longrightarrow> s (uint r) = 0"
proof -
  assume ret: "strlen_loop s len = Some r"
  show ?thesis
  proof (rule strlen_loop.raw_induct [where P = "\<lambda>s len r. s (uint r) = 0", OF _ ret])
    fix f :: "view \<Rightarrow> u32 \<Rightarrow> u32 option" and s :: view and len r :: u32
    assume IH: "\<And>s len r. f s len = Some r \<Longrightarrow> s (uint r) = 0"
      and eq: "(if s (uint len) \<noteq> 0 then f s (len + 1) else Some len) = Some r"
    show "s (uint r) = 0"
      using eq IH [of s "len + 1" r] by (auto split: if_splits)
  qed
qed

lemma strlen_iff: "strlen s = Some l \<longleftrightarrow> is_cstr s (unat l)"
proof
  assume "strlen s = Some l"
  then have "s (int (unat l)) = 0"
    unfolding strlen_def by (drule_tac strlen_loop_NUL) simp
  then obtain n where n: "n \<le> unat l" "is_cstr s n" by (rule cstr_exists)
  moreover have "unat l < 2 ^ 32" using unat_u32 [of l] by simp
  ultimately have "strlen s = Some (of_nat n)" by (intro strlen_cstr) auto
  with \<open>strlen s = Some l\<close> n \<open>unat l < 2 ^ 32\<close> show "is_cstr s (unat l)"
    by (auto simp: wsimps)
next
  assume "is_cstr s (unat l)"
  then show "strlen s = Some l"
    using strlen_cstr [of s "unat l"] unat_u32 [of l] by simp
qed

lemma strlen_None_iff: "strlen s = None \<longleftrightarrow> (\<forall>i. 0 \<le> i \<and> i < 2 ^ 32 \<longrightarrow> s i \<noteq> 0)"
proof
  assume N: "strlen s = None"
  show "\<forall>i. 0 \<le> i \<and> i < 2 ^ 32 \<longrightarrow> s i \<noteq> 0"
  proof (intro allI impI notI)
    fix i assume i: "0 \<le> i \<and> i < 2 ^ 32" and "s i = 0"
    then have "s (int (nat i)) = 0" by simp
    then obtain n where "n \<le> nat i" "is_cstr s n" by (rule cstr_exists)
    with i have "strlen s = Some (of_nat n)" by (intro strlen_cstr) auto
    with N show False by simp
  qed
next
  assume nz: "\<forall>i. 0 \<le> i \<and> i < 2 ^ 32 \<longrightarrow> s i \<noteq> 0"
  show "strlen s = None"
  proof (cases "strlen s")
    case (Some l)
    then have "s (uint l) = 0" by (simp add: strlen_def strlen_loop_NUL)
    with nz show ?thesis using uint_bounded [of l] by auto
  qed
qed

subsection \<open>strncmp\<close>

lemma strncmp_loop_eq:
  "strncmp_loop s1 s2 n i = 0 \<longleftrightarrow>
     takeWhile (\<lambda>b. b \<noteq> 0) (drop (unat i) (bytes s1 (unat n))) =
     takeWhile (\<lambda>b. b \<noteq> 0) (drop (unat i) (bytes s2 (unat n)))"
proof (induction s1 s2 n i rule: strncmp_loop.induct)
  case (1 s1 s2 n i)
  show ?case
  proof (cases "i < n")
    case True
    then have "unat i < unat n" by (simp add: word_less_nat_alt)
    then show ?thesis
      using 1 True
      by (subst strncmp_loop.simps) (auto simp: drop_bytes wsimps signed_word_eqI)
  next
    case False
    then show ?thesis
      by (subst strncmp_loop.simps) (simp add: word_less_nat_alt)
  qed
qed

lemma strncmp_eq_0_iff:
  "strncmp s1 s2 n = 0 \<longleftrightarrow> cprefix (unat n) s1 = cprefix (unat n) s2"
  using strncmp_loop_eq [of s1 s2 n 0] by (simp add: strncmp_def cprefix_def)

subsection \<open>strncpy\<close>

lemma strncpy_copy_eq:
  "unat i \<le> length (cprefix (unat n) src) \<Longrightarrow>
     strncpy_copy dest src n i =
       (\<lambda>k. if uint i \<le> k \<and> k < int (length (cprefix (unat n) src)) then src k else dest k,
        of_nat (length (cprefix (unat n) src)))"
proof (induction dest src n i rule: strncpy_copy.induct)
  case (1 dest src n i)
  let ?L = "length (cprefix (unat n) src)"
  have step: "src (uint i) \<noteq> 0 \<and> i < n \<longleftrightarrow> unat i < ?L"
    using cprefix_step_iff [OF "1.prems"] by (simp add: word_less_nat_alt)
  show ?case
  proof (cases "unat i < ?L")
    case True
    with step have g: "src (uint i) \<noteq> 0 \<and> i < n" by simp
    then have i1: "uint (i + 1) = uint i + 1" "unat (i + 1) = Suc (unat i)"
      using uint_Suc_less [of i n] unat_Suc_less [of i n] by auto
    with True have "unat (i + 1) \<le> ?L" by simp
    with g True i1 show ?thesis
      unfolding strncpy_copy.simps [of dest src n i]
      by (auto simp: "1.IH" uint_less_int intro!: ext)
  next
    case False
    with "1.prems" have "unat i = ?L" by simp
    then have "uint i = int ?L" "of_nat ?L = i" by (simp_all flip: \<open>unat i = ?L\<close>)
    with step False show ?thesis
      unfolding strncpy_copy.simps [of dest src n i] by (auto intro!: ext)
  qed
qed

lemma strncpy_pad_eq:
  "strncpy_pad dest n i = (\<lambda>k. if uint i \<le> k \<and> k < uint n then 0 else dest k)"
proof (induction dest n i rule: strncpy_pad.induct)
  case (1 dest n i)
  show ?case
  proof (cases "i < n")
    case True
    then show ?thesis
      unfolding strncpy_pad.simps [of dest n i]
      by (auto simp: "1.IH" uint_Suc_less [OF True] word_less_def intro!: ext)
  next
    case False
    then show ?thesis
      by (subst strncpy_pad.simps) (auto simp: word_less_def intro!: ext)
  qed
qed

lemma strncpy_eq:
  "strncpy dest src n =
     (\<lambda>k. if 0 \<le> k \<and> k < uint n
          then if k < int (length (cprefix (unat n) src)) then src k else 0
          else dest k)"
proof -
  have "length (cprefix (unat n) src) < 2 ^ 32"
    using length_cprefix_le [of "unat n" src] unat_u32 [of n] by simp
  moreover have "int (length (cprefix (unat n) src)) \<le> uint n"
    using length_cprefix_le [of "unat n" src] by (simp add: int_le_uint)
  ultimately show ?thesis
    by (auto simp: strncpy_def strncpy_copy_eq strncpy_pad_eq fun_eq_iff wsimps)
qed

subsection \<open>strrev\<close>

lemma strrev_loop_eq:
  "strrev_loop s beg end1 = (\<lambda>k. if beg \<le> k \<and> k \<le> end1 then s (beg + end1 - k) else s k)"
proof (induction s beg end1 rule: strrev_loop.induct)
  case (1 s beg end1)
  show ?case
  proof (cases "beg < end1")
    case True
    then show ?thesis
      unfolding strrev_loop.simps [of s beg end1]
      by (auto simp: "1.IH" intro!: ext)
  next
    case False
    then show ?thesis
      by (subst strrev_loop.simps) (auto intro!: ext arg_cong [of _ _ s])
  qed
qed

subsection \<open>itoa\<close>

lemma lookup_digit:
  assumes "d < 36"
  shows "digit_val (itoa_lookup (int d)) = d" and "itoa_lookup (int d) \<noteq> 0"
proof -
  have "\<forall>d < 36. digit_val (itoa_lookup (int d)) = d \<and> itoa_lookup (int d) \<noteq> 0"
    by code_simp
  then show "digit_val (itoa_lookup (int d)) = d" and "itoa_lookup (int d) \<noteq> 0"
    using assms by auto
qed

lemma digits_less: "2 \<le> r \<Longrightarrow> d \<in> set (digits r v) \<Longrightarrow> d < r"
proof (induction r v rule: digits.induct)
  case (1 r v)
  then show ?case
    by (subst (asm) (2) digits.simps) (auto split: if_splits)
qed

lemma length_digits: "2 \<le> r \<Longrightarrow> v < r ^ n \<Longrightarrow> length (digits r v) \<le> n"
proof (induction n arbitrary: v)
  case 0
  then show ?case by (simp add: digits.simps)
next
  case (Suc n)
  have "v div r < r ^ n"
    using Suc.prems by (simp add: div_less_iff_less_mult mult.commute)
  then have "length (digits r (v div r)) \<le> n" using Suc by blast
  then show ?case by (subst digits.simps) simp
qed

lemma length_digits_u32:
  assumes "2 \<le> r" and "v < 2 ^ 32"
  shows "length (digits r v) \<le> 32"
proof -
  have "(2 :: nat) ^ 32 \<le> r ^ 32" using assms(1) by (rule power_mono) simp
  with assms show ?thesis by (intro length_digits) linarith+
qed

lemma digits_nonempty: "2 \<le> r \<Longrightarrow> 0 < v \<Longrightarrow> digits r v \<noteq> []"
  by (subst digits.simps) simp

lemma digits_value: "2 \<le> r \<Longrightarrow> foldr (\<lambda>d acc. acc * r + d) (digits r v) 0 = v"
proof (induction r v rule: digits.induct)
  case (1 r v)
  then show ?case
    by (subst digits.simps) (auto)
qed

lemma itoa_loop_digits:
  assumes "2 \<le> unat radix" "unat radix \<le> 36"
  shows "itoa_loop v buf p radix =
    Some (\<lambda>k. if p \<le> k \<and> k < p + int (length (digits (unat radix) (unat v)))
              then itoa_lookup (int (digits (unat radix) (unat v) ! nat (k - p))) else buf k,
          p + int (length (digits (unat radix) (unat v))))"
proof (induction "unat v" arbitrary: v buf p rule: less_induct)
  case less
  show ?case
  proof (cases "v = 0")
    case True
    then show ?thesis
      by (subst itoa_loop.simps) (auto simp: digits.simps intro!: ext)
  next
    case False
    then have v: "0 < v" "0 < unat v" by (simp_all add: word_neq_0_conv unat_gt_0)
    let ?r = "unat radix"
    let ?ds = "digits ?r (unat v div ?r)"
    have r: "radix \<noteq> 0" using assms by auto
    have d: "digits ?r (unat v) = unat v mod ?r # ?ds"
      using v assms by (subst digits.simps) simp
    have "unat (v mod radix) < 36"
      using assms by (simp add: unat_mod_distrib order_less_le_trans [OF mod_less_divisor])
    then have m: "sint (v mod radix) = int (unat v mod ?r)"
      by (simp add: sint_small unat_mod_distrib)
    have "unat (v div radix) < unat v"
      using v assms by (simp add: unat_div_distrib)
    note IH = less [OF this]
    have n: "nat (k - (p + 1)) = nat (k - p) - Suc 0" for k by arith
    show ?thesis
      using v r unfolding itoa_loop.simps [of v buf p radix]
      by (auto simp: IH d m n unat_div_distrib nth_Cons' intro!: ext)
  qed
qed

lemma strrev_cstr:
  assumes "is_cstr s n" and "n < 2147483648"
  shows "strrev s = Some (\<lambda>k. if 0 \<le> k \<and> k < int n then s (int n - 1 - k) else s k)"
proof -
  have "sint (of_nat n - 1 :: u32) = int n - 1"
  proof (cases n)
    case (Suc m)
    then show ?thesis
      using assms(2) by (simp add: sint_small wsimps)
  qed simp
  then show ?thesis
    using assms by (auto simp: strrev_def strlen_cstr strrev_loop_eq intro!: ext)
qed

lemma foldl_digits:
  "foldl (\<lambda>acc b. acc * r + digit_val b) 0 (map f (rev ds)) =
     foldr (\<lambda>d acc. acc * r + digit_val (f d)) ds 0"
  by (induction ds) simp_all

lemma itoa_text:
  fixes radix "value" :: u32
  assumes "2 \<le> unat radix" and "unat radix \<le> 36"
  defines "txt \<equiv> num_text (unat radix) (unat value)"
  shows "\<exists>buf'. itoa value buf radix = Some buf' \<and> is_cstr buf' (length txt) \<and>
    bytes buf' (length txt) = txt \<and> (\<forall>k. k < 0 \<or> int (length txt) < k \<longrightarrow> buf' k = buf k)"
proof (cases "value = 0")
  case True
  then show ?thesis
    by (intro exI [of _ "buf(0 := of_char (CHR ''0''), 1 := 0)"])
      (auto simp: itoa_def is_cstr_def bytes_def txt_def num_text_def)
next
  case False
  let ?r = "unat radix"
  let ?ds = "digits ?r (unat value)"
  let ?n = "length ?ds"
  define buf2 where "buf2 = (\<lambda>k. if 0 \<le> k \<and> k < int ?n
    then itoa_lookup (int (?ds ! nat k)) else if k = int ?n then 0 else buf k)"
  define buf' where "buf' = (\<lambda>k. if 0 \<le> k \<and> k < int ?n then buf2 (int ?n - 1 - k) else buf2 k)"
  have tx: "txt = map (\<lambda>d. itoa_lookup (int d)) (rev ?ds)"
    using False by (simp add: txt_def num_text_def unat_eq_0)
  have n: "?n \<le> 32"
    using assms length_digits_u32 [of ?r "unat value"] unat_u32 [of "value"] by simp
  have small: "?ds ! i < 36" if "i < ?n" for i
    using digits_less [OF assms(1) nth_mem [OF that]] assms(2) by simp
  have "is_cstr buf2 ?n"
    using small by (intro is_cstrI) (auto simp: buf2_def lookup_digit)
  moreover have "(\<lambda>k. if 0 \<le> k \<and> k < int ?n then itoa_lookup (int (?ds ! nat (k - 0)))
      else buf k)(int ?n := 0) = buf2"
    by (auto simp: buf2_def)
  ultimately have ret: "itoa value buf radix = Some buf'"
    using False n by (simp add: itoa_def itoa_loop_digits [OF assms(1,2)] strrev_cstr buf'_def)
  have nth: "buf' (int i) = itoa_lookup (int (rev ?ds ! i))" if "i < ?n" for i
    using that by (simp add: buf'_def buf2_def rev_nth nat_diff_distrib of_nat_diff)
  have "is_cstr buf' ?n"
    using small by (intro is_cstrI) (auto simp: nth rev_nth lookup_digit, simp add: buf'_def buf2_def)
  moreover have "bytes buf' ?n = txt"
    unfolding tx by (rule nth_equalityI) (simp_all add: nth)
  moreover have "\<forall>k. k < 0 \<or> int ?n < k \<longrightarrow> buf' k = buf k"
    by (auto simp: buf'_def buf2_def)
  ultimately show ?thesis using ret by (simp add: tx)
qed

lemma parse_num_text:
  assumes "2 \<le> r" and "r \<le> 36"
  shows "parse_num r (num_text r v) = v"
proof (cases "v = 0")
  case True
  then show ?thesis by (simp add: num_text_def parse_num_def digit_val_def)
next
  case False
  have "d \<in> set (digits r v) \<Longrightarrow> digit_val (itoa_lookup (int d)) = d" for d
    using digits_less [OF assms(1)] assms(2) by (force intro: lookup_digit(1))
  then have "foldr (\<lambda>d acc. acc * r + digit_val (itoa_lookup (int d))) (digits r v) 0 = v"
    using digits_value [OF assms(1), of v] by (simp cong: foldr_cong)
  with False show ?thesis by (simp add: num_text_def parse_num_def foldl_digits)
qed

lemma length_num_text:
  assumes "2 \<le> r" and "v < 2 ^ 32"
  shows "0 < length (num_text r v)" and "length (num_text r v) \<le> 32"
  using assms digits_nonempty [of r v] length_digits_u32 [of r v] by (auto simp: num_text_def)

lemma itoa_cstr:
  assumes "2 \<le> unat radix" and "unat radix \<le> 36"
  shows "\<exists>buf' n. itoa value buf radix = Some buf' \<and> is_cstr buf' n \<and> 0 < n \<and> n \<le> 32 \<and>
    parse_num (unat radix) (bytes buf' n) = unat value \<and>
    (\<forall>k. k < 0 \<or> int n < k \<longrightarrow> buf' k = buf k)"
proof -
  let ?txt = "num_text (unat radix) (unat value)"
  have "unat value < 2 ^ 32" using unat_u32 [of "value"] by simp
  note len = length_num_text [OF assms(1) this]
  obtain buf' where "itoa value buf radix = Some buf'" "is_cstr buf' (length ?txt)"
    "bytes buf' (length ?txt) = ?txt" "\<forall>k. k < 0 \<or> int (length ?txt) < k \<longrightarrow> buf' k = buf k"
    using itoa_text [OF assms] by blast
  with len parse_num_text [OF assms] show ?thesis by metis
qed

subsection \<open>strcpy and left\_pad\<close>

lemma strcpy_loop_cstr:
  "is_cstr src n \<Longrightarrow> k \<le> n \<Longrightarrow>
     strcpy_loop dest src (int k) = Some (\<lambda>i. if int k \<le> i \<and> i \<le> int n then src i else dest i)"
proof (induction "n - k" arbitrary: k dest)
  case 0
  then have "k = n" by simp
  with 0 show ?case
    by (subst strcpy_loop.simps) (auto simp: is_cstrD intro!: ext)
next
  case (Suc d)
  then have k: "k < n" "d = n - Suc k" by simp_all
  have "strcpy_loop (dest(int k := src (int k))) src (int (Suc k)) =
      Some (\<lambda>i. if int (Suc k) \<le> i \<and> i \<le> int n then src i
                else (dest(int k := src (int k))) i)"
    using Suc.hyps(1) [of "Suc k"] Suc.prems k by simp
  then show ?case
    using k is_cstrD(2) [OF Suc.prems(1), of k]
    unfolding strcpy_loop.simps [of dest src "int k"] by (auto simp: add.commute intro!: ext)
qed

lemma strcpy_cstr:
  "is_cstr src n \<Longrightarrow>
     strcpy dest src = Some (\<lambda>i. if 0 \<le> i \<and> i \<le> int n then src i else dest i)"
  using strcpy_loop_cstr [of src n 0 dest] by (simp add: strcpy_def)

lemma left_pad_spaces_eq:
  "left_pad_spaces out n = (\<lambda>k. if 0 \<le> k \<and> k < int n then of_char (CHR '' '') else out k)"
  by (induction n) (auto intro!: ext)

lemma left_pad_short:
  assumes "is_cstr inp n" and "n < unat len" and "unat len < 2 ^ 31"
  shows "left_pad inp out len = Some (\<lambda>k.
     if 0 \<le> k \<and> k < uint len - int n then of_char (CHR '' '')
     else if uint len - int n \<le> k \<and> k < uint len then inp (k - (uint len - int n))
     else if uint len \<le> k \<and> k < uint len + (uint len - int n) then 0
     else out k)"
proof -
  have n: "n < 2 ^ 32" using assms(2) unat_u32 [of len] by simp
  have "unat (len - of_nat n) = unat len - n"
    using assms n by (simp add: unat_sub_if' wsimps)
  then have off: "sint (len - of_nat n) = uint len - int n"
    using assms by (simp add: sint_small of_nat_diff)
  have "\<not> len \<le> of_nat n"
    using assms(2) n by (simp add: word_le_nat_alt wsimps)
  moreover have "length (cprefix (unat len) inp) = n"
    using assms by (simp add: cprefix_cstr)
  moreover have "int n < uint len" using assms(2) by (metis of_nat_less_iff of_nat_unat)
  ultimately show ?thesis
    using assms(1) n
    by (auto simp: left_pad_def strlen_cstr off left_pad_spaces_eq strncpy_eq Let_def intro!: ext)
qed

lemma left_pad_long:
  assumes "is_cstr inp n" and "unat len \<le> n" and "n < 2 ^ 32"
  shows "left_pad inp out len =
    Some (\<lambda>k. if 0 \<le> k \<and> k < uint len then inp k else if k = uint len then 0 else out k)"
proof -
  have "len \<le> of_nat n" using assms by (simp add: word_le_nat_alt wsimps)
  moreover have "length (cprefix (unat len) inp) = unat len"
    using assms by (simp add: cprefix_cstr)
  ultimately show ?thesis
    using assms by (auto simp: left_pad_def strlen_cstr strncpy_eq intro!: ext)
qed

subsection \<open>Properties\<close>

text \<open>
  \<open>strlen\<close> returns \<open>l\<close> exactly when the string ends after \<open>l\<close> non-zero bytes: it
  returns for every terminated string and never returns a length that is not the string's.
\<close>

theorem strlen_correct: "strlen s = Some l \<longleftrightarrow> is_cstr s (unat l)"
  by (rule strlen_iff)

text \<open>
  \<open>strncmp\<close> returns zero exactly when the two strings, each cut at its NUL and at
  \<open>n\<close> bytes, are the same.
\<close>

theorem strncmp_zero_iff: "strncmp s1 s2 n = 0 \<longleftrightarrow> cprefix (unat n) s1 = cprefix (unat n) s2"
  by (rule strncmp_eq_0_iff)

text \<open>
  C36. \<open>itoa\<close> followed by parsing is the identity: in every radix from 2 to 36 it returns, the
  buffer then holds a terminated string of at most 32 digits whose value in that radix is the
  number, and no byte outside that string is changed.
\<close>

theorem itoa_roundtrip:
  assumes "2 \<le> unat radix" and "unat radix \<le> 36"
  shows "\<exists>buf' n. itoa value buf radix = Some buf' \<and> is_cstr buf' n \<and> 0 < n \<and> n \<le> 32 \<and>
    parse_num (unat radix) (bytes buf' n) = unat value \<and>
    (\<forall>k. k < 0 \<or> int n < k \<longrightarrow> buf' k = buf k)"
  by (rule itoa_cstr [OF assms])

theorem itoa_roundtrip_witness:
  "\<exists>buf' n. itoa 0xBEEF (\<lambda>_. 0) 16 = Some buf' \<and> is_cstr buf' n \<and> 0 < n \<and> n \<le> 32 \<and>
    parse_num 16 (bytes buf' n) = 48879"
  using itoa_roundtrip [of 16 "0xBEEF" "\<lambda>_. 0"] by auto

text \<open>
  \<open>left_pad\<close> right-aligns a shorter string in a field of \<open>len\<close> characters and ends the
  field with a NUL. Its \<open>strncpy\<close> is given the length of the whole field instead of what is
  left of it, so the \<open>len - n\<close> bytes after the field are zeroed as well.
\<close>

theorem left_pad_aligns:
  assumes "is_cstr inp n" and "n < unat len" and "unat len < 2 ^ 31"
  shows "left_pad inp out len = Some (\<lambda>k.
     if 0 \<le> k \<and> k < uint len - int n then of_char (CHR '' '')
     else if uint len - int n \<le> k \<and> k < uint len then inp (k - (uint len - int n))
     else if uint len \<le> k \<and> k < uint len + (uint len - int n) then 0
     else out k)"
  by (rule left_pad_short [OF assms])

theorem left_pad_aligns_witness:
  "\<exists>out'. left_pad (lit ''ab'') (\<lambda>_. 7) 5 = Some out' \<and>
     bytes out' 9 = [32, 32, 32, 97, 98, 0, 0, 0, 7]"
proof -
  have "is_cstr (lit ''ab'') 2" by code_simp
  then show ?thesis
    using left_pad_aligns [of "lit ''ab''" 2 5 "\<lambda>_. 7"] by (simp add: bytes_def lit_def upt_rec)
qed

end
