(* ===== verification/LibMem.thy ===== *)
theory LibMem
  imports Prelude
begin

section \<open>Memory routines of the kernel library\<close>

text \<open>
  The inline assembly of \<open>memset\<close>, \<open>memset_word\<close>, \<open>memset_dword\<close>,
  \<open>memcpy\<close> and \<open>memmove\<close> in \<open>src/student-distrib/lib.c\<close>, label by label. A
  label is a function of the registers its code uses and of memory; \<open>rep stosl\<close>,
  \<open>rep movsl\<close> and their kin count \<open>ecx\<close> down to zero. The optimised routines are then
  shown equal to a one-line reference: the bytes of a region replaced in one go.
\<close>

subsection \<open>String instructions\<close>

text \<open>\<open>b\<close> bytes of the little-endian value \<open>v\<close> stored at \<open>p\<close>: a byte, a word, a dword.\<close>

definition store_u16 :: "mem \<Rightarrow> u32 \<Rightarrow> u32 \<Rightarrow> mem" where
  "store_u16 m p v = m(p := ucast v, p + 1 := ucast (drop_bit 8 v))"

definition store_u32 :: "mem \<Rightarrow> u32 \<Rightarrow> u32 \<Rightarrow> mem" where
  "store_u32 m p v = m(p := ucast v, p + 1 := ucast (drop_bit 8 v),
     p + 2 := ucast (drop_bit 16 v), p + 3 := ucast (drop_bit 24 v))"

function rep_stosw :: "u32 \<Rightarrow> mem \<Rightarrow> u32 \<Rightarrow> u32 \<Rightarrow> mem" where
  "rep_stosw eax m edi ecx =
     (if ecx = 0 then m else rep_stosw eax (store_u16 m edi eax) (edi + 2) (ecx - 1))"
  by pat_completeness auto
termination
  by (relation "measure (\<lambda>(eax, m, edi, ecx). unat ecx)") (auto simp: measure_unat)

function rep_stosl :: "u32 \<Rightarrow> mem \<Rightarrow> u32 \<Rightarrow> u32 \<Rightarrow> mem \<times> u32" where
  "rep_stosl eax m edi ecx =
     (if ecx = 0 then (m, edi) else rep_stosl eax (store_u32 m edi eax) (edi + 4) (ecx - 1))"
  by pat_completeness auto
termination
  by (relation "measure (\<lambda>(eax, m, edi, ecx). unat ecx)") (auto simp: measure_unat)

function rep_movsl :: "mem \<Rightarrow> u32 \<Rightarrow> u32 \<Rightarrow> u32 \<Rightarrow> mem \<times> u32 \<times> u32" where
  "rep_movsl m edi esi ecx =
     (if ecx = 0 then (m, edi, esi)
      else rep_movsl (store_u32 m edi (u32_at m esi)) (edi + 4) (esi + 4) (ecx - 1))"
  by pat_completeness auto
termination
  by (relation "measure (\<lambda>(m, edi, esi, ecx). unat ecx)") (auto simp: measure_unat)

text \<open>\<open>rep movsb\<close> steps up, or down when the direction flag is set.\<close>

function rep_movsb :: "bool \<Rightarrow> mem \<Rightarrow> u32 \<Rightarrow> u32 \<Rightarrow> u32 \<Rightarrow> mem" where
  "rep_movsb df m edi esi ecx =
     (if ecx = 0 then m
      else rep_movsb df (m(edi := m esi)) (if df then edi - 1 else edi + 1)
             (if df then esi - 1 else esi + 1) (ecx - 1))"
  by pat_completeness auto
termination
  by (relation "measure (\<lambda>(df, m, edi, esi, ecx). unat ecx)") (auto simp: measure_unat)

subsection \<open>The routines\<close>

function memset_bottom :: "u32 \<Rightarrow> mem \<Rightarrow> u32 \<Rightarrow> u32 \<Rightarrow> mem" where
  "memset_bottom eax m edi edx =
     (if edx = 0 then m else memset_bottom eax (m(edi := ucast eax)) (edi + 1) (edx - 1))"
  by pat_completeness auto
termination
  by (relation "measure (\<lambda>(eax, m, edi, edx). unat edx)") (auto simp: measure_unat)

definition memset_aligned :: "u32 \<Rightarrow> mem \<Rightarrow> u32 \<Rightarrow> u32 \<Rightarrow> mem" where
  "memset_aligned eax m edi ecx =
     (let edx = ecx AND 3; (m', edi') = rep_stosl eax m edi (drop_bit 2 ecx)
      in memset_bottom eax m' edi' edx)"

function memset_top :: "u32 \<Rightarrow> mem \<Rightarrow> u32 \<Rightarrow> u32 \<Rightarrow> mem" where
  "memset_top eax m edi ecx =
     (if ecx = 0 then m
      else if edi AND 3 = 0 then memset_aligned eax m edi ecx
      else memset_top eax (m(edi := ucast eax)) (edi + 1) (ecx - 1))"
  by pat_completeness auto
termination
  by (relation "measure (\<lambda>(eax, m, edi, ecx). unat ecx)") (auto simp: measure_unat)

definition memset :: "mem \<Rightarrow> u32 \<Rightarrow> u32 \<Rightarrow> u32 \<Rightarrow> mem" where
  "memset m s c n =
     (let c = c AND 0xFF
      in memset_top (push_bit 24 c OR push_bit 16 c OR push_bit 8 c OR c) m s n)"

definition memset_word :: "mem \<Rightarrow> u32 \<Rightarrow> u32 \<Rightarrow> u32 \<Rightarrow> mem" where
  "memset_word m s c n = rep_stosw c m s n"

definition memset_dword :: "mem \<Rightarrow> u32 \<Rightarrow> u32 \<Rightarrow> u32 \<Rightarrow> mem" where
  "memset_dword m s c n = fst (rep_stosl c m s n)"

function memcpy_bottom :: "mem \<Rightarrow> u32 \<Rightarrow> u32 \<Rightarrow> u32 \<Rightarrow> mem" where
  "memcpy_bottom m edi esi edx =
     (if edx = 0 then m
      else memcpy_bottom (m(edi := m esi)) (edi + 1) (esi + 1) (edx - 1))"
  by pat_completeness auto
termination
  by (relation "measure (\<lambda>(m, edi, esi, edx). unat edx)") (auto simp: measure_unat)

definition memcpy_aligned :: "mem \<Rightarrow> u32 \<Rightarrow> u32 \<Rightarrow> u32 \<Rightarrow> mem" where
  "memcpy_aligned m edi esi ecx =
     (let edx = ecx AND 3; (m', edi', esi') = rep_movsl m edi esi (drop_bit 2 ecx)
      in memcpy_bottom m' edi' esi' edx)"

function memcpy_top :: "mem \<Rightarrow> u32 \<Rightarrow> u32 \<Rightarrow> u32 \<Rightarrow> mem" where
  "memcpy_top m edi esi ecx =
     (if ecx = 0 then m
      else if edi AND 3 = 0 then memcpy_aligned m edi esi ecx
      else memcpy_top (m(edi := m esi)) (edi + 1) (esi + 1) (ecx - 1))"
  by pat_completeness auto
termination
  by (relation "measure (\<lambda>(m, edi, esi, ecx). unat ecx)") (auto simp: measure_unat)

definition memcpy :: "mem \<Rightarrow> u32 \<Rightarrow> u32 \<Rightarrow> u32 \<Rightarrow> mem" where
  "memcpy m dest src n = memcpy_top m dest src n"

text \<open>\<open>cmp edi, esi; jae\<close>: up when the source is not below the destination.\<close>

definition memmove :: "mem \<Rightarrow> u32 \<Rightarrow> u32 \<Rightarrow> u32 \<Rightarrow> mem" where
  "memmove m dest src n =
     (if dest \<le> src then rep_movsb False m dest src n
      else rep_movsb True m (dest + n - 1) (src + n - 1) n)"

declare rep_stosw.simps [simp del] rep_stosl.simps [simp del] rep_movsl.simps [simp del]
  rep_movsb.simps [simp del] memset_bottom.simps [simp del] memset_top.simps [simp del]
  memcpy_bottom.simps [simp del] memcpy_top.simps [simp del]

subsection \<open>References\<close>

text \<open>The region of \<open>n\<close> bytes from \<open>p\<close>, filled with one byte or with a copy.\<close>

definition fill :: "mem \<Rightarrow> u32 \<Rightarrow> u32 \<Rightarrow> u8 \<Rightarrow> mem" where
  "fill m p n b = (\<lambda>a. if a - p < n then b else m a)"

definition copy :: "mem \<Rightarrow> u32 \<Rightarrow> u32 \<Rightarrow> u32 \<Rightarrow> mem" where
  "copy m dest src n = (\<lambda>a. if a - dest < n then m (src + (a - dest)) else m a)"

text \<open>A region may be copied upwards unless its destination starts inside its source, past its start.\<close>

definition fwd_ok :: "u32 \<Rightarrow> u32 \<Rightarrow> u32 \<Rightarrow> bool" where
  "fwd_ok d s n \<longleftrightarrow> d = s \<or> n \<le> d - s"

text \<open>The four bytes of \<open>eax\<close> are the same byte.\<close>

definition splat :: "u32 \<Rightarrow> u8 \<Rightarrow> bool" where
  "splat eax b \<longleftrightarrow> ucast eax = b \<and> ucast (drop_bit 8 eax) = b \<and>
     ucast (drop_bit 16 eax) = b \<and> ucast (drop_bit 24 eax) = b"

subsection \<open>Regions of wrapping addresses\<close>

lemma region_step:
  fixes n x :: "'a::len word"
  assumes "n \<noteq> 0"
  shows "x < n \<longleftrightarrow> x = 0 \<or> x - 1 < n - 1"
proof (cases "x = 0")
  case True
  with assms show ?thesis by (simp add: word_neq_0_conv)
next
  case False
  with assms have "0 < unat x" "0 < unat n" by (simp_all add: unat_gt_0)
  then have "unat x < unat n \<longleftrightarrow> unat x - 1 < unat n - 1" by linarith
  with False assms show ?thesis by (simp add: word_less_nat_alt unat_pred)
qed

lemma region_add:
  fixes x k n :: "'a::len word"
  assumes "unat k + unat n < 2 ^ LENGTH('a)"
  shows "x < k + n \<longleftrightarrow> x < k \<or> x - k < n"
proof -
  have "unat (k + n) = unat k + unat n" using assms by (simp add: unat_word_ariths)
  then show ?thesis
    by (cases "x < k") (auto simp: word_less_nat_alt unat_sub_if' not_less)
qed

lemma fill_0 [simp]: "fill m p 0 b = m"
  by (simp add: fill_def)

lemma fill_step: "n \<noteq> 0 \<Longrightarrow> fill (m(p := b)) (p + 1) (n - 1) b = fill m p n b"
  by (auto simp: fill_def region_step [of n] diff_diff_eq intro!: ext)

lemma fill_add:
  "unat k + unat n < 2 ^ 32 \<Longrightarrow> fill (fill m p k b) (p + k) n b = fill m p (k + n) b"
  by (auto simp: fill_def region_add [of k n] diff_diff_eq intro!: ext)

lemma copy_0 [simp]: "copy m d s 0 = m"
  by (simp add: copy_def)

lemma word_le_sub_larger: "(y :: 'a::len word) < d \<Longrightarrow> y \<le> y - d"
proof -
  assume "y < d"
  then have "unat (y - d) = unat y + 2 ^ LENGTH('a) - unat d"
    by (simp add: word_less_nat_alt unat_sub_if')
  moreover have "unat d < 2 ^ LENGTH('a)" by (rule unsigned_less)
  ultimately show ?thesis unfolding word_le_nat_alt by linarith
qed

lemma less4: "(x :: u32) < 4 \<longleftrightarrow> x = 0 \<or> x = 1 \<or> x = 2 \<or> x = 3"
proof -
  have "unat x < 4 \<longleftrightarrow> unat x = 0 \<or> unat x = 1 \<or> unat x = 2 \<or> unat x = 3" by auto
  then show ?thesis by (simp add: word_less_nat_alt word_unat_eq_iff)
qed

lemma fwd_ok_mono: "fwd_ok d s n \<Longrightarrow> k \<le> n \<Longrightarrow> fwd_ok (d + j) (s + j) k"
  by (auto simp: fwd_ok_def)

lemma fwd_ok_step: "fwd_ok d s n \<Longrightarrow> n \<noteq> 0 \<Longrightarrow> fwd_ok (d + 1) (s + 1) (n - 1)"
  using fwd_ok_mono [of d s n "n - 1" 1] by (simp add: word_le_nat_alt unat_minus_one)

lemma copy_step:
  assumes "n \<noteq> 0" and "fwd_ok d s n"
  shows "copy (m(d := m s)) (d + 1) (s + 1) (n - 1) = copy m d s n"
proof
  fix a
  have "s + (a - d) \<noteq> d" if "a - d < n" "d \<noteq> s"
  proof
    assume "s + (a - d) = d"
    then have "a - d = d - s" by (simp add: algebra_simps)
    with that assms(2) show False by (simp add: fwd_ok_def)
  qed
  then show "copy (m(d := m s)) (d + 1) (s + 1) (n - 1) a = copy m d s n a"
    using region_step [OF assms(1), of "a - d"]
    by (auto simp: copy_def diff_diff_eq algebra_simps)
qed

lemma copy_same [simp]: "copy m d d n = m"
  by (auto simp: copy_def intro!: ext)

lemma copy_add:
  assumes "unat k + unat n < 2 ^ 32" and "fwd_ok d s (k + n)"
  shows "copy (copy m d s k) (d + k) (s + k) n = copy m d s (k + n)"
proof (cases "d = s")
  case False
  show ?thesis
  proof
    fix a
    define x where "x = a - d"
    have a: "a = d + x" by (simp add: x_def)
    have add: "x < k + n \<longleftrightarrow> x < k \<or> x - k < n"
      using assms(1) by (simp add: region_add)
    have disj: "x < k \<Longrightarrow> \<not> x - k < n"
      using assms(1) by (auto simp: word_less_nat_alt unat_sub_if')
    have "\<not> s + x - d < k" if "x < k + n" "\<not> x < k"
    proof -
      have "x < d - s" using assms(2) that(1) False by (auto simp: fwd_ok_def)
      then have "x \<le> x - (d - s)" by (rule word_le_sub_larger)
      then show ?thesis using that(2) by (simp add: algebra_simps)
    qed
    then show "copy (copy m d s k) (d + k) (s + k) n a = copy m d s (k + n) a"
      using add disj by (auto simp: a copy_def algebra_simps)
  qed
qed simp

lemma store_u32_copy: "store_u32 m d (u32_at m s) = copy m d s 4"
proof
  fix a
  define x where "x = a - d"
  have a: "a = d + x" by (simp add: x_def)
  show "store_u32 m d (u32_at m s) a = copy m d s 4 a"
    using less4 [of x] by (auto simp: store_u32_def copy_def a u32_at_def)
qed

lemma rep_movsl_copy:
  "unat ecx * 4 < 2 ^ 32 \<Longrightarrow> fwd_ok edi esi (4 * ecx) \<Longrightarrow>
     rep_movsl m edi esi ecx = (copy m edi esi (4 * ecx), edi + 4 * ecx, esi + 4 * ecx)"
proof (induction m edi esi ecx rule: rep_movsl.induct)
  case (1 m edi esi ecx)
  show ?case
  proof (cases "ecx = 0")
    case True
    then show ?thesis by (simp add: rep_movsl.simps)
  next
    case False
    define y where "y = ecx - 1"
    have e: "ecx = y + 1" by (simp add: y_def)
    have u: "unat ecx = Suc (unat y)" using False by (simp add: y_def unat_pred unat_gt_0)
    with "1.prems" have b: "unat (4 * y) = 4 * unat y" "4 + 4 * unat y < 2 ^ 32"
      by (simp_all add: unat_word_ariths)
    then have "4 * y \<le> 4 + 4 * y" by (simp add: word_le_nat_alt unat_word_ariths)
    then have ok: "fwd_ok (edi + 4) (esi + 4) (4 * y)"
      using "1.prems" by (intro fwd_ok_mono [of edi esi "4 * ecx"]) (simp_all add: e algebra_simps)
    have "copy (copy m edi esi 4) (edi + 4) (esi + 4) (4 * y) = copy m edi esi (4 * ecx)"
    proof -
      have "unat (4 :: u32) + unat (4 * y) < 2 ^ 32" using b by simp
      moreover have "4 * ecx = 4 + 4 * y" by (simp add: e algebra_simps)
      ultimately show ?thesis using copy_add [of 4 "4 * y" edi esi m] "1.prems" by simp
    qed
    then show ?thesis
      using "1.IH" [OF False] b ok False unfolding rep_movsl.simps [of m edi esi ecx]
      by (simp add: store_u32_copy y_def [symmetric]) (simp add: e algebra_simps)
  qed
qed

lemma low_bits_split:
  fixes n :: u32
  shows "4 * drop_bit 2 n + (n AND 3) = n"
    and "unat (4 * drop_bit 2 n) + unat (n AND 3) < 2 ^ 32"
    and "unat (drop_bit 2 n) * 4 < 2 ^ 32"
proof -
  have t: "n AND 3 = take_bit 2 n" by (simp add: take_bit_eq_mask mask_eq_exp_minus_1)
  show "4 * drop_bit 2 n + (n AND 3) = n"
    using bits_ident [of 2 n] by (simp add: t push_bit_eq_mult mult.commute)
  have d: "unat (drop_bit 2 n) = unat n div 4" by (simp add: drop_bit_eq_div unat_div_distrib)
  have m: "unat (n AND 3) = unat n mod 4" by (simp add: t take_bit_eq_mod unat_mod_distrib)
  have "unat n div 4 * 4 + unat n mod 4 < 2 ^ 32" using unat_u32 [of n] by simp
  then show "unat (drop_bit 2 n) * 4 < 2 ^ 32" "unat (4 * drop_bit 2 n) + unat (n AND 3) < 2 ^ 32"
    by (simp_all add: unat_word_ariths d m)
qed

lemma memcpy_bottom_copy: "fwd_ok edi esi edx \<Longrightarrow> memcpy_bottom m edi esi edx = copy m edi esi edx"
proof (induction m edi esi edx rule: memcpy_bottom.induct)
  case (1 m edi esi edx)
  show ?case
  proof (cases "edx = 0")
    case False
    have "memcpy_bottom (m(edi := m esi)) (edi + 1) (esi + 1) (edx - 1) =
        copy (m(edi := m esi)) (edi + 1) (esi + 1) (edx - 1)"
      by (rule "1.IH") (use False "1.prems" fwd_ok_step in auto)
    with False "1.prems" show ?thesis
      unfolding memcpy_bottom.simps [of m edi esi edx] by (simp add: copy_step)
  qed (use "1.prems" in \<open>auto simp: memcpy_bottom.simps [of m edi esi]\<close>)
qed

lemma memcpy_aligned_copy: "fwd_ok edi esi ecx \<Longrightarrow> memcpy_aligned m edi esi ecx = copy m edi esi ecx"
proof -
  assume ok: "fwd_ok edi esi ecx"
  note sp = low_bits_split [of ecx]
  have "unat (4 * drop_bit 2 ecx) \<le> unat (4 * drop_bit 2 ecx + (ecx AND 3))"
    using sp(2) by (simp add: unat_word_ariths(1))
  then have le: "4 * drop_bit 2 ecx \<le> ecx" "ecx AND 3 \<le> ecx"
    unfolding sp(1) word_le_nat_alt [symmetric] by (simp_all add: word_and_le2)
  have "fwd_ok edi esi (4 * drop_bit 2 ecx)" "fwd_ok (edi + 4 * drop_bit 2 ecx) (esi + 4 * drop_bit 2 ecx) (ecx AND 3)"
    using fwd_ok_mono [OF ok le(1), of 0] fwd_ok_mono [OF ok le(2)] by simp_all
  then show ?thesis
    using copy_add [OF sp(2), of edi esi m] ok
    by (simp add: memcpy_aligned_def rep_movsl_copy [OF sp(3)] sp(1) memcpy_bottom_copy Let_def)
qed
lemma memcpy_top_copy: "fwd_ok edi esi ecx \<Longrightarrow> memcpy_top m edi esi ecx = copy m edi esi ecx"
proof (induction m edi esi ecx rule: memcpy_top.induct)
  case (1 m edi esi ecx)
  show ?case
  proof (cases "ecx = 0 \<or> edi AND 3 = 0")
    case False
    have "memcpy_top (m(edi := m esi)) (edi + 1) (esi + 1) (ecx - 1) =
        copy (m(edi := m esi)) (edi + 1) (esi + 1) (ecx - 1)"
      by (rule "1.IH") (use False "1.prems" fwd_ok_step in auto)
    with False "1.prems" show ?thesis
      unfolding memcpy_top.simps [of m edi esi ecx] by (simp add: copy_step)
  qed (use "1.prems" in \<open>auto simp: memcpy_top.simps [of m edi esi] memcpy_aligned_copy\<close>)
qed


subsection \<open>memset\<close>

lemma memset_bottom_fill: "memset_bottom eax m edi edx = fill m edi edx (ucast eax)"
proof (induction eax m edi edx rule: memset_bottom.induct)
  case (1 eax m edi edx)
  show ?case
  proof (cases "edx = 0")
    case False
    have "memset_bottom eax (m(edi := ucast eax)) (edi + 1) (edx - 1) =
        fill (m(edi := ucast eax)) (edi + 1) (edx - 1) (ucast eax)"
      by (rule "1.IH") (rule False)
    with False show ?thesis
      unfolding memset_bottom.simps [of eax m edi edx] by (simp add: fill_step)
  qed (simp add: memset_bottom.simps)
qed

lemma store_u32_fill:
  assumes "splat eax b"
  shows "store_u32 m d eax = fill m d 4 b"
proof
  fix a
  define x where "x = a - d"
  have a: "a = d + x" by (simp add: x_def)
  show "store_u32 m d eax a = fill m d 4 b a"
    using assms less4 [of x] by (auto simp: store_u32_def fill_def a splat_def)
qed

lemma rep_stosl_fill:
  "unat ecx * 4 < 2 ^ 32 \<Longrightarrow> splat eax b \<Longrightarrow>
     rep_stosl eax m edi ecx = (fill m edi (4 * ecx) b, edi + 4 * ecx)"
proof (induction eax m edi ecx rule: rep_stosl.induct)
  case (1 eax m edi ecx)
  show ?case
  proof (cases "ecx = 0")
    case False
    define y where "y = ecx - 1"
    have e: "ecx = y + 1" "4 * ecx = 4 + 4 * y" by (simp_all add: y_def algebra_simps)
    have "unat ecx = Suc (unat y)" using False by (simp add: y_def unat_pred unat_gt_0)
    with "1.prems" have b: "unat (4 :: u32) + unat (4 * y) < 2 ^ 32" "unat y * 4 < 2 ^ 32"
      by (simp_all add: unat_word_ariths)
    have "rep_stosl eax (store_u32 m edi eax) (edi + 4) y =
        (fill (store_u32 m edi eax) (edi + 4) (4 * y) b, edi + 4 + 4 * y)"
      unfolding y_def by (rule "1.IH") (use False "1.prems" b in \<open>simp_all add: y_def\<close>)
    with False "1.prems" show ?thesis
      unfolding rep_stosl.simps [of eax m edi ecx]
      by (simp add: store_u32_fill fill_add [OF b(1)] e(2) y_def [symmetric])
  qed (simp add: rep_stosl.simps)
qed

lemma memset_aligned_fill: "splat eax b \<Longrightarrow> memset_aligned eax m edi ecx = fill m edi ecx b"
proof -
  assume sp: "splat eax b"
  note lo = low_bits_split [of ecx]
  have "ucast eax = b" using sp by (simp add: splat_def)
  then show ?thesis
    using fill_add [OF lo(2), of m edi b]
    by (simp add: memset_aligned_def rep_stosl_fill [OF lo(3) sp] memset_bottom_fill lo(1) Let_def)
qed

lemma memset_top_fill: "splat eax b \<Longrightarrow> memset_top eax m edi ecx = fill m edi ecx b"
proof (induction eax m edi ecx rule: memset_top.induct)
  case (1 eax m edi ecx)
  show ?case
  proof (cases "ecx = 0 \<or> edi AND 3 = 0")
    case False
    have "memset_top eax (m(edi := ucast eax)) (edi + 1) (ecx - 1) =
        fill (m(edi := ucast eax)) (edi + 1) (ecx - 1) b"
      by (rule "1.IH") (use False "1.prems" in auto)
    moreover have "ucast eax = b" using "1.prems" by (simp add: splat_def)
    ultimately show ?thesis
      using False unfolding memset_top.simps [of eax m edi ecx] by (simp add: fill_step)
  qed (use "1.prems" in \<open>auto simp: memset_top.simps [of eax m edi] memset_aligned_fill\<close>)
qed

lemma memset_fill: "memset m s c n = fill m s n (ucast c)"
proof -
  have "c AND 0xFF = take_bit 8 c" by (simp add: take_bit_eq_mask mask_eq_exp_minus_1)
  moreover have "splat (push_bit 24 (take_bit 8 c) OR push_bit 16 (take_bit 8 c) OR
      push_bit 8 (take_bit 8 c) OR take_bit 8 c) (ucast c)"
    unfolding splat_def
    by (intro conjI bit_word_eqI) (auto simp: bit_simps dest: bit_imp_le_length)
  ultimately show ?thesis by (simp add: memset_def memset_top_fill Let_def)
qed

lemma memcpy_copy: "fwd_ok dest src n \<Longrightarrow> memcpy m dest src n = copy m dest src n"
  by (simp add: memcpy_def memcpy_top_copy)

subsection \<open>memmove\<close>

lemma movsb_up: "fwd_ok edi esi ecx \<Longrightarrow> rep_movsb False m edi esi ecx = copy m edi esi ecx"
proof (induction "unat ecx" arbitrary: m edi esi ecx)
  case 0
  then have "ecx = 0" by (simp add: unat_eq_0)
  then show ?case by (simp add: rep_movsb.simps)
next
  case (Suc k)
  then have z: "ecx \<noteq> 0" by auto
  then have "k = unat (ecx - 1)" using Suc.hyps(2) by (simp add: unat_pred)
  with Suc.hyps(1) fwd_ok_step [OF Suc.prems z] copy_step [OF z Suc.prems] z show ?case
    unfolding rep_movsb.simps [of False m edi esi ecx] by simp
qed

text \<open>Copying downwards needs the source not to start inside the destination, below it.\<close>

lemma copy_step_down:
  assumes "n \<noteq> 0" and "fwd_ok s d n"
  shows "copy (m(d + (n - 1) := m (s + (n - 1)))) d s (n - 1) = copy m d s n"
proof
  fix a
  define x where "x = a - d"
  have a: "a = d + x" by (simp add: x_def)
  have n: "unat (n - 1) = unat n - 1" "0 < unat n"
    using assms(1) by (simp_all add: unat_pred unat_gt_0)
  then have lt: "x < n \<longleftrightarrow> x < n - 1 \<or> x = n - 1"
    unfolding word_less_nat_alt word_unat_eq_iff by linarith
  have "s + x \<noteq> d + (n - 1)" if "x < n - 1" "s \<noteq> d"
  proof
    assume "s + x = d + (n - 1)"
    then have "s - d = (n - 1) - x" by (simp add: algebra_simps)
    moreover have "(n - 1) - x < n"
      using that(1) n unfolding word_less_nat_alt unat_sub_if' by simp
    ultimately show False using that assms by (simp add: fwd_ok_def)
  qed
  then show "copy (m(d + (n - 1) := m (s + (n - 1)))) d s (n - 1) a = copy m d s n a"
    using lt by (auto simp: copy_def a)
qed

lemma movsb_down:
  "fwd_ok s d n \<Longrightarrow> rep_movsb True m (d + (n - 1)) (s + (n - 1)) n = copy m d s n"
proof (induction "unat n" arbitrary: m n)
  case 0
  then have "n = 0" by (simp add: unat_eq_0)
  then show ?case by (simp add: rep_movsb.simps)
next
  case (Suc k)
  then have z: "n \<noteq> 0" by auto
  then have k: "k = unat (n - 1)" using Suc.hyps(2) by (simp add: unat_pred)
  have "fwd_ok s d (n - 1)"
    using fwd_ok_mono [OF Suc.prems, of "n - 1" 0] z by (simp add: word_le_nat_alt unat_minus_one)
  with Suc.hyps(1) [OF k] copy_step_down [OF z Suc.prems] z show ?case
    unfolding rep_movsb.simps [of True m _ _ n] by (simp add: algebra_simps)
qed

lemma memmove_copy:
  assumes "unat dest + unat n \<le> 2 ^ 32" and "unat src + unat n \<le> 2 ^ 32"
  shows "memmove m dest src n = copy m dest src n"
proof (cases "dest \<le> src")
  case True
  have "fwd_ok dest src n"
    using True assms by (auto simp: fwd_ok_def word_le_nat_alt unat_sub_if' word_unat_eq_iff)
  with True show ?thesis by (simp add: memmove_def movsb_up)
next
  case False
  have "fwd_ok src dest n"
    using False assms by (auto simp: fwd_ok_def word_le_nat_alt unat_sub_if')
  with False show ?thesis
    using movsb_down [of src dest n m] by (simp add: memmove_def add_diff_eq)
qed

subsection \<open>The copying contract\<close>

text \<open>
  What a client of a copying routine relies on: under the routine's own precondition every byte
  of the destination region is the byte the source region held before the call, and nothing
  else changes. Both \<open>memcpy\<close> and \<open>memmove\<close> provide it.
\<close>

locale copier =
  fixes cp :: "mem \<Rightarrow> u32 \<Rightarrow> u32 \<Rightarrow> u32 \<Rightarrow> mem"
    and ok :: "u32 \<Rightarrow> u32 \<Rightarrow> u32 \<Rightarrow> bool"
  assumes cp_copy: "ok d s n \<Longrightarrow> cp m d s n = copy m d s n"
begin

lemma cp_inside: "ok d s n \<Longrightarrow> x < n \<Longrightarrow> cp m d s n (d + x) = m (s + x)"
  by (simp add: cp_copy copy_def)

lemma cp_outside: "ok d s n \<Longrightarrow> \<not> a - d < n \<Longrightarrow> cp m d s n a = m a"
  by (simp add: cp_copy copy_def)

lemma cp_exact:
  "ok d s n \<Longrightarrow> (\<forall>x. x < n \<longrightarrow> cp m d s n (d + x) = m (s + x)) \<and>
     (\<forall>a. \<not> a - d < n \<longrightarrow> cp m d s n a = m a)"
  by (simp add: cp_inside cp_outside)

end

interpretation cpy: copier memcpy fwd_ok
  by unfold_locales (rule memcpy_copy)

interpretation mov: copier memmove "\<lambda>d s n. unat d + unat n \<le> 2 ^ 32 \<and> unat s + unat n \<le> 2 ^ 32"
  by unfold_locales (simp add: memmove_copy)

subsection \<open>Properties\<close>

text \<open>
  C32. \<open>memset\<close> writes the low byte of \<open>c\<close> to exactly the \<open>n\<close> bytes from \<open>s\<close>,
  for every alignment of \<open>s\<close> and every \<open>n\<close>, a region that wraps around the end of the
  address space included: the unaligned head, the \<open>rep stosl\<close> body and the tail add up to the
  plain fill.
\<close>

theorem memset_exact:
  "memset m s c n = (\<lambda>a. if a - s < n then ucast c else m a)"
  by (simp add: memset_fill fill_def)

text \<open>
  C34. \<open>memcpy\<close> copies exactly: when the destination does not start strictly inside the source
  region, each of the \<open>n\<close> destination bytes is the source byte before the call and no other
  byte of memory changes, whatever the alignments.
\<close>

theorem memcpy_exact:
  assumes "dest = src \<or> n \<le> dest - src"
  shows "(\<forall>x. x < n \<longrightarrow> memcpy m dest src n (dest + x) = m (src + x)) \<and>
    (\<forall>a. \<not> a - dest < n \<longrightarrow> memcpy m dest src n a = m a)"
  using cpy.cp_exact [of dest src n m] assms by (simp add: fwd_ok_def)

theorem memcpy_exact_witness:
  "memcpy (\<lambda>a. ucast a) 0x1001 0x2003 9 0x1005 = (0x07 :: u8) \<and>
   memcpy (\<lambda>a. ucast a) 0x1001 0x2003 9 0x100A = (0x0A :: u8)"
proof -
  have ok: "(0x1001 :: u32) = 0x2003 \<or> (9 :: u32) \<le> 0x1001 - 0x2003" by simp
  note ex = memcpy_exact [OF ok, of "\<lambda>a. ucast a"]
  show ?thesis
    using conjunct1 [OF ex, THEN spec, of 4] conjunct2 [OF ex, THEN spec, of "0x100A"] by simp
qed

text \<open>
  C35. \<open>memmove\<close> copies exactly even when the regions overlap, in either direction, as long as
  neither region wraps around the end of the address space.
\<close>

theorem memmove_exact:
  assumes "unat dest + unat n \<le> 2 ^ 32" and "unat src + unat n \<le> 2 ^ 32"
  shows "(\<forall>x. x < n \<longrightarrow> memmove m dest src n (dest + x) = m (src + x)) \<and>
    (\<forall>a. \<not> a - dest < n \<longrightarrow> memmove m dest src n a = m a)"
  using mov.cp_exact [of dest n src m] assms by simp

theorem memmove_exact_witness:
  "memmove (\<lambda>a. ucast a) 0x1002 0x1000 8 0x1009 = (0x07 :: u8)"
proof -
  have "unat (0x1002 :: u32) + unat (8 :: u32) \<le> 2 ^ 32"
    and "unat (0x1000 :: u32) + unat (8 :: u32) \<le> 2 ^ 32" by simp_all
  note ex = memmove_exact [OF this, of "\<lambda>a. ucast a"]
  show ?thesis using conjunct1 [OF ex, THEN spec, of 7] by simp
qed

end
