(* ===== verification/FileSystem.thy ===== *)
theory FileSystem
  imports LibString LibMem
begin

section \<open>The file-system image\<close>

text \<open>
  The part of \<open>src/student-distrib/file_system.c\<close> that reads the image the boot loader left
  in memory: \<open>file_system_init\<close>, \<open>read_dentry_by_index\<close>, \<open>read_dentry_by_name\<close>,
  \<open>read_data\<close>, \<open>get_file_size\<close> and \<open>get_num_dir_entries\<close>. Pointers into the
  image are addresses and every field of a structure is read from memory at its offset, so an
  index past an array reads whatever lies behind it, as the machine does. An out-parameter is
  the view of the caller's object before the call and, in the result, after it; the bytes that
  \<open>read_data\<close> stores into the caller's buffer are returned in the order they are stored.
  Every integer global of the C file is an \<open>int32_t\<close> loaded from an unsigned field: it is
  kept as its 32 bits and read signed or unsigned as the C expression does.
\<close>

subsection \<open>Layout\<close>

abbreviation (input) BLOCK_SIZE_BYTES :: u32 where "BLOCK_SIZE_BYTES \<equiv> 4096"
abbreviation (input) DIR_ENTRY_SIZE_BYTES :: u32 where "DIR_ENTRY_SIZE_BYTES \<equiv> 64"
abbreviation (input) FILE_NAME_SIZE :: u32 where "FILE_NAME_SIZE \<equiv> 32"

record fs_globals =
  file_system_addr :: u32
  boot_block :: u32
  dir_entries :: u32
  num_dir_entries :: u32
  inodes :: u32
  num_inodes :: u32
  data_blocks :: u32
  num_data_blocks :: u32

text \<open>\<open>boot_block_t\<close>: three counts, 52 reserved bytes, then the directory entries.\<close>

definition bb_num_dir_entries :: "mem \<Rightarrow> u32 \<Rightarrow> u32" where
  "bb_num_dir_entries m bb = u32_at m bb"

definition bb_num_inodes :: "mem \<Rightarrow> u32 \<Rightarrow> u32" where
  "bb_num_inodes m bb = u32_at m (bb + 4)"

definition bb_num_data_blocks :: "mem \<Rightarrow> u32 \<Rightarrow> u32" where
  "bb_num_data_blocks m bb = u32_at m (bb + 8)"

definition bb_dir_entries :: "u32 \<Rightarrow> u32" where
  "bb_dir_entries bb = bb + 64"

text \<open>\<open>dir_entry_t\<close>, as the view of its 64 bytes: the name, the type, the inode number.\<close>

definition de_file_name :: "view \<Rightarrow> view" where
  "de_file_name d = d"

definition de_file_type :: "view \<Rightarrow> u32" where
  "de_file_type d = view_u32 d 32"

definition de_inode_num :: "view \<Rightarrow> u32" where
  "de_inode_num d = view_u32 d 36"

text \<open>\<open>inode_t\<close>: the length, then the data block indices.\<close>

definition length_in_bytes :: "mem \<Rightarrow> u32 \<Rightarrow> u32" where
  "length_in_bytes m node = u32_at m node"

definition data_block_indices :: "mem \<Rightarrow> u32 \<Rightarrow> u32 \<Rightarrow> u32" where
  "data_block_indices m node i = u32_at m (node + 4 + 4 * i)"

definition inode_addr :: "fs_globals \<Rightarrow> u32 \<Rightarrow> u32" where
  "inode_addr fs i = inodes fs + BLOCK_SIZE_BYTES * i"

definition data_block_addr :: "mem \<Rightarrow> fs_globals \<Rightarrow> u32 \<Rightarrow> u32 \<Rightarrow> u32" where
  "data_block_addr m fs node idx =
     data_blocks fs + BLOCK_SIZE_BYTES * data_block_indices m node idx"

subsection \<open>Operations\<close>

definition file_system_init :: "mem \<Rightarrow> u32 \<Rightarrow> fs_globals" where
  "file_system_init m start =
     \<lparr>file_system_addr = start,
      boot_block = start,
      dir_entries = bb_dir_entries start,
      num_dir_entries = bb_num_dir_entries m start,
      inodes = start + BLOCK_SIZE_BYTES,
      num_inodes = bb_num_inodes m start,
      data_blocks = start + BLOCK_SIZE_BYTES * (bb_num_inodes m start + 1),
      num_data_blocks = bb_num_data_blocks m start\<rparr>"

text \<open>\<open>memcpy\<close> of a structure of \<open>n\<close> bytes from memory into the object seen as \<open>d\<close>.\<close>

definition load_struct :: "view \<Rightarrow> mem \<Rightarrow> u32 \<Rightarrow> int \<Rightarrow> view" where
  "load_struct d m src n = (\<lambda>i. if 0 \<le> i \<and> i < n then view_of m src i else d i)"

definition read_dentry_by_index :: "mem \<Rightarrow> fs_globals \<Rightarrow> u32 \<Rightarrow> view \<Rightarrow> int \<times> view" where
  "read_dentry_by_index m fs index dir_entry =
     (if index > num_dir_entries fs then (ERROR, dir_entry)
      else (0, load_struct dir_entry m (dir_entries fs + DIR_ENTRY_SIZE_BYTES * index) 64))"

function dentry_loop :: "mem \<Rightarrow> fs_globals \<Rightarrow> view \<Rightarrow> int \<Rightarrow> int" where
  "dentry_loop m fs fname i =
     (if i < sint (num_dir_entries fs) then
        if strncmp fname
             (view_of m (dir_entries fs + DIR_ENTRY_SIZE_BYTES * word_of_int i)) FILE_NAME_SIZE = 0
        then i else dentry_loop m fs fname (i + 1)
      else i)"
  by pat_completeness auto
termination
  by (relation "measure (\<lambda>(m, fs, fname, i). nat (sint (num_dir_entries fs) - i))") auto

definition read_dentry_by_name ::
    "mem \<Rightarrow> fs_globals \<Rightarrow> view \<Rightarrow> view \<Rightarrow> (int \<times> view) option" where
  "read_dentry_by_name m fs fname dir_entry =
     (case strlen fname of
        None \<Rightarrow> None
      | Some len \<Rightarrow>
          if sint len > 32 then Some (ERROR, dir_entry)
          else let i = dentry_loop m fs fname 0 in
            if sint (num_dir_entries fs) = i then Some (ERROR, dir_entry)
            else Some (0, load_struct dir_entry m
                            (dir_entries fs + DIR_ENTRY_SIZE_BYTES * word_of_int i) 64))"

function read_data_loop ::
    "mem \<Rightarrow> fs_globals \<Rightarrow> u32 \<Rightarrow> u32 \<Rightarrow> u32 \<Rightarrow> u32 \<Rightarrow> u32 \<Rightarrow> u32 \<Rightarrow> u32 \<Rightarrow> u32 \<times> u8 list" where
  "read_data_loop m fs curr_node len num_bytes_read file_seek
       data_block_idx data_block_offset data_addr =
     (if num_bytes_read < len then
        if file_seek \<ge> length_in_bytes m curr_node then (num_bytes_read, [])
        else
          let (idx, off, addr) =
                (if data_block_offset = BLOCK_SIZE_BYTES
                 then (data_block_idx + 1, 0, data_block_addr m fs curr_node (data_block_idx + 1))
                 else (data_block_idx, data_block_offset, data_addr));
              (n, stored) =
                read_data_loop m fs curr_node len (num_bytes_read + 1) (file_seek + 1)
                  idx (off + 1) (addr + 1)
          in (n, m addr # stored)
      else (num_bytes_read, []))"
  by pat_completeness auto
termination
  by (relation "measure (\<lambda>(m, fs, node, len, n, seek, idx, off, addr). unat len - unat n)")
    (auto simp: unat_Suc_less word_less_nat_alt)

definition read_data :: "mem \<Rightarrow> fs_globals \<Rightarrow> u32 \<Rightarrow> u32 \<Rightarrow> u32 \<Rightarrow> int \<times> u8 list" where
  "read_data m fs inode offset len =
     (if inode \<ge> num_inodes fs then (ERROR, [])
      else
        let curr_node = inode_addr fs inode;
            data_block_idx = offset div BLOCK_SIZE_BYTES;
            data_block_offset = offset mod BLOCK_SIZE_BYTES;
            data_addr = data_block_addr m fs curr_node data_block_idx + data_block_offset;
            (n, stored) = read_data_loop m fs curr_node len 0 offset
                            data_block_idx data_block_offset data_addr
        in (sint n, stored))"

definition get_file_size :: "mem \<Rightarrow> fs_globals \<Rightarrow> u32 \<Rightarrow> int" where
  "get_file_size m fs inode_idx = sint (length_in_bytes m (inode_addr fs inode_idx))"

definition get_num_dir_entries :: "fs_globals \<Rightarrow> int" where
  "get_num_dir_entries fs = sint (num_dir_entries fs)"

declare dentry_loop.simps [simp del] read_data_loop.simps [simp del]

subsection \<open>What a file contains\<close>

definition file_byte :: "mem \<Rightarrow> fs_globals \<Rightarrow> u32 \<Rightarrow> nat \<Rightarrow> u8" where
  "file_byte m fs node k =
     m (data_block_addr m fs node (of_nat (k div 4096)) + of_nat (k mod 4096))"

definition file_size :: "mem \<Rightarrow> fs_globals \<Rightarrow> u32 \<Rightarrow> nat" where
  "file_size m fs inode = unat (length_in_bytes m (inode_addr fs inode))"

definition file_contents :: "mem \<Rightarrow> fs_globals \<Rightarrow> u32 \<Rightarrow> u8 list" where
  "file_contents m fs inode =
     map (file_byte m fs (inode_addr fs inode)) [0..<file_size m fs inode]"

text \<open>The directory as names, and the first entry that has a name.\<close>

definition dentry_addr :: "fs_globals \<Rightarrow> nat \<Rightarrow> u32" where
  "dentry_addr fs i = dir_entries fs + 64 * of_nat i"

definition dentry_name :: "mem \<Rightarrow> fs_globals \<Rightarrow> nat \<Rightarrow> u8 list" where
  "dentry_name m fs i = cprefix 32 (view_of m (dentry_addr fs i))"

definition lookup :: "mem \<Rightarrow> fs_globals \<Rightarrow> u8 list \<Rightarrow> nat option" where
  "lookup m fs name =
     find (\<lambda>i. dentry_name m fs i = name) [0..<nat (sint (num_dir_entries fs))]"

subsection \<open>Reading\<close>

lemma read_data_loop_eq:
  assumes "unat off \<le> 4096" and "unat seek = unat idx * 4096 + unat off"
    and "addr = data_block_addr m fs node idx + off"
  shows "read_data_loop m fs node len num seek idx off addr =
    (num + of_nat (min (unat len - unat num) (unat (length_in_bytes m node) - unat seek)),
     map (file_byte m fs node)
       [unat seek ..< unat seek +
          min (unat len - unat num) (unat (length_in_bytes m node) - unat seek)])"
  using assms
proof (induction "unat len - unat num" arbitrary: num seek idx off addr)
  case 0
  then have "\<not> num < len" by (simp add: word_less_nat_alt)
  with 0 show ?case by (subst read_data_loop.simps) simp
next
  case (Suc d)
  let ?size = "length_in_bytes m node"
  from Suc.hyps(2) have less: "num < len" by (simp add: word_less_nat_alt)
  show ?case
  proof (cases "seek < ?size")
    case False
    with less show ?thesis
      by (subst read_data_loop.simps) (simp add: word_less_nat_alt word_le_nat_alt)
  next
    case True
    define idx' where "idx' = (if off = 4096 then idx + 1 else idx)"
    define off' where "off' = (if off = 4096 then 0 else off)"
    define addr' where "addr' = data_block_addr m fs node idx' + off'"
    have sz: "unat seek < 2 ^ 32" using unat_u32 [of seek] by simp
    have pos: "unat off' < 4096" "unat seek = unat idx' * 4096 + unat off'"
    proof -
      have "off = 4096 \<Longrightarrow> unat (idx + 1) = unat idx + 1"
        using Suc.prems(2) sz by (simp add: unat_word_ariths)
      moreover have "off \<noteq> 4096 \<Longrightarrow> unat off \<noteq> 4096"
        using word_unat_eq_iff [of off 4096] by simp
      ultimately show "unat off' < 4096" "unat seek = unat idx' * 4096 + unat off'"
        using Suc.prems(1,2) by (auto simp: idx'_def off'_def)
    qed
    have byte: "file_byte m fs node (unat seek) = m addr'"
      using pos by (simp add: file_byte_def addr'_def)
    have step: "read_data_loop m fs node len num seek idx off addr =
      (let (n, stored) = read_data_loop m fs node len (num + 1) (seek + 1) idx' (off' + 1) (addr' + 1)
       in (n, m addr' # stored))"
      using less True [folded linorder_not_le] Suc.prems(3) unfolding read_data_loop.simps [of m fs node len num]
      by (simp add: idx'_def off'_def addr'_def)
    have un: "unat (num + 1) = Suc (unat num)" "unat (seek + 1) = Suc (unat seek)"
      using less True by (auto intro: unat_Suc_less)
    have o1: "unat (off' + 1) = Suc (unat off')"
      using pos(1) by (simp add: unat_word_ariths)
    have "d = unat len - unat (num + 1)" using Suc.hyps(2) un by simp
    define c where "c = min (unat len - Suc (unat num)) (unat ?size - Suc (unat seek))"
    have "unat (off' + 1) \<le> 4096" "unat (seek + 1) = unat idx' * 4096 + unat (off' + 1)"
      "addr' + 1 = data_block_addr m fs node idx' + (off' + 1)"
      using pos un o1 by (simp_all add: addr'_def)
    note IH = Suc.hyps(1) [OF \<open>d = unat len - unat (num + 1)\<close> this, unfolded un, folded c_def]
    have "Suc (unat seek) \<le> unat ?size" using True by (simp add: word_less_nat_alt)
    moreover have "Suc (unat num) \<le> unat len" using less by (simp add: word_less_nat_alt)
    ultimately have "min (unat len - unat num) (unat ?size - unat seek) = Suc c"
      by (simp add: c_def)
    then show ?thesis
      unfolding step IH by (simp add: byte upt_conv_Cons del: upt_Suc)
  qed
qed

lemma file_contents_slice:
  "take n (drop k (file_contents m fs inode)) =
     map (file_byte m fs (inode_addr fs inode)) [k..<k + min n (file_size m fs inode - k)]"
  by (rule nth_equalityI) (auto simp: file_contents_def)

lemma read_data_eq:
  "inode < num_inodes fs \<Longrightarrow>
     read_data m fs inode offset len =
       (let bs = take (unat len) (drop (unat offset) (file_contents m fs inode))
        in (sint (of_nat (length bs) :: u32), bs))"
proof -
  assume "inode < num_inodes fs"
  moreover have "unat (offset mod 4096) \<le> 4096" "unat offset = unat (offset div 4096) * 4096 + unat (offset mod 4096)"
    by (simp_all add: unat_div_distrib unat_mod_distrib)
  note read_data_loop_eq [OF this refl]
  ultimately show ?thesis
    by (simp add: read_data_def file_contents_slice file_size_def Let_def not_le)
qed

subsection \<open>Directory look-up\<close>


lemma dentry_match:
  "strncmp fname (view_of m (dir_entries fs + 64 * of_nat i)) 32 = 0 \<longleftrightarrow>
     dentry_name m fs i = cprefix 32 fname"
  by (auto simp: strncmp_eq_0_iff dentry_name_def dentry_addr_def)

lemma dentry_loop_find:
  "int n = sint (num_dir_entries fs) \<Longrightarrow> i \<le> n \<Longrightarrow>
     dentry_loop m fs fname (int i) =
       int (case find (\<lambda>j. dentry_name m fs j = cprefix 32 fname) [i..<n] of
              None \<Rightarrow> n | Some j \<Rightarrow> j)"
proof (induction "n - i" arbitrary: i)
  case 0
  then show ?case by (subst dentry_loop.simps) simp
next
  case (Suc d)
  then have i: "i < n" "d = n - Suc i" by simp_all
  have "dentry_loop m fs fname (int (Suc i)) =
      int (case find (\<lambda>j. dentry_name m fs j = cprefix 32 fname) [Suc i..<n] of
             None \<Rightarrow> n | Some j \<Rightarrow> j)"
    using Suc.hyps(1) [of "Suc i"] Suc.prems i by simp
  then show ?case
    using i Suc.prems(1) unfolding dentry_loop.simps [of m fs fname "int i"]
    by (simp add: dentry_match upt_conv_Cons add.commute flip: Suc.prems(1))
qed

lemma find_upt_less: "find P [i..<n] = Some j \<Longrightarrow> j < n"
  by (auto simp: find_Some_iff)

lemma read_dentry_by_name_eq:
  assumes "is_cstr fname k" and "k < 2147483648" and "0 \<le> sint (num_dir_entries fs)"
  shows "read_dentry_by_name m fs fname d = Some (
    if 32 < k then (ERROR, d)
    else case lookup m fs (bytes fname k) of
           None \<Rightarrow> (ERROR, d)
         | Some i \<Rightarrow> (0, load_struct d m (dentry_addr fs i) 64))"
proof -
  let ?n = "nat (sint (num_dir_entries fs))"
  have len: "strlen fname = Some (of_nat k)" "sint (of_nat k :: u32) = int k"
    using assms(1,2) by (simp_all add: strlen_cstr sint_small wsimps)
  have "cprefix 32 fname = bytes fname k" if "k \<le> 32"
    using assms(1) that by (simp add: cprefix_cstr min_def)
  then have "dentry_loop m fs fname 0 =
      int (case lookup m fs (bytes fname k) of None \<Rightarrow> ?n | Some j \<Rightarrow> j)" if "k \<le> 32"
    using dentry_loop_find [of ?n fs 0 m fname] assms(3) that by (simp add: lookup_def)
  moreover have "lookup m fs (bytes fname k) = Some i \<Longrightarrow> i < ?n" for i
    by (simp add: lookup_def find_upt_less)
  ultimately show ?thesis
    using len assms(3)
    by (auto simp: read_dentry_by_name_def Let_def dentry_addr_def split: option.splits)
qed

subsection \<open>The contract of a file store\<close>

text \<open>
  What the rest of the kernel relies on when it reads a file: a read is a slice of the file's
  contents, and its count is the length of the slice.
\<close>

locale file_store =
  fixes valid :: "u32 \<Rightarrow> bool"
    and contents :: "u32 \<Rightarrow> u8 list"
    and rd :: "u32 \<Rightarrow> u32 \<Rightarrow> u32 \<Rightarrow> int \<times> u8 list"
  assumes rd_snd: "valid i \<Longrightarrow> snd (rd i off n) = take (unat n) (drop (unat off) (contents i))"
    and rd_fst: "valid i \<Longrightarrow> fst (rd i off n) = int (length (snd (rd i off n)))"
    and small: "valid i \<Longrightarrow> length (contents i) < 2 ^ 31"
begin

lemma rd_count: "valid i \<Longrightarrow> 0 \<le> fst (rd i off n) \<and> fst (rd i off n) \<le> int (unat n)"
  by (simp add: rd_fst rd_snd uint_nat del: of_nat_unat)

lemma rd_eof: "valid i \<Longrightarrow> fst (rd i off n) = 0 \<longleftrightarrow> n = 0 \<or> length (contents i) \<le> unat off"
  by (auto simp: rd_fst rd_snd min_def unat_eq_0 split: if_splits)

lemma rd_whole: "valid i \<Longrightarrow> length (contents i) \<le> unat n \<Longrightarrow> snd (rd i 0 n) = contents i"
  by (simp add: rd_snd)

text \<open>The position after a read, as the descriptor keeps it.\<close>

lemma rd_advance:
  assumes "valid i" and "unat off \<le> length (contents i)"
  shows "unat (off + word_of_int (fst (rd i off n))) =
    unat off + length (snd (rd i off n))"
    and "unat (off + word_of_int (fst (rd i off n))) \<le> length (contents i)"
proof -
  let ?k = "length (snd (rd i off n))"
  have le: "unat off + ?k \<le> length (contents i)"
    using assms by (simp add: rd_snd)
  then have "unat off + ?k < 2 ^ 32" using small [OF assms(1)] by simp
  then show "unat (off + word_of_int (fst (rd i off n))) = unat off + ?k"
    using rd_fst [OF assms(1), of off n] by (simp add: unat_word_ariths wsimps)
  with le show "unat (off + word_of_int (fst (rd i off n))) \<le> length (contents i)"
    by simp
qed

text \<open>Two reads in a row are one read of both lengths.\<close>

lemma rd_split:
  assumes "valid i" and "unat off \<le> length (contents i)" and "unat a + unat b < 2 ^ 32"
  shows "snd (rd i off a) @ snd (rd i (off + word_of_int (fst (rd i off a))) b) =
    snd (rd i off (a + b))"
proof -
  have "unat (a + b) = unat a + unat b" using assms(3) by (simp add: unat_word_ariths)
  moreover have "drop (unat off + length (take (unat a) (drop (unat off) (contents i)))) (contents i)
      = drop (unat a) (drop (unat off) (contents i))"
    by (cases "unat a \<le> length (contents i) - unat off") (auto simp: add.commute)
  ultimately show ?thesis
    using rd_advance(1) [OF assms(1,2), of a]
    by (simp only: rd_snd [OF assms(1)] take_add)
qed

end

interpretation fsimg: file_store
  "\<lambda>i. i < num_inodes fs \<and> file_size m fs i < 2 ^ 31" "file_contents m fs" "read_data m fs" for m fs
proof (unfold_locales, goal_cases)
  case (1 i off n)
  then show ?case by (simp add: read_data_eq Let_def)
next
  case (2 i off n)
  let ?k = "length (take (unat n) (drop (unat off) (file_contents m fs i)))"
  have "?k \<le> file_size m fs i" by (simp add: file_contents_def)
  with 2 have "?k < 2 ^ 31" by linarith
  then have "sint (of_nat ?k :: u32) = int ?k" by (simp add: sint_small wsimps del: length_take length_drop)
  with 2 show ?case by (simp add: read_data_eq Let_def)
next
  case (3 i)
  then show ?case by (simp add: file_contents_def)
qed

subsection \<open>Properties\<close>

text \<open>
  C2. \<open>read_data\<close> is a slice of the file: for an inode of the image it stores exactly the
  bytes of the file from \<open>offset\<close> on, at most \<open>len\<close> of them and none past the end of the
  file, across data-block borders, and returns their number; for any other inode it stores
  nothing and returns the error.
\<close>

theorem read_data_correct:
  "read_data m fs inode offset len =
     (if inode < num_inodes fs
      then let bs = take (unat len) (drop (unat offset) (file_contents m fs inode))
           in (sint (of_nat (length bs) :: u32), bs)
      else (ERROR, []))"
  by (simp add: read_data_eq) (simp add: read_data_def not_less)

text \<open>
  C37. Reading a file piece by piece, each read starting where the count of the last one leads,
  gives the same bytes as one read: this is how a program that calls \<open>read\<close> in a loop sees a
  file.
\<close>

theorem read_data_chunks:
  assumes "inode < num_inodes fs" and "file_size m fs inode < 2 ^ 31"
    and "unat off \<le> file_size m fs inode" and "unat a + unat b < 2 ^ 32"
  shows "snd (read_data m fs inode off a) @
      snd (read_data m fs inode (off + word_of_int (fst (read_data m fs inode off a))) b) =
    snd (read_data m fs inode off (a + b))"
  using assms by (intro fsimg.rd_split) (simp_all add: file_contents_def)

text \<open>A small image: one directory entry, one inode of 5 bytes, its data in block 1.\<close>

definition demo_mem :: mem where
  "demo_mem a =
     (if a < 64 then lit [CHR 0x01, CHR 0x00, CHR 0x00, CHR 0x00, CHR 0x01] (uint a)
      else if a < 4096 then lit ''frame0'' (uint (a - 64))
      else if a = 4096 then 5
      else if a = 4100 then 1
      else lit ''hello'' (uint (a - 12288)))"

definition demo_fs :: fs_globals where
  "demo_fs = file_system_init demo_mem 0"

theorem read_data_chunks_witness:
  "snd (read_data demo_mem demo_fs 0 1 2) @
     snd (read_data demo_mem demo_fs 0 (1 + word_of_int (fst (read_data demo_mem demo_fs 0 1 2))) 3) =
   snd (read_data demo_mem demo_fs 0 1 5)"
proof -
  have "file_size demo_mem demo_fs 0 = 5" "num_inodes demo_fs = 1" by code_simp+
  then show ?thesis using read_data_chunks [of 0 demo_fs demo_mem 1 2 3] by simp
qed

text \<open>
  C8. \<open>read_dentry_by_name\<close> finds the first directory entry whose name, cut at 32 bytes, is
  the given one and copies its 64 bytes; a name longer than 32 bytes or absent from the
  directory gives the error and leaves the caller's structure alone.
\<close>

theorem read_dentry_by_name_correct:
  assumes "is_cstr fname k" and "k < 2147483648" and "0 \<le> sint (num_dir_entries fs)"
  shows "read_dentry_by_name m fs fname d = Some (
    if 32 < k then (ERROR, d)
    else case lookup m fs (bytes fname k) of
           None \<Rightarrow> (ERROR, d)
         | Some i \<Rightarrow> (0, load_struct d m (dentry_addr fs i) 64))"
  by (rule read_dentry_by_name_eq [OF assms])

theorem read_dentry_by_name_correct_witness:
  "\<exists>d. read_dentry_by_name demo_mem demo_fs (lit ''frame0'') (\<lambda>_. 0) = Some (0, d) \<and>
     bytes d 6 = bytes (lit ''frame0'') 6"
proof -
  have "is_cstr (lit ''frame0'') 6" "0 \<le> sint (num_dir_entries demo_fs)"
    "lookup demo_mem demo_fs (bytes (lit ''frame0'') 6) = Some 0"
    "bytes (load_struct (\<lambda>_. 0) demo_mem (dentry_addr demo_fs 0) 64) 6 = bytes (lit ''frame0'') 6"
    by code_simp+
  then show ?thesis
    using read_dentry_by_name_correct [of "lit ''frame0''" 6 demo_fs demo_mem "\<lambda>_. 0"] by simp
qed

end
