(* ===== verification/KState.thy ===== *)
theory KState
  imports FileSystem
begin

section \<open>The state of the kernel\<close>

text \<open>
  The globals of \<open>src/student-distrib\<close>, grouped as the code declares them: the terminals of
  \<open>keyboard.h\<close>, the process control blocks of \<open>pcb.h\<close>, the page tables of
  \<open>paging.h\<close>, the descriptors of \<open>x86_desc.h\<close> and the variables of each C file. One
  record \<open>kernel\<close> holds them all, because most handlers touch several components.

  A C array is a function from its index: an index out of range reads or writes a value that no
  lemma speaks about, it does not fail. The process control blocks are kept apart from the
  bytes of physical memory, by their address. Addresses that the linker assigns are the field
  \<open>addr_of\<close>, which nothing changes.
\<close>

subsection \<open>Terminals\<close>

record terminal_state =
  typing :: view
  typed :: view
  buffer_updated :: int
  written_bytes :: int
  buf_len :: int
  screen_x_save :: int
  screen_y_save :: int
  prog_par_pid :: int
  prog_curr_pid :: int
  history :: view

subsection \<open>Processes\<close>

text \<open>The file operation tables of \<open>pcb.c\<close>, by name, and the null pointer.\<close>

datatype fot_ptr = NULL_fot | rtc_fot | file_fot | dir_fot | stdin_fot | stdout_fot

record fdt_entry =
  fot_ptr :: fot_ptr
  inode_idx :: u32
  file_position :: u32
  enabled :: bool
  is_data_file :: bool
  available :: "30 word"

record pcb =
  pcb_pid :: int
  par_pid :: int
  par_pcb_ptr :: u32
  fdt :: "int \<Rightarrow> fdt_entry"
  pcb_args :: view
  arg_len :: int
  par_esp :: u32
  par_ebp :: u32
  pcb_esp :: u32
  pcb_ebp :: u32
  prog_freq :: u32
  pcb_count :: u32
  divisor :: u32

subsection \<open>Paging\<close>

record page_dir_entry =
  pde_present :: bool
  pde_read_write :: bool
  pde_user_supervisor :: bool
  pde_write_through :: bool
  pde_cache_disabled :: bool
  pde_accessed :: bool
  pde_zero :: bool
  pde_page_size :: bool
  pde_ignored :: bool
  pde_available :: "3 word"
  pde_address :: "20 word"

record page_table_entry =
  pte_present :: bool
  pte_read_write :: bool
  pte_user_supervisor :: bool
  pte_write_through :: bool
  pte_cache_disabled :: bool
  pte_accessed :: bool
  pte_dirty :: bool
  pte_zero :: bool
  pte_global :: bool
  pte_available :: "3 word"
  pte_address :: "20 word"

record tables =
  page_directory :: "int \<Rightarrow> page_dir_entry"
  page_table :: "int \<Rightarrow> page_table_entry"
  vidmem_page_table :: "int \<Rightarrow> page_table_entry"

text \<open>The objects and handlers whose address the code takes.\<close>

datatype handler =
    DE_h | DB_h | NI_h | BP_h | OF_h | BR_h | UD_h | NM_h | DF_h | CP_h | TS_h | NP_h | SS_h
  | GP_h | PF_h | MF_h | AC_h | MC_h | XF_h | VE_h | SX_h
  | KB_wrapper | RT_wrapper | PT_wrapper | SYS_wrapper

datatype symbol =
  sym_page_directory | sym_page_table | sym_vidmem_page_table | sym_ldt | sym_tss | sym_handler handler

subsection \<open>Descriptors\<close>

record idt_desc =
  offset_15_00 :: u16
  seg_selector :: u16
  reserved4 :: u8
  reserved3 :: bool
  reserved2 :: bool
  reserved1 :: bool
  gate_size :: bool
  reserved0 :: bool
  gate_dpl :: "2 word"
  gate_present :: bool
  offset_31_16 :: u16

record seg_desc =
  seg_lim_15_00 :: u16
  base_15_00 :: u16
  base_23_16 :: u8
  seg_type :: "4 word"
  seg_sys :: bool
  seg_dpl :: "2 word"
  seg_present :: bool
  seg_lim_19_16 :: "4 word"
  seg_avail :: bool
  seg_reserved :: bool
  opsize :: bool
  granularity :: bool
  base_31_24 :: u8

text \<open>The task state segment; the kernel writes three of its fields.\<close>

record tss_t =
  prev_task_link :: u16
  prev_task_link_pad :: u16
  esp0 :: u32
  ss0 :: u16
  ss0_pad :: u16
  esp1 :: u32
  ss1 :: u16
  ss1_pad :: u16
  esp2 :: u32
  ss2 :: u16
  ss2_pad :: u16
  tss_cr3 :: u32
  tss_eip :: u32
  tss_eflags :: u32
  tss_eax :: u32
  tss_ecx :: u32
  tss_edx :: u32
  tss_ebx :: u32
  tss_esp :: u32
  tss_ebp :: u32
  tss_esi :: u32
  tss_edi :: u32
  tss_es :: u16
  es_pad :: u16
  tss_cs :: u16
  cs_pad :: u16
  tss_ss :: u16
  ss_pad :: u16
  tss_ds :: u16
  ds_pad :: u16
  tss_fs :: u16
  fs_pad :: u16
  tss_gs :: u16
  gs_pad :: u16
  ldt_segment_selector :: u16
  ldt_pad :: u16
  debug_trap :: bool
  io_pad :: "15 word"
  io_base_addr :: u16

subsection \<open>The whole state\<close>

text \<open>
  \<open>outs\<close> is the sequence of port writes, the latest first; \<open>if_flag\<close> is the interrupt
  flag of the processor; \<open>active\<close> is what the processor translates with: nothing before
  paging is enabled, and afterwards the tables as they were at the last TLB flush, so a table
  change that is not flushed is not seen. \<open>fresh\<close> is what an uninitialised local array holds;
  nothing changes it and no lemma assumes anything about it.
\<close>

record kernel =
  addr_of :: "symbol \<Rightarrow> u32"
  fresh :: view
  phys :: mem
  tabs :: tables
  active :: "tables option"
  outs :: "(u16 \<times> u8) list"
  if_flag :: bool
  esp :: u32
  ebp :: u32
  screen_x :: int
  screen_y :: int
  on_screen :: int
  terminals :: "int \<Rightarrow> terminal_state"
  curr_ter :: int
  curr_process :: int
  shift_pressed :: bool
  control_pressed :: bool
  caps_lock_on :: bool
  alt_pressed :: bool
  master_mask :: u8
  slave_mask :: u8
  higher_freq :: u32
  rtc_interrupt_flags :: "int \<Rightarrow> u32"
  pcbs :: "u32 \<Rightarrow> pcb"
  used_pids :: "int \<Rightarrow> int"
  fs :: fs_globals
  idt :: "int \<Rightarrow> idt_desc"
  ldt_desc_ptr :: seg_desc
  tss_desc_ptr :: seg_desc
  tss :: tss_t

subsection \<open>Ports, flags and updates\<close>

definition outb :: "u8 \<Rightarrow> u16 \<Rightarrow> kernel \<Rightarrow> kernel" where
  "outb d port k = k\<lparr>outs := (port, d) # outs k\<rparr>"

definition cli :: "kernel \<Rightarrow> kernel" where
  "cli k = k\<lparr>if_flag := False\<rparr>"

definition sti :: "kernel \<Rightarrow> kernel" where
  "sti k = k\<lparr>if_flag := True\<rparr>"

text \<open>\<open>cli_and_save\<close> gives the flags to restore together with the state with interrupts off.\<close>

definition cli_and_save :: "kernel \<Rightarrow> bool \<times> kernel" where
  "cli_and_save k = (if_flag k, cli k)"

definition restore_flags :: "bool \<Rightarrow> kernel \<Rightarrow> kernel" where
  "restore_flags flags k = k\<lparr>if_flag := flags\<rparr>"

definition upd_terminal :: "int \<Rightarrow> (terminal_state \<Rightarrow> terminal_state) \<Rightarrow> kernel \<Rightarrow> kernel" where
  "upd_terminal t f k = k\<lparr>terminals := (terminals k)(t := f (terminals k t))\<rparr>"

definition upd_pcb :: "u32 \<Rightarrow> (pcb \<Rightarrow> pcb) \<Rightarrow> kernel \<Rightarrow> kernel" where
  "upd_pcb p f k = k\<lparr>pcbs := (pcbs k)(p := f (pcbs k p))\<rparr>"

definition upd_fdt :: "int \<Rightarrow> (fdt_entry \<Rightarrow> fdt_entry) \<Rightarrow> pcb \<Rightarrow> pcb" where
  "upd_fdt i f p = p\<lparr>fdt := (fdt p)(i := f (fdt p i))\<rparr>"

subsection \<open>Address translation\<close>

text \<open>
  The walk of the page tables by the processor. A directory entry either maps a 4 MB page or
  names a page table by its frame; the kernel has two page tables. \<open>None\<close> is a page fault.
\<close>

definition table_at :: "(symbol \<Rightarrow> u32) \<Rightarrow> tables \<Rightarrow> 20 word \<Rightarrow> int \<Rightarrow> page_table_entry option" where
  "table_at A t frame i =
     (if frame = ucast (drop_bit 12 (A sym_page_table)) then Some (page_table t i)
      else if frame = ucast (drop_bit 12 (A sym_vidmem_page_table)) then Some (vidmem_page_table t i)
      else None)"

definition walk :: "(symbol \<Rightarrow> u32) \<Rightarrow> tables \<Rightarrow> u32 \<Rightarrow> u32 option" where
  "walk A t a =
     (let pde = page_directory t (uint (a div 0x400000)) in
      if \<not> pde_present pde then None
      else if pde_page_size pde
      then Some (0x400000 * (ucast (pde_address pde) div 1024) + a mod 0x400000)
      else case table_at A t (pde_address pde) (uint (a div 0x1000 mod 1024)) of
             None \<Rightarrow> None
           | Some pte \<Rightarrow>
               if pte_present pte then Some (0x1000 * ucast (pte_address pte) + a mod 0x1000)
               else None)"

text \<open>What a program may reach: every level of the walk must be a user entry.\<close>

definition user_walk :: "(symbol \<Rightarrow> u32) \<Rightarrow> tables \<Rightarrow> u32 \<Rightarrow> u32 option" where
  "user_walk A t a =
     (let pde = page_directory t (uint (a div 0x400000)) in
      if \<not> pde_user_supervisor pde then None
      else if pde_page_size pde then walk A t a
      else case table_at A t (pde_address pde) (uint (a div 0x1000 mod 1024)) of
             None \<Rightarrow> None
           | Some pte \<Rightarrow> if pte_user_supervisor pte then walk A t a else None)"

definition paddr :: "kernel \<Rightarrow> u32 \<Rightarrow> u32 option" where
  "paddr k a = (case active k of None \<Rightarrow> Some a | Some t \<Rightarrow> walk (addr_of k) t a)"

text \<open>
  A byte of the kernel's address space. An access that faults is no access: it reads zero and
  writes nothing. The fault itself is not modelled.
\<close>

definition vmem :: "kernel \<Rightarrow> mem" where
  "vmem k a = (case paddr k a of None \<Rightarrow> 0 | Some p \<Rightarrow> phys k p)"

definition vwrite :: "u32 \<Rightarrow> u8 \<Rightarrow> kernel \<Rightarrow> kernel" where
  "vwrite a b k = (case paddr k a of None \<Rightarrow> k | Some p \<Rightarrow> k\<lparr>phys := (phys k)(p := b)\<rparr>)"

text \<open>Bytes stored upwards from an address.\<close>

fun vstore :: "u32 \<Rightarrow> u8 list \<Rightarrow> kernel \<Rightarrow> kernel" where
  "vstore a [] k = k"
| "vstore a (b # bs) k = vstore (a + 1) bs (vwrite a b k)"

definition flush_TLB :: "kernel \<Rightarrow> kernel" where
  "flush_TLB k = (case active k of None \<Rightarrow> k | Some t \<Rightarrow> k\<lparr>active := Some (tabs k)\<rparr>)"

lemmas [kdefs] = outb_def cli_def sti_def cli_and_save_def restore_flags_def
  upd_terminal_def upd_pcb_def upd_fdt_def flush_TLB_def

subsection \<open>A page seen through its mapping\<close>

text \<open>The 4096 bytes from the virtual address \<open>va\<close> are those from the physical address \<open>pa\<close>.\<close>

definition maps_page :: "kernel \<Rightarrow> u32 \<Rightarrow> u32 \<Rightarrow> bool" where
  "maps_page k va pa \<longleftrightarrow> (\<forall>i<4096. paddr k (va + of_nat i) = Some (pa + of_nat i))"

text \<open>A physical memory with the page at \<open>pa\<close> replaced by the bytes \<open>v\<close>.\<close>

definition page_of :: "mem \<Rightarrow> u32 \<Rightarrow> nat \<Rightarrow> u8" where
  "page_of m pa i = m (pa + of_nat i)"

definition overlay :: "u32 \<Rightarrow> (nat \<Rightarrow> u8) \<Rightarrow> mem \<Rightarrow> mem" where
  "overlay pa v m p = (if p - pa < 4096 then v (unat (p - pa)) else m p)"

lemma page_of_overlay [simp]: "i < 4096 \<Longrightarrow> page_of (overlay pa v m) pa i = v i"
  by (simp add: page_of_def overlay_def word_less_nat_alt wsimps)

lemma overlay_self: "(\<And>i. i < 4096 \<Longrightarrow> v i = page_of m pa i) \<Longrightarrow> overlay pa v m = m"
  by (rule ext) (simp add: overlay_def page_of_def word_less_nat_alt)

lemma overlay_cong:
  "(\<And>i. i < 4096 \<Longrightarrow> v i = w i) \<Longrightarrow> overlay pa v m = overlay pa w m"
  by (rule ext) (simp add: overlay_def word_less_nat_alt)

lemma overlay_overlay [simp]: "overlay pa v (overlay pa w m) = overlay pa v m"
  by (rule ext) (simp add: overlay_def)

lemma overlay_upd: "i < 4096 \<Longrightarrow> (overlay pa v m)(pa + of_nat i := b) = overlay pa (v(i := b)) m"
proof (rule ext)
  fix p
  assume i: "i < 4096"
  have "p = pa + of_nat i \<longleftrightarrow> p - pa = of_nat i" by (auto simp: algebra_simps)
  also have "\<dots> \<longleftrightarrow> unat (p - pa) = i" using i by (auto simp: wsimps)
  finally have "p = pa + of_nat i \<longleftrightarrow> unat (p - pa) = i" .
  with i show "((overlay pa v m)(pa + of_nat i := b)) p = overlay pa (v(i := b)) m p"
    by (auto simp: overlay_def word_less_nat_alt)
qed

lemma paddr_phys [simp]: "paddr (k\<lparr>phys := m\<rparr>) = paddr k"
  by (cases "active k") (simp_all add: paddr_def fun_eq_iff)

lemma paddr_cong: "active k' = active k \<Longrightarrow> addr_of k' = addr_of k \<Longrightarrow> paddr k' = paddr k"
  by (rule ext) (cases "active k"; simp add: paddr_def)

lemma maps_page_cong:
  "active k' = active k \<Longrightarrow> addr_of k' = addr_of k \<Longrightarrow> maps_page k' = maps_page k"
  using paddr_cong [of k' k] by (simp add: maps_page_def fun_eq_iff)

lemma vwrite_page:
  "maps_page k va pa \<Longrightarrow> i < 4096 \<Longrightarrow>
     vwrite (va + of_nat i) b (k\<lparr>phys := overlay pa v m\<rparr>) = k\<lparr>phys := overlay pa (v(i := b)) m\<rparr>"
  by (simp add: vwrite_def maps_page_def overlay_upd)

lemma vmem_page: "maps_page k va pa \<Longrightarrow> i < 4096 \<Longrightarrow> vmem k (va + of_nat i) = page_of (phys k) pa i"
  by (simp add: vmem_def maps_page_def page_of_def)

subsection \<open>Interrupts during a busy wait\<close>

text \<open>
  An interrupt as the code it breaks into sees it: its wrapper saves the registers and the flags,
  the handler changes the state, and the wrapper restores what it saved. \<open>None\<close> is a handler
  that does not return.

  A busy wait takes the interrupts that arrive while it spins, in order; \<open>None\<close> is also a wait
  that is not over when they have all been served.
\<close>

type_synonym interrupt = "kernel \<Rightarrow> kernel option"

fun spin :: "(kernel \<Rightarrow> bool) \<Rightarrow> kernel \<Rightarrow> interrupt list \<Rightarrow> (kernel \<times> interrupt list) option" where
  "spin over k [] = (if over k then Some (k, []) else None)"
| "spin over k (h # hs) =
     (if over k then Some (k, h # hs)
      else case h k of None \<Rightarrow> None | Some k' \<Rightarrow> spin over k' hs)"

lemma spin_shorter: "spin over k hs = Some (k', hs') \<Longrightarrow> length hs' \<le> length hs"
  by (induction over k hs rule: spin.induct) (auto split: if_splits option.splits)

lemma spin_strict: "\<not> over k \<Longrightarrow> spin over k hs = Some (k', hs') \<Longrightarrow> length hs' < length hs"
  by (cases hs) (auto dest: spin_shorter split: option.splits)

lemma spin_over: "spin over k hs = Some (k', hs') \<Longrightarrow> over k'"
  by (induction over k hs rule: spin.induct) (auto split: if_splits option.splits)

lemma spin_now [simp]: "over k \<Longrightarrow> spin over k hs = Some (k, hs)"
  by (cases hs) simp_all

subsection \<open>The state at boot\<close>

text \<open>
  The state as the boot loader leaves it, for one link map: the globals are the zeroes of the BSS
  segment and their initialisers, paging is off, and memory holds the file-system image
  \<open>demo_mem\<close> moved to 6 MB.
\<close>

definition zero_pde :: page_dir_entry where
  "zero_pde = \<lparr>pde_present = False, pde_read_write = False, pde_user_supervisor = False,
     pde_write_through = False, pde_cache_disabled = False, pde_accessed = False, pde_zero = False,
     pde_page_size = False, pde_ignored = False, pde_available = 0, pde_address = 0\<rparr>"

definition zero_pte :: page_table_entry where
  "zero_pte = \<lparr>pte_present = False, pte_read_write = False, pte_user_supervisor = False,
     pte_write_through = False, pte_cache_disabled = False, pte_accessed = False, pte_dirty = False,
     pte_zero = False, pte_global = False, pte_available = 0, pte_address = 0\<rparr>"

definition boot_tables :: tables where
  "boot_tables = \<lparr>page_directory = (\<lambda>_. zero_pde), page_table = (\<lambda>_. zero_pte),
     vidmem_page_table = (\<lambda>_. zero_pte)\<rparr>"

definition link_map :: "symbol \<Rightarrow> u32" where
  "link_map s = (case s of sym_page_directory \<Rightarrow> 0x500000 | sym_page_table \<Rightarrow> 0x501000
     | sym_vidmem_page_table \<Rightarrow> 0x502000 | _ \<Rightarrow> 0x510000)"

definition zero_terminal :: terminal_state where
  "zero_terminal = \<lparr>typing = (\<lambda>_. 0), typed = (\<lambda>_. 0), buffer_updated = 0, written_bytes = 0,
     buf_len = 0, screen_x_save = 0, screen_y_save = 0, prog_par_pid = 0, prog_curr_pid = 0,
     history = (\<lambda>_. 0)\<rparr>"

definition zero_fdt_entry :: fdt_entry where
  "zero_fdt_entry = \<lparr>fot_ptr = NULL_fot, inode_idx = 0, file_position = 0, enabled = False,
     is_data_file = False, available = 0\<rparr>"

definition zero_pcb :: pcb where
  "zero_pcb = \<lparr>pcb_pid = 0, par_pid = 0, par_pcb_ptr = 0, fdt = (\<lambda>_. zero_fdt_entry),
     pcb_args = (\<lambda>_. 0), arg_len = 0, par_esp = 0, par_ebp = 0, pcb_esp = 0, pcb_ebp = 0,
     prog_freq = 0, pcb_count = 0, divisor = 0\<rparr>"

definition zero_idt_desc :: idt_desc where
  "zero_idt_desc = \<lparr>offset_15_00 = 0, seg_selector = 0, reserved4 = 0, reserved3 = False,
     reserved2 = False, reserved1 = False, gate_size = False, reserved0 = False, gate_dpl = 0,
     gate_present = False, offset_31_16 = 0\<rparr>"

definition zero_tss :: tss_t where
  "zero_tss = \<lparr>prev_task_link = 0, prev_task_link_pad = 0, esp0 = 0, ss0 = 0, ss0_pad = 0, esp1 = 0,
     ss1 = 0, ss1_pad = 0, esp2 = 0, ss2 = 0, ss2_pad = 0, tss_cr3 = 0, tss_eip = 0,
     tss_eflags = 0, tss_eax = 0, tss_ecx = 0, tss_edx = 0, tss_ebx = 0, tss_esp = 0,
     tss_ebp = 0, tss_esi = 0, tss_edi = 0, tss_es = 0, es_pad = 0, tss_cs = 0, cs_pad = 0,
     tss_ss = 0, ss_pad = 0, tss_ds = 0, ds_pad = 0, tss_fs = 0, fs_pad = 0, tss_gs = 0,
     gs_pad = 0, ldt_segment_selector = 0, ldt_pad = 0, debug_trap = False, io_pad = 0,
     io_base_addr = 0\<rparr>"

definition zero_seg_desc :: seg_desc where
  "zero_seg_desc = \<lparr>seg_lim_15_00 = 0, base_15_00 = 0, base_23_16 = 0, seg_type = 0,
     seg_sys = False, seg_dpl = 0, seg_present = False, seg_lim_19_16 = 0, seg_avail = False,
     seg_reserved = False, opsize = False, granularity = False, base_31_24 = 0\<rparr>"

definition boot_kernel :: kernel where
  "boot_kernel = \<lparr>addr_of = link_map, fresh = (\<lambda>_. 0), phys = (\<lambda>a. demo_mem (a - 0x600000)),
     tabs = boot_tables, active = None, outs = [], if_flag = False, esp = 0x7FFF00, ebp = 0x7FFF00,
     screen_x = 0, screen_y = 0, on_screen = 0, terminals = (\<lambda>_. zero_terminal), curr_ter = 0,
     curr_process = 0, shift_pressed = False, control_pressed = False, caps_lock_on = False,
     alt_pressed = False, master_mask = 0, slave_mask = 0, higher_freq = 2,
     rtc_interrupt_flags = (\<lambda>_. 0), pcbs = (\<lambda>_. zero_pcb), used_pids = (\<lambda>_. 0),
     fs = file_system_init (\<lambda>a. demo_mem (a - 0x600000)) 0x600000, idt = (\<lambda>_. zero_idt_desc),
     ldt_desc_ptr = zero_seg_desc, tss_desc_ptr = zero_seg_desc,
     tss = zero_tss\<rparr>"

end
