(* ===== verification/Pic.thy ===== *)
theory Pic
  imports KState
begin

section \<open>The interrupt controller driver\<close>

text \<open>
  \<open>i8259_init\<close>, \<open>enable_irq\<close>, \<open>disable_irq\<close> and \<open>send_eoi\<close> of
  \<open>src/student-distrib/i8259.c\<close>. The driver is checked against the documented command
  interface of the 8259A: \<open>pic_write\<close> is what one chip does with a byte written to one of its
  two ports, and \<open>pic_replay\<close> runs it over the port writes of the kernel.
\<close>

subsection \<open>The driver\<close>

abbreviation (input) MASTER_PIC_CMD :: u16 where "MASTER_PIC_CMD \<equiv> 0x20"
abbreviation (input) MASTER_PIC_DATA :: u16 where "MASTER_PIC_DATA \<equiv> 0x21"
abbreviation (input) SLAVE_PIC_CMD :: u16 where "SLAVE_PIC_CMD \<equiv> 0xA0"
abbreviation (input) SLAVE_PIC_DATA :: u16 where "SLAVE_PIC_DATA \<equiv> 0xA1"
abbreviation (input) EOI :: u8 where "EOI \<equiv> 0x60"
abbreviation (input) ICW1 :: u8 where "ICW1 \<equiv> 0x11"
abbreviation (input) ICW2_MASTER :: u8 where "ICW2_MASTER \<equiv> 0x20"
abbreviation (input) ICW2_SLAVE :: u8 where "ICW2_SLAVE \<equiv> 0x28"
abbreviation (input) ICW3_MASTER :: u8 where "ICW3_MASTER \<equiv> 0x04"
abbreviation (input) ICW3_SLAVE :: u8 where "ICW3_SLAVE \<equiv> 0x02"
abbreviation (input) ICW4 :: u8 where "ICW4 \<equiv> 0x01"
abbreviation (input) MASTER_INIT_MASK :: u8 where "MASTER_INIT_MASK \<equiv> 0xFB"
abbreviation (input) SLAVE_INIT_MASK :: u8 where "SLAVE_INIT_MASK \<equiv> 0xFF"
abbreviation (input) INTR_MASK :: u8 where "INTR_MASK \<equiv> 0xFF"
abbreviation (input) SLAVE_ON_MASTER :: u8 where "SLAVE_ON_MASTER \<equiv> 0x02"
abbreviation (input) MAX_IRQ :: u32 where "MAX_IRQ \<equiv> 15"
abbreviation (input) PIC_MAX_IRQ :: u32 where "PIC_MAX_IRQ \<equiv> 8"

definition i8259_init :: "kernel \<Rightarrow> kernel" where
  "i8259_init k0 =
     (let k1 = outb INTR_MASK SLAVE_PIC_DATA (outb INTR_MASK MASTER_PIC_DATA k0);
          k2 = outb ICW1 SLAVE_PIC_CMD (outb ICW1 MASTER_PIC_CMD k1);
          k3 = outb ICW2_SLAVE SLAVE_PIC_DATA (outb ICW2_MASTER MASTER_PIC_DATA k2);
          k4 = outb ICW3_SLAVE SLAVE_PIC_DATA (outb ICW3_MASTER MASTER_PIC_DATA k3);
          k5 = outb ICW4 SLAVE_PIC_DATA (outb ICW4 MASTER_PIC_DATA k4);
          k6 = outb SLAVE_INIT_MASK SLAVE_PIC_DATA (outb MASTER_INIT_MASK MASTER_PIC_DATA k5)
      in k6\<lparr>master_mask := MASTER_INIT_MASK, slave_mask := SLAVE_INIT_MASK\<rparr>)"

definition enable_irq :: "u32 \<Rightarrow> kernel \<Rightarrow> kernel" where
  "enable_irq irq_num k =
     (if irq_num > MAX_IRQ then k
      else if irq_num < PIC_MAX_IRQ then
        let mask = NOT (push_bit (unat irq_num) 1);
            k' = k\<lparr>master_mask := master_mask k AND mask\<rparr>
        in outb (master_mask k') MASTER_PIC_DATA k'
      else
        let mask = NOT (push_bit (unat (irq_num - PIC_MAX_IRQ)) 1);
            k' = k\<lparr>slave_mask := slave_mask k AND mask\<rparr>
        in outb (slave_mask k') SLAVE_PIC_DATA k')"

definition disable_irq :: "u32 \<Rightarrow> kernel \<Rightarrow> kernel" where
  "disable_irq irq_num k =
     (if irq_num > MAX_IRQ then k
      else if irq_num < PIC_MAX_IRQ then
        let mask = push_bit (unat irq_num) 1;
            k' = k\<lparr>master_mask := master_mask k OR mask\<rparr>
        in outb (master_mask k') MASTER_PIC_DATA k'
      else
        let mask = push_bit (unat (irq_num - PIC_MAX_IRQ)) 1;
            k' = k\<lparr>slave_mask := slave_mask k OR mask\<rparr>
        in outb (slave_mask k') SLAVE_PIC_DATA k')"

definition send_eoi :: "u32 \<Rightarrow> kernel \<Rightarrow> kernel" where
  "send_eoi irq_num k =
     (if irq_num > MAX_IRQ then k
      else if irq_num < PIC_MAX_IRQ then outb (ucast irq_num OR EOI) MASTER_PIC_CMD k
      else outb (SLAVE_ON_MASTER OR EOI) MASTER_PIC_CMD
             (outb (ucast (irq_num - PIC_MAX_IRQ) OR EOI) SLAVE_PIC_CMD k))"

subsection \<open>The 8259A as documented\<close>

text \<open>
  \<open>stage\<close> counts the initialisation words still to come on the data port after an ICW1 on the
  command port: ICW2, ICW3, ICW4. Outside initialisation the data port is the interrupt mask;
  on the command port \<open>011\<close> in the top bits is a specific end of interrupt.
\<close>

record i8259 =
  imr :: u8
  isr :: u8
  base :: u8
  cascade :: u8
  icw4 :: u8
  stage :: nat

definition pic_write :: "u16 \<Rightarrow> u16 \<times> u8 \<Rightarrow> i8259 \<Rightarrow> i8259" where
  "pic_write cmd w d =
     (let (port, v) = w in
      if port = cmd then
        if bit v 4 then d\<lparr>imr := 0, stage := 3\<rparr>
        else if v AND 0xE0 = 0x60
        then d\<lparr>isr := isr d AND NOT (push_bit (unat (v AND 7)) 1)\<rparr>
        else d
      else if port = cmd + 1 then
        if stage d = 3 then d\<lparr>base := v, stage := 2\<rparr>
        else if stage d = 2 then d\<lparr>cascade := v, stage := 1\<rparr>
        else if stage d = 1 then d\<lparr>icw4 := v, stage := 0\<rparr>
        else d\<lparr>imr := v\<rparr>
      else d)"

fun pic_replay :: "u16 \<Rightarrow> (u16 \<times> u8) list \<Rightarrow> i8259 \<Rightarrow> i8259" where
  "pic_replay cmd [] d = d"
| "pic_replay cmd (w # ws) d = pic_write cmd w (pic_replay cmd ws d)"

text \<open>Both chips are initialised and hold the masks that the kernel believes they hold.\<close>

definition pic_sync :: "i8259 \<Rightarrow> i8259 \<Rightarrow> kernel \<Rightarrow> bool" where
  "pic_sync m0 s0 k \<longleftrightarrow>
     (let m = pic_replay MASTER_PIC_CMD (outs k) m0; s = pic_replay SLAVE_PIC_CMD (outs k) s0
      in stage m = 0 \<and> stage s = 0 \<and> imr m = master_mask k \<and> imr s = slave_mask k)"

text \<open>Line \<open>n\<close> is masked, as the kernel's copy of the masks has it.\<close>

definition irq_masked :: "nat \<Rightarrow> kernel \<Rightarrow> bool" where
  "irq_masked n k = (if n < 8 then bit (master_mask k) n else bit (slave_mask k) (n - 8))"

subsection \<open>Masks\<close>

text \<open>What a client of the controller may rely on.\<close>

locale irq_controller =
  fixes enable disable :: "u32 \<Rightarrow> 'k \<Rightarrow> 'k"
    and masked :: "nat \<Rightarrow> 'k \<Rightarrow> bool"
  assumes masked_enable: "unat n < 16 \<Longrightarrow> i < 16 \<Longrightarrow> masked i (enable n k) \<longleftrightarrow> masked i k \<and> i \<noteq> unat n"
    and masked_disable: "unat n < 16 \<Longrightarrow> i < 16 \<Longrightarrow> masked i (disable n k) \<longleftrightarrow> masked i k \<or> i = unat n"
begin

lemma enable_disable:
  "unat n < 16 \<Longrightarrow> i < 16 \<Longrightarrow> masked i (enable n (disable n k)) \<longleftrightarrow> masked i (enable n k)"
  by (auto simp: masked_enable masked_disable)

lemma masked_gate:
  "unat n < 16 \<Longrightarrow> i < 16 \<Longrightarrow>
     masked i ((if c then enable n else id) (disable n k)) \<longleftrightarrow>
       (if i = unat n then \<not> c else masked i k)"
  by (auto simp: masked_enable masked_disable)

end

lemma irq_masked_enable:
  assumes "unat n < 16" and "i < 16"
  shows "irq_masked i (enable_irq n k) \<longleftrightarrow> irq_masked i k \<and> i \<noteq> unat n"
proof (cases "unat n < 8")
  case True
  then show ?thesis
    by (auto simp: irq_masked_def enable_irq_def outb_def word_less_nat_alt Let_def bit_simps)
next
  case False
  then have "unat (n - 8) = unat n - 8" by (simp add: unat_sub_if')
  with False assms show ?thesis
    by (auto simp: irq_masked_def enable_irq_def outb_def word_less_nat_alt Let_def bit_simps)
qed

lemma irq_masked_disable:
  assumes "unat n < 16" and "i < 16"
  shows "irq_masked i (disable_irq n k) \<longleftrightarrow> irq_masked i k \<or> i = unat n"
proof (cases "unat n < 8")
  case True
  then show ?thesis
    by (auto simp: irq_masked_def disable_irq_def outb_def word_less_nat_alt Let_def bit_simps)
next
  case False
  then have "unat (n - 8) = unat n - 8" by (simp add: unat_sub_if')
  with False assms show ?thesis
    by (auto simp: irq_masked_def disable_irq_def outb_def word_less_nat_alt Let_def bit_simps)
qed

interpretation pic: irq_controller enable_irq disable_irq irq_masked
  by unfold_locales (rule irq_masked_enable irq_masked_disable; assumption)+

subsection \<open>The chips follow the driver\<close>

lemma pic_write_other [simp]:
  "port \<noteq> cmd \<Longrightarrow> port \<noteq> cmd + 1 \<Longrightarrow> pic_write cmd (port, v) d = d"
  by (simp add: pic_write_def)

lemma pic_sync_other:
  "port \<notin> {0x20, 0x21, 0xA0, 0xA1} \<Longrightarrow> pic_sync m0 s0 (outb v port k) = pic_sync m0 s0 k"
  by (simp add: pic_sync_def outb_def)

lemma pic_sync_init: "pic_sync m0 s0 (i8259_init k)"
  by (simp add: pic_sync_def i8259_init_def outb_def pic_write_def Let_def)

lemma pic_sync_enable: "pic_sync m0 s0 k \<Longrightarrow> pic_sync m0 s0 (enable_irq n k)"
  by (simp add: pic_sync_def enable_irq_def outb_def pic_write_def Let_def)

lemma pic_sync_disable: "pic_sync m0 s0 k \<Longrightarrow> pic_sync m0 s0 (disable_irq n k)"
  by (simp add: pic_sync_def disable_irq_def outb_def pic_write_def Let_def)

lemma eoi_bits:
  assumes "unat n < 8"
  shows "\<not> bit (ucast n OR EOI) 4" and "(ucast n OR EOI) AND 0xE0 = 0x60"
    and "unat ((ucast n OR EOI) AND 7) = unat (n :: u32)"
proof -
  have "\<forall>i < 8. \<not> bit (of_nat i OR EOI) 4 \<and> (of_nat i OR EOI) AND 0xE0 = 0x60 \<and>
      unat ((of_nat i OR EOI) AND 7) = i"
    by code_simp
  moreover have "(ucast n :: u8) = of_nat (unat n)" by simp
  ultimately show "\<not> bit (ucast n OR EOI) 4" and "(ucast n OR EOI) AND 0xE0 = 0x60"
    and "unat ((ucast n OR EOI) AND 7) = unat n"
    using assms by metis+
qed

lemma pic_write_eoi:
  "unat n < 8 \<Longrightarrow> pic_write cmd (cmd, ucast (n :: u32) OR EOI) d =
     d\<lparr>isr := isr d AND NOT (push_bit (unat n) 1)\<rparr>"
  by (simp add: pic_write_def eoi_bits)

lemma send_eoi_replay:
  assumes "unat n < 16"
  shows "pic_replay MASTER_PIC_CMD (outs (send_eoi n k)) m0 =
      (let m = pic_replay MASTER_PIC_CMD (outs k) m0
       in m\<lparr>isr := isr m AND NOT (push_bit (if unat n < 8 then unat n else 2) 1)\<rparr>)"
    and "pic_replay SLAVE_PIC_CMD (outs (send_eoi n k)) s0 =
      (let s = pic_replay SLAVE_PIC_CMD (outs k) s0
       in if unat n < 8 then s else s\<lparr>isr := isr s AND NOT (push_bit (unat n - 8) 1)\<rparr>)"
proof -
  have two: "pic_write 0x20 (0x20, 0x62) d = d\<lparr>isr := isr d AND NOT (push_bit 2 1)\<rparr>" for d
    by (simp add: pic_write_def)
  have "unat (n - 8) = unat n - 8" if "8 \<le> unat n" using that by (simp add: unat_sub_if')
  then show "pic_replay MASTER_PIC_CMD (outs (send_eoi n k)) m0 =
      (let m = pic_replay MASTER_PIC_CMD (outs k) m0
       in m\<lparr>isr := isr m AND NOT (push_bit (if unat n < 8 then unat n else 2) 1)\<rparr>)"
    and "pic_replay SLAVE_PIC_CMD (outs (send_eoi n k)) s0 =
      (let s = pic_replay SLAVE_PIC_CMD (outs k) s0
       in if unat n < 8 then s else s\<lparr>isr := isr s AND NOT (push_bit (unat n - 8) 1)\<rparr>)"
    using assms
    by (auto simp: send_eoi_def outb_def word_less_nat_alt Let_def two pic_write_eoi)
qed

lemma pic_sync_eoi: "pic_sync m0 s0 k \<Longrightarrow> pic_sync m0 s0 (send_eoi n k)"
proof (cases "unat n < 16")
  case True
  assume "pic_sync m0 s0 k"
  moreover have "master_mask (send_eoi n k) = master_mask k" "slave_mask (send_eoi n k) = slave_mask k"
    by (simp_all add: send_eoi_def outb_def)
  ultimately show ?thesis
    using True by (simp add: pic_sync_def send_eoi_replay Let_def)
next
  case False
  assume "pic_sync m0 s0 k"
  with False show ?thesis by (simp add: send_eoi_def word_less_nat_alt)
qed

datatype pic_call = Enable u32 | Disable u32 | Eoi u32

fun run_pic :: "pic_call \<Rightarrow> kernel \<Rightarrow> kernel" where
  "run_pic (Enable n) k = enable_irq n k"
| "run_pic (Disable n) k = disable_irq n k"
| "run_pic (Eoi n) k = send_eoi n k"

lemma pic_sync_run: "pic_sync m0 s0 k \<Longrightarrow> pic_sync m0 s0 (fold run_pic cs k)"
proof (induction cs arbitrary: k)
  case (Cons c cs)
  then show ?case
    by (cases c) (simp_all add: pic_sync_enable pic_sync_disable pic_sync_eoi)
qed simp

subsection \<open>Properties\<close>

text \<open>
  C38. The driver and the two chips never disagree: from any state of the chips, after
  \<open>i8259_init\<close> and then any sequence of \<open>enable_irq\<close>, \<open>disable_irq\<close> and
  \<open>send_eoi\<close>, both chips are out of initialisation and their interrupt mask registers hold
  the kernel's \<open>master_mask\<close> and \<open>slave_mask\<close>.
\<close>

theorem pic_masks_mirrored: "pic_sync m0 s0 (fold run_pic calls (i8259_init k))"
  by (rule pic_sync_run [OF pic_sync_init])

text \<open>
  \<open>i8259_init\<close> programs the chips: the master delivers its eight lines at vectors from
  0x20 with a slave on line 2, the slave delivers from 0x28 with identity 2, and every line but
  the cascade is masked.
\<close>

theorem i8259_init_programs:
  "let m = pic_replay 0x20 (outs (i8259_init k)) m0; s = pic_replay 0xA0 (outs (i8259_init k)) s0
   in base m = 0x20 \<and> cascade m = push_bit 2 1 \<and> base s = 0x28 \<and> cascade s = 2 \<and>
      (\<forall>n. irq_masked n (i8259_init k) \<longleftrightarrow> n < 16 \<and> n \<noteq> 2)"
proof -
  have "\<forall>n < 8. bit (0xFB :: u8) n \<longleftrightarrow> n \<noteq> 2" "\<forall>n < 8. bit (0xFF :: u8) n" by code_simp+
  moreover have "bit (w :: u8) n \<Longrightarrow> n < 8" for w n by (auto dest: bit_imp_le_length)
  ultimately have "irq_masked n (i8259_init k) \<longleftrightarrow> n < 16 \<and> n \<noteq> 2" for n
    by (auto simp: irq_masked_def i8259_init_def Let_def less_diff_conv2 split: if_splits)
  then show ?thesis
    by (simp add: i8259_init_def outb_def pic_write_def Let_def)
qed

text \<open>
  \<open>send_eoi\<close> ends exactly the interrupt it is given: on the master it clears the
  in-service bit of the line, and for a line of the slave it clears the line on the slave and
  the cascade on the master; every other in-service bit stays.
\<close>

theorem send_eoi_exact:
  assumes "unat n < 16"
  shows "(bit (isr (pic_replay 0x20 (outs (send_eoi n k)) m0)) i \<longleftrightarrow>
      bit (isr (pic_replay 0x20 (outs k) m0)) i \<and> i \<noteq> (if unat n < 8 then unat n else 2)) \<and>
    (bit (isr (pic_replay 0xA0 (outs (send_eoi n k)) s0)) i \<longleftrightarrow>
      bit (isr (pic_replay 0xA0 (outs k) s0)) i \<and> \<not> (8 \<le> unat n \<and> i = unat n - 8))"
  using assms by (auto simp: send_eoi_replay Let_def bit_simps dest: bit_imp_le_length)

theorem send_eoi_exact_witness:
  "\<forall>k m0. bit (isr (pic_replay 0x20 (outs (send_eoi 8 k)) m0)) 5 \<longleftrightarrow>
     bit (isr (pic_replay 0x20 (outs k) m0)) 5"
  using send_eoi_exact [of 8 _ _ 5] by simp

end
