(* ===== verification/Paging.thy ===== *)
theory Paging
  imports KState
begin

section \<open>Paging\<close>

text \<open>
  \<open>init_paging\<close>, \<open>enable_program_page\<close>, \<open>change_vidmem\<close> and \<open>get_vidmem\<close> of
  \<open>src/student-distrib/paging.c\<close>, and what they make of the address space: the translation
  of every address, what a program may reach, and that two programs reach disjoint memory.
\<close>

subsection \<open>Operations\<close>

abbreviation (input) VIDEO :: u32 where "VIDEO \<equiv> 0xB8000"
abbreviation (input) USER_PROGRAM_PD_IDX :: int where "USER_PROGRAM_PD_IDX \<equiv> 32"
abbreviation (input) DIR_SIZE :: nat where "DIR_SIZE \<equiv> 1024"
abbreviation (input) KERNEL_MEM_START :: u32 where "KERNEL_MEM_START \<equiv> 0x400000"
abbreviation (input) ALIGN_SIZE :: nat where "ALIGN_SIZE \<equiv> 12"

definition upd_pde :: "int \<Rightarrow> (page_dir_entry \<Rightarrow> page_dir_entry) \<Rightarrow> tables \<Rightarrow> tables" where
  "upd_pde i f t = t\<lparr>page_directory := (page_directory t)(i := f (page_directory t i))\<rparr>"

definition upd_pte :: "int \<Rightarrow> (page_table_entry \<Rightarrow> page_table_entry) \<Rightarrow> tables \<Rightarrow> tables" where
  "upd_pte i f t = t\<lparr>page_table := (page_table t)(i := f (page_table t i))\<rparr>"

definition upd_vpte :: "int \<Rightarrow> (page_table_entry \<Rightarrow> page_table_entry) \<Rightarrow> tables \<Rightarrow> tables" where
  "upd_vpte i f t = t\<lparr>vidmem_page_table := (vidmem_page_table t)(i := f (vidmem_page_table t i))\<rparr>"

text \<open>\<open>enable_paging\<close>: CR3 is loaded and translation starts with the tables as they are.\<close>

definition enable_paging :: "kernel \<Rightarrow> kernel" where
  "enable_paging k = k\<lparr>active := Some (tabs k)\<rparr>"

fun clear_tables :: "nat \<Rightarrow> tables \<Rightarrow> tables" where
  "clear_tables 0 t = t"
| "clear_tables (Suc i) t =
     upd_pte (int i) (\<lambda>_. zero_pte\<lparr>pte_address := word_of_int (int i), pte_read_write := True\<rparr>)
       (upd_pde (int i) (\<lambda>_. zero_pde\<lparr>pde_read_write := True\<rparr>) (clear_tables i t))"

definition init_paging :: "kernel \<Rightarrow> kernel" where
  "init_paging k =
     (let t0 = clear_tables DIR_SIZE (tabs k);
          t1 = upd_pde 0 (\<lambda>e. e\<lparr>pde_present := True,
                 pde_address := ucast (drop_bit ALIGN_SIZE (addr_of k sym_page_table))\<rparr>) t0;
          t2 = upd_pde 1 (\<lambda>e. e\<lparr>pde_present := True, pde_page_size := True,
                 pde_address := ucast (drop_bit ALIGN_SIZE KERNEL_MEM_START)\<rparr>) t1;
          vid_mem_offset = uint (drop_bit ALIGN_SIZE VIDEO);
          t3 = upd_pte vid_mem_offset (pte_present_update (\<lambda>_. True)) t2;
          t4 = upd_pte (vid_mem_offset + 1) (pte_present_update (\<lambda>_. True)) t3;
          t5 = upd_pte (vid_mem_offset + 2) (pte_present_update (\<lambda>_. True)) t4;
          t6 = upd_pte (vid_mem_offset + 3) (pte_present_update (\<lambda>_. True)) t5
      in enable_paging (k\<lparr>tabs := t6\<rparr>))"

definition enable_program_page :: "int \<Rightarrow> kernel \<Rightarrow> kernel" where
  "enable_program_page process_num k =
     (let pd_index = process_num + 2 in
      flush_TLB (k\<lparr>tabs := upd_pde USER_PROGRAM_PD_IDX
        (\<lambda>e. e\<lparr>pde_present := True, pde_page_size := True, pde_user_supervisor := True,
               pde_address := word_of_int (drop_bit ALIGN_SIZE (pd_index * 0x400000))\<rparr>) (tabs k)\<rparr>))"

definition change_vidmem :: "int \<Rightarrow> kernel \<Rightarrow> kernel" where
  "change_vidmem process_num k =
     (let vid_mem_offset = uint (drop_bit ALIGN_SIZE VIDEO);
          vid_buffer = word_of_int (vid_mem_offset + 1 + process_num)
      in flush_TLB (k\<lparr>tabs := upd_vpte 0 (pte_address_update (\<lambda>_. vid_buffer))
           (upd_pte vid_mem_offset (pte_address_update (\<lambda>_. vid_buffer)) (tabs k))\<rparr>))"

definition get_vidmem :: "kernel \<Rightarrow> u32 \<times> kernel" where
  "get_vidmem k =
     (let t1 = upd_vpte 0 (\<lambda>_. zero_pte\<lparr>pte_read_write := True, pte_present := True,
                 pte_user_supervisor := True, pte_address := ucast (drop_bit ALIGN_SIZE VIDEO)\<rparr>) (tabs k);
          t2 = upd_pde (USER_PROGRAM_PD_IDX + 1) (\<lambda>e. e\<lparr>pde_present := True,
                 pde_user_supervisor := True,
                 pde_address := ucast (drop_bit ALIGN_SIZE (addr_of k sym_vidmem_page_table))\<rparr>) t1
      in (0x8400000, flush_TLB (k\<lparr>tabs := t2\<rparr>)))"

lemmas [kdefs] = upd_pde_def upd_pte_def upd_vpte_def enable_paging_def

subsection \<open>What the tables say\<close>

text \<open>
  The shape that every operation keeps: translation is on and up to date, the first 4 MB go
  through \<open>page_table\<close> in which exactly the four video pages are present, the kernel's 4 MB
  are mapped to themselves, the two user areas are present only as user pages of the right
  kind, the second user area shows at most one page and that is a video page, nothing else is
  present, and no kernel page is a user page.
\<close>

definition pt_frame :: "kernel \<Rightarrow> 20 word" where
  "pt_frame k = ucast (drop_bit 12 (addr_of k sym_page_table))"

definition vpt_frame :: "kernel \<Rightarrow> 20 word" where
  "vpt_frame k = ucast (drop_bit 12 (addr_of k sym_vidmem_page_table))"

definition pd_ok :: "kernel \<Rightarrow> bool" where
  "pd_ok k \<longleftrightarrow> (let d = page_directory (tabs k) in
     pde_present (d 0) \<and> \<not> pde_page_size (d 0) \<and> \<not> pde_user_supervisor (d 0) \<and>
     pde_address (d 0) = pt_frame k \<and>
     pde_present (d 1) \<and> pde_page_size (d 1) \<and> \<not> pde_user_supervisor (d 1) \<and>
     pde_address (d 1) = 1024 \<and>
     (pde_present (d 32) \<longrightarrow> pde_page_size (d 32) \<and> pde_user_supervisor (d 32)) \<and>
     (pde_present (d 33) \<longrightarrow> \<not> pde_page_size (d 33) \<and> pde_user_supervisor (d 33) \<and>
        pde_address (d 33) = vpt_frame k) \<and>
     \<not> pde_page_size (d 33) \<and>
     (\<forall>i. 0 \<le> i \<and> i < 1024 \<and> i \<notin> {0, 1, 32, 33} \<longrightarrow> \<not> pde_present (d i)))"

definition pt_ok :: "kernel \<Rightarrow> bool" where
  "pt_ok k \<longleftrightarrow> (let p = page_table (tabs k) in
     (\<forall>i. 0 \<le> i \<and> i < 1024 \<longrightarrow> (pte_present (p i) \<longleftrightarrow> 0xB8 \<le> i \<and> i \<le> 0xBB)) \<and>
     pte_address (p 0xB9) = 0xB9 \<and> pte_address (p 0xBA) = 0xBA \<and> pte_address (p 0xBB) = 0xBB)"

definition vpt_ok :: "kernel \<Rightarrow> bool" where
  "vpt_ok k \<longleftrightarrow> (let p = vidmem_page_table (tabs k) in
     (\<forall>i. 0 < i \<and> i < 1024 \<longrightarrow> \<not> pte_present (p i)) \<and>
     (pte_present (p 0) \<longrightarrow> pte_address (p 0) \<in> {0xB8, 0xB9, 0xBA, 0xBB}))"

definition paging_ok :: "kernel \<Rightarrow> bool" where
  "paging_ok k \<longleftrightarrow>
     active k = Some (tabs k) \<and> pd_ok k \<and> pt_ok k \<and> vpt_ok k \<and> pt_frame k \<noteq> vpt_frame k"

text \<open>The physical page behind the virtual address of the video memory.\<close>

definition vid_page :: "kernel \<Rightarrow> u32" where
  "vid_page k = 0x1000 * ucast (pte_address (page_table (tabs k) 0xB8))"

lemmas paging_defs = paging_ok_def pd_ok_def pt_ok_def vpt_ok_def pt_frame_def vpt_frame_def

lemma clear_tables_eq:
  "clear_tables n t = t\<lparr>
     page_directory := (\<lambda>i. if 0 \<le> i \<and> i < int n then zero_pde\<lparr>pde_read_write := True\<rparr>
                            else page_directory t i),
     page_table := (\<lambda>i. if 0 \<le> i \<and> i < int n
                        then zero_pte\<lparr>pte_address := word_of_int i, pte_read_write := True\<rparr>
                        else page_table t i)\<rparr>"
proof (induction n)
  case 0
  show ?case by (rule tables.equality) (auto simp: fun_eq_iff)
qed (auto simp: kdefs fun_eq_iff)

lemma init_paging_ok:
  "pt_frame k \<noteq> vpt_frame k \<Longrightarrow> (\<And>i. \<not> pte_present (vidmem_page_table (tabs k) i)) \<Longrightarrow>
     paging_ok (init_paging k)"
  by (auto simp: paging_defs init_paging_def clear_tables_eq kdefs zero_pde_def zero_pte_def Let_def)

lemma enable_program_page_ok: "paging_ok k \<Longrightarrow> paging_ok (enable_program_page n k)"
  by (auto simp: paging_defs enable_program_page_def kdefs Let_def)

lemma change_vidmem_ok:
  assumes "paging_ok k" and "-1 \<le> n" and "n < 3"
  shows "paging_ok (change_vidmem n k)"
proof -
  have "n = -1 \<or> n = 0 \<or> n = 1 \<or> n = 2" using assms(2,3) by linarith
  with assms(1) show ?thesis
    by (auto simp: paging_defs change_vidmem_def kdefs Let_def)
qed

lemma get_vidmem_ok: "paging_ok k \<Longrightarrow> paging_ok (snd (get_vidmem k))"
  by (auto simp: paging_defs get_vidmem_def kdefs Let_def)

subsection \<open>The address space\<close>

text \<open>The page of an address, for the pages that can be present.\<close>

lemma div_4MB:
  "(a :: u32) div 0x400000 = of_nat (unat a div 0x400000)"
  "uint (a div 0x400000) = int (unat a div 0x400000)"
  by (simp_all add: word_unat_eq_iff unat_div_distrib uint_nat unsigned_of_nat take_bit_nat_eq_self
      order_le_less_trans [OF div_le_dividend] unat_u32 del: of_nat_unat)

lemma div_4KB:
  "uint ((a :: u32) div 0x1000 mod 1024) = int (unat a div 0x1000 mod 1024)"
  by (simp add: unat_div_distrib unat_mod_distrib uint_nat del: of_nat_unat)

lemma walk_low:
  assumes "pd_ok k" and "pt_ok k" and "unat a < 0x400000"
  shows "walk (addr_of k) (tabs k) a =
    (if 0xB8 \<le> unat a div 0x1000 \<and> unat a div 0x1000 \<le> 0xBB
     then Some (0x1000 * ucast (pte_address (page_table (tabs k) (int (unat a div 0x1000)))) + a mod 0x1000)
     else None)"
proof -
  have "unat a div 0x400000 = 0" using assms(3) by simp
  moreover have "unat a div 0x1000 < 1024" using assms(3) by (simp add: div_less_iff_less_mult)
  moreover have "table_at (addr_of k) (tabs k) (pt_frame k) i = Some (page_table (tabs k) i)" for i
    by (simp add: table_at_def pt_frame_def)
  ultimately show ?thesis
    using assms(1,2) by (auto simp: walk_def div_4MB(2) div_4KB pd_ok_def pt_ok_def Let_def)
qed

lemma walk_kernel:
  assumes "pd_ok k" and "0x400000 \<le> unat a" and "unat a < 0x800000"
  shows "walk (addr_of k) (tabs k) a = Some a"
proof -
  have "unat a div 0x400000 = 1" using assms(2,3) by simp
  moreover have "0x400000 + a mod 0x400000 = a"
    using assms(2,3) by (simp add: word_unat_eq_iff unat_word_ariths unat_mod_distrib le_mod_geq)
  ultimately show ?thesis
    using assms(1) by (simp add: walk_def div_4MB(2) pd_ok_def Let_def)
qed

lemma walk_absent:
  assumes "pd_ok k" and "unat a div 0x400000 \<notin> {0, 1, 32, 33}"
  shows "walk (addr_of k) (tabs k) a = None"
proof -
  have "unat a div 0x400000 < 1024" using unat_u32 [of a] by simp
  with assms have "\<not> pde_present (page_directory (tabs k) (int (unat a div 0x400000)))"
    by (auto simp: pd_ok_def Let_def)
  then show ?thesis by (simp add: walk_def div_4MB(2) Let_def)
qed

lemma unat_page:
  assumes "unat a mod 0x1000 = 0" and "i < 4096" and "unat a < 0x800000"
  shows "unat (a + of_nat i) = unat (a :: u32) + i" and "unat (a + of_nat i) div 0x1000 = unat a div 0x1000"
    and "(a + of_nat i) mod 0x1000 = of_nat i"
proof -
  show u: "unat (a + of_nat i) = unat a + i"
    using assms by (simp add: unat_word_ariths wsimps)
  obtain q where q: "unat a = 0x1000 * q" using assms(1) by auto
  then show "unat (a + of_nat i) div 0x1000 = unat a div 0x1000"
    using assms(2) by (simp add: u)
  show "(a + of_nat i) mod 0x1000 = of_nat i"
    using assms(2) by (simp add: word_unat_eq_iff unat_mod_distrib u q wsimps)
qed

lemma maps_page_low:
  assumes "paging_ok k" and "0xB8 \<le> n" and "n \<le> 0xBB"
  shows "maps_page k (0x1000 * of_nat n) (0x1000 * ucast (pte_address (page_table (tabs k) (int n))))"
  unfolding maps_page_def
proof (intro allI impI)
  fix i :: nat
  assume i: "i < 4096"
  have n: "unat (0x1000 * of_nat n :: u32) = 0x1000 * n"
    using assms by (simp add: unat_word_ariths wsimps)
  have a: "unat (0x1000 * of_nat n + of_nat i :: u32) div 0x1000 = n"
    "(0x1000 * of_nat n + of_nat i :: u32) mod 0x1000 = of_nat i"
    "unat (0x1000 * of_nat n + of_nat i :: u32) < 0x400000"
    using unat_page [of "0x1000 * of_nat n" i] i assms n by simp_all
  show "paddr k (0x1000 * of_nat n + of_nat i) =
      Some (0x1000 * ucast (pte_address (page_table (tabs k) (int n))) + of_nat i)"
    using assms walk_low [OF _ _ a(3)] by (simp add: paddr_def paging_ok_def a(1,2))
qed

lemma maps_video: "paging_ok k \<Longrightarrow> maps_page k VIDEO (vid_page k)"
  using maps_page_low [of k "0xB8"] by (simp add: vid_page_def)

text \<open>The three pages behind the video page keep the screens that are not shown.\<close>

definition backing :: "int \<Rightarrow> u32" where
  "backing t = VIDEO + (word_of_int t + 1) * 0x1000"

lemma terminal_cases:
  assumes "0 \<le> t" and "t < (3 :: int)"
  obtains "t = 0" | "t = 1" | "t = 2"
  using assms by linarith

lemma maps_backing:
  assumes "paging_ok k" and "0 \<le> t" and "t < 3"
  shows "maps_page k (backing t) (backing t)"
proof -
  have "pte_address (page_table (tabs k) 0xB9) = 0xB9" "pte_address (page_table (tabs k) 0xBA) = 0xBA"
    "pte_address (page_table (tabs k) 0xBB) = 0xBB"
    using assms(1) by (simp_all add: paging_ok_def pt_ok_def Let_def)
  with assms(2,3) show ?thesis
    using maps_page_low [OF assms(1), of "0xB9"] maps_page_low [OF assms(1), of "0xBA"]
      maps_page_low [OF assms(1), of "0xBB"]
    by (elim terminal_cases) (simp_all add: backing_def)
qed

lemma vid_page_change:
  assumes "0 \<le> t" and "t < 3"
  shows "vid_page (change_vidmem t k) = backing t"
  using assms
  by (elim terminal_cases; cases "active k")
    (simp_all add: vid_page_def change_vidmem_def kdefs backing_def Let_def)

lemma vid_page_main: "vid_page (change_vidmem (-1) k) = VIDEO"
  by (cases "active k") (simp_all add: vid_page_def change_vidmem_def kdefs Let_def)

subsection \<open>Programs\<close>

text \<open>The physical memory of the program in slot \<open>n\<close>.\<close>

definition prog_page :: "int \<Rightarrow> u32" where
  "prog_page n = 0x400000 * word_of_int (n + 2)"

lemma slot_cases:
  assumes "0 \<le> n" and "n < (6 :: int)"
  obtains "n = 0" | "n = 1" | "n = 2" | "n = 3" | "n = 4" | "n = 5"
  using assms by linarith

lemma tabs_flush [simp]:
  "tabs (flush_TLB k) = tabs k" "addr_of (flush_TLB k) = addr_of k" "phys (flush_TLB k) = phys k"
  by (simp_all add: flush_TLB_def split: option.splits)

lemma pde_program:
  fixes k :: kernel
  assumes "0 \<le> n" and "n < 6"
  defines "e \<equiv> page_directory (tabs (enable_program_page n k)) 32"
  shows "pde_present e" and "pde_page_size e" and "pde_user_supervisor e"
    and "0x400000 * (ucast (pde_address e) div 1024) = prog_page n"
  using assms
  by (auto elim!: slot_cases simp: enable_program_page_def upd_pde_def prog_page_def Let_def)

lemma walk_program:
  assumes "0 \<le> n" and "n < 6" and "unat a div 0x400000 = 32"
  shows "user_walk (addr_of k) (tabs (enable_program_page n k)) a = Some (prog_page n + a mod 0x400000)"
    and "walk (addr_of k) (tabs (enable_program_page n k)) a = Some (prog_page n + a mod 0x400000)"
  using assms pde_program [OF assms(1,2), of k]
  by (simp_all add: user_walk_def walk_def div_4MB(2) Let_def)

lemma user_walk_cases:
  assumes "paging_ok k" and "user_walk (addr_of k) (tabs k) a = Some p"
  shows "unat a div 0x400000 = 32 \<or> (0xB8000 \<le> p \<and> p < 0xBC000)"
proof -
  let ?d = "unat a div 0x400000"
  have w: "walk (addr_of k) (tabs k) a = Some p"
    and u: "pde_user_supervisor (page_directory (tabs k) (int ?d))"
    using assms(2) by (auto simp: user_walk_def div_4MB(2) Let_def split: if_splits option.splits)
  have "?d \<in> {0, 1, 32, 33}"
    using walk_absent [of k a] assms(1) w by (auto simp: paging_ok_def)
  with u assms(1) have "?d = 32 \<or> ?d = 33"
    by (auto simp: paging_ok_def pd_ok_def Let_def)
  moreover have "0xB8000 \<le> p \<and> p < 0xBC000" if "?d = 33"
  proof -
    let ?i = "unat a div 0x1000 mod 1024"
    let ?e = "vidmem_page_table (tabs k) (int ?i)"
    have "table_at (addr_of k) (tabs k) (vpt_frame k) i = Some (vidmem_page_table (tabs k) i)" for i
      using assms(1) by (auto simp: table_at_def paging_ok_def pt_frame_def vpt_frame_def)
    then have e: "pte_present ?e" "p = 0x1000 * ucast (pte_address ?e) + a mod 0x1000"
      using w that assms(1)
      by (auto simp: walk_def div_4MB(2) div_4KB paging_ok_def pd_ok_def Let_def split: if_splits)
    have "?i = 0"
    proof (rule ccontr)
      assume "?i \<noteq> 0"
      then have "0 < int ?i \<and> int ?i < 1024" by simp
      with e(1) assms(1) show False unfolding paging_ok_def vpt_ok_def Let_def by blast
    qed
    with e assms(1) have "pte_address ?e \<in> {0xB8, 0xB9, 0xBA, 0xBB}"
      by (simp add: paging_ok_def vpt_ok_def Let_def)
    then show ?thesis
      using e(2) by (auto simp: word_le_nat_alt word_less_nat_alt unat_word_ariths unat_mod_distrib)
  qed
  ultimately show ?thesis by blast
qed

lemma addr_of_program [simp]: "addr_of (enable_program_page n k) = addr_of k"
  by (simp add: enable_program_page_def Let_def)

lemma prog_page_unat:
  assumes "0 \<le> n" and "n < 6"
  shows "unat (prog_page n + a mod 0x400000) = 0x400000 * nat (n + 2) + unat a mod 0x400000"
proof -
  have "unat a mod 0x400000 < 0x400000" by simp
  with assms show ?thesis
    by (elim slot_cases) (simp_all add: prog_page_def unat_word_ariths unat_mod_distrib)
qed

lemma user_reach:
  assumes "paging_ok k" and "0 \<le> n" and "n < 6"
    and "user_walk (addr_of k) (tabs (enable_program_page n k)) a = Some p"
  shows "unat p div 0x400000 = nat (n + 2) \<or> (0xB8000 \<le> p \<and> p < 0xBC000)"
proof -
  have "paging_ok (enable_program_page n k)" using assms(1) by (rule enable_program_page_ok)
  from user_walk_cases [OF this, of a p] assms(4)
  consider "unat a div 0x400000 = 32" | "0xB8000 \<le> p \<and> p < 0xBC000" by auto
  then show ?thesis
  proof cases
    case 1
    with assms have "p = prog_page n + a mod 0x400000" by (simp add: walk_program)
    then have "unat p = 0x400000 * nat (n + 2) + unat a mod 0x400000"
      using assms(2,3) by (simp only: prog_page_unat)
    moreover have "unat a mod 0x400000 < 0x400000" by simp
    ultimately show ?thesis by (simp add: div_nat_eqI)
  qed simp
qed

lemma page_frame_id:
  assumes "unat a div 0x1000 \<le> 0xBB"
  shows "0x1000 * ucast (of_nat (unat a div 0x1000) :: 20 word) + a mod 0x1000 = (a :: u32)"
proof -
  have "unat (0x1000 * ucast (of_nat (unat a div 0x1000) :: 20 word) + a mod 0x1000)
      = 0x1000 * (unat a div 0x1000) + unat a mod 0x1000"
    using assms by (simp add: unat_word_ariths unat_mod_distrib unsigned_of_nat take_bit_nat_eq_self)
  then show ?thesis by (simp add: word_unat_eq_iff)
qed

text \<open>Right after initialisation no user entry is present and the page table is the identity.\<close>

lemma init_paging_tables:
  "i = 32 \<or> i = 33 \<Longrightarrow> \<not> pde_present (page_directory (tabs (init_paging k)) i)"
  "i \<in> {0, 1, 32, 33} \<Longrightarrow> \<not> pde_user_supervisor (page_directory (tabs (init_paging k)) i)"
  "0xB8 \<le> i \<Longrightarrow> i \<le> 0xBB \<Longrightarrow> pte_address (page_table (tabs (init_paging k)) i) = word_of_int i"
  "addr_of (init_paging k) = addr_of k"
proof -
  have "i = 0xB8 \<or> i = 0xB9 \<or> i = 0xBA \<or> i = 0xBB" if "0xB8 \<le> i" "i \<le> 0xBB"
    using that by linarith
  then show "0xB8 \<le> i \<Longrightarrow> i \<le> 0xBB \<Longrightarrow>
      pte_address (page_table (tabs (init_paging k)) i) = word_of_int i"
    by (auto simp: init_paging_def clear_tables_eq kdefs Let_def)
qed (auto simp: init_paging_def clear_tables_eq kdefs zero_pde_def Let_def)

lemma init_paging_walk:
  assumes "paging_ok (init_paging k)"
  shows "walk (addr_of k) (tabs (init_paging k)) a =
    (if 0xB8000 \<le> a \<and> a < 0xBC000 \<or> 0x400000 \<le> a \<and> a < 0x800000 then Some a else None)"
proof -
  note walks = walk_low [of "init_paging k" a] walk_kernel [of "init_paging k" a]
    walk_absent [of "init_paging k" a]
  have vid: "0xB8000 \<le> unat a \<longleftrightarrow> 0xB8 \<le> unat a div 0x1000"
    "unat a < 0xBC000 \<longleftrightarrow> unat a div 0x1000 \<le> 0xBB"
    by arith+
  consider (low) "unat a < 0x400000" | (kern) "0x400000 \<le> unat a" "unat a < 0x800000"
    | (user) "unat a div 0x400000 = 32 \<or> unat a div 0x400000 = 33"
    | (none) "0x800000 \<le> unat a" "unat a div 0x400000 \<notin> {0, 1, 32, 33}"
    by fastforce
  then show ?thesis
  proof cases
    case user
    then have "walk (addr_of k) (tabs (init_paging k)) a = None"
      using init_paging_tables(1) by (auto simp: walk_def div_4MB(2) Let_def)
    with user show ?thesis by (auto simp: word_le_nat_alt word_less_nat_alt)
  qed (use walks assms in \<open>auto simp: paging_ok_def init_paging_tables page_frame_id vid
        word_le_nat_alt word_less_nat_alt\<close>)
qed

lemma init_paging_user:
  assumes "paging_ok (init_paging k)"
  shows "user_walk (addr_of k) (tabs (init_paging k)) a = None"
proof (cases "unat a div 0x400000 \<in> {0, 1, 32, 33}")
  case True
  then have "\<not> pde_user_supervisor (page_directory (tabs (init_paging k)) (int (unat a div 0x400000)))"
    by (intro init_paging_tables(2)) auto
  then show ?thesis by (simp add: user_walk_def div_4MB(2) Let_def)
next
  case False
  then have "walk (addr_of k) (tabs (init_paging k)) a = None"
    using walk_absent [of "init_paging k" a] assms by (simp add: paging_ok_def init_paging_tables(4))
  then show ?thesis by (auto simp: user_walk_def Let_def split: option.splits)
qed

lemma boot_frames:
  "pt_frame boot_kernel \<noteq> vpt_frame boot_kernel"
  "\<not> pte_present (vidmem_page_table (tabs boot_kernel) i)"
  by (simp_all add: pt_frame_def vpt_frame_def link_map_def boot_kernel_def boot_tables_def zero_pte_def)

lemma boot_paging_ok: "paging_ok (init_paging boot_kernel)"
  by (rule init_paging_ok [OF boot_frames])

subsection \<open>Properties\<close>

text \<open>
  C28. After \<open>init_paging\<close> the whole address space is known: the four video pages and the
  kernel's 4 MB translate to themselves, every other address faults, and a program can reach
  nothing. The hypotheses say that the linker placed the two page tables in different frames and
  that \<open>vidmem_page_table\<close> is still the zeroes of the BSS segment.
\<close>

theorem init_paging_address_space:
  assumes "pt_frame k \<noteq> vpt_frame k" and "\<And>i. \<not> pte_present (vidmem_page_table (tabs k) i)"
  shows "paging_ok (init_paging k) \<and>
    paddr (init_paging k) a =
      (if 0xB8000 \<le> a \<and> a < 0xBC000 \<or> 0x400000 \<le> a \<and> a < 0x800000 then Some a else None) \<and>
    user_walk (addr_of k) (tabs (init_paging k)) a = None"
proof -
  have ok: "paging_ok (init_paging k)" by (rule init_paging_ok [OF assms])
  then have "paddr (init_paging k) a = walk (addr_of k) (tabs (init_paging k)) a"
    by (simp add: paddr_def paging_ok_def init_paging_tables(4))
  with ok show ?thesis by (simp add: init_paging_walk init_paging_user)
qed

theorem init_paging_address_space_witness:
  "paddr (init_paging boot_kernel) 0x812345 = None \<and>
   paddr (init_paging boot_kernel) 0x412345 = Some 0x412345"
  using init_paging_address_space [of boot_kernel] boot_frames by simp

text \<open>
  C14. Programs are isolated: whatever a program can reach after its page is enabled lies in its
  own 4 MB slot behind the kernel or in a video page, so it is no kernel memory, and what two
  programs in different slots can both reach is video memory.
\<close>

theorem program_isolation:
  assumes "paging_ok k" and "paging_ok k'" and "i \<in> {0..<6}" and "j \<in> {0..<6}" and "i \<noteq> j"
    and "user_walk (addr_of k) (tabs (enable_program_page i k)) a = Some p"
    and "user_walk (addr_of k') (tabs (enable_program_page j k')) b = Some q"
  shows "\<not> (0x400000 \<le> p \<and> p < 0x800000) \<and> (p = q \<longrightarrow> 0xB8000 \<le> p \<and> p < 0xBC000)"
proof -
  have "unat p div 0x400000 = nat (i + 2) \<or> (0xB8000 \<le> p \<and> p < 0xBC000)"
    using assms by (intro user_reach [of k i a p]) auto
  moreover have "unat q div 0x400000 = nat (j + 2) \<or> (0xB8000 \<le> q \<and> q < 0xBC000)"
    using assms by (intro user_reach [of k' j b q]) auto
  moreover have "nat (i + 2) \<noteq> nat (j + 2)" "2 \<le> nat (i + 2)" using assms by auto
  moreover have "unat p div 0x400000 = 1" if "0x400000 \<le> unat p" "unat p < 0x800000"
    using that by simp
  ultimately show ?thesis
    by (auto simp: word_le_nat_alt word_less_nat_alt)
qed

theorem program_isolation_witness:
  "let k = init_paging boot_kernel in
     user_walk (addr_of k) (tabs (enable_program_page 0 k)) 0x8048000 = Some 0x848000 \<and>
     user_walk (addr_of k) (tabs (enable_program_page 1 k)) 0x8048000 = Some 0xC48000 \<and>
     \<not> (0x400000 \<le> (0x848000 :: u32) \<and> (0x848000 :: u32) < 0x800000)"
proof -
  let ?k = "init_paging boot_kernel"
  have "user_walk (addr_of ?k) (tabs (enable_program_page 0 ?k)) 0x8048000 = Some 0x848000"
    "user_walk (addr_of ?k) (tabs (enable_program_page 1 ?k)) 0x8048000 = Some 0xC48000"
    by (simp_all add: walk_program(1) prog_page_def)
  with program_isolation [OF boot_paging_ok boot_paging_ok _ _ _ this] show ?thesis by simp
qed

end
