(* ===== verification/Screen.thy ===== *)
theory Screen
  imports Paging
begin

section \<open>The console\<close>

text \<open>
  The screen routines of \<open>src/student-distrib/lib.c\<close>: \<open>clear\<close>, \<open>scroll_up\<close>,
  \<open>putc\<close>, \<open>screen_backspace\<close>, the cursor, \<open>swap_vid_mem\<close>, \<open>puts\<close> and
  \<open>printf\<close>. They write the video memory through its virtual address, so what they change
  depends on where the video page is mapped. \<open>tty\<close> is the text screen they implement.
\<close>

subsection \<open>Cells and the cursor\<close>

abbreviation (input) NUM_COLS :: int where "NUM_COLS \<equiv> 80"
abbreviation (input) NUM_ROWS :: int where "NUM_ROWS \<equiv> 25"
abbreviation (input) ATTRIB :: u8 where "ATTRIB \<equiv> 7"
abbreviation (input) SPACE :: u8 where "SPACE \<equiv> 32"
abbreviation (input) VGA_MISC_PORT_LOW :: u16 where "VGA_MISC_PORT_LOW \<equiv> 0x3D4"
abbreviation (input) VGA_MISC_PORT_HIGH :: u16 where "VGA_MISC_PORT_HIGH \<equiv> 0x3D5"
abbreviation (input) BITMASK_8 :: u16 where "BITMASK_8 \<equiv> 0xFF"
abbreviation (input) HIGHER_8_BIT_SHIFT :: nat where "HIGHER_8_BIT_SHIFT \<equiv> 8"
abbreviation (input) CURSOR_LOCATION_LOW_REG :: u8 where "CURSOR_LOCATION_LOW_REG \<equiv> 0x0F"
abbreviation (input) CURSOR_LOCATION_HIGH_REG :: u8 where "CURSOR_LOCATION_HIGH_REG \<equiv> 0x0E"
abbreviation (input) PAGE_SIZE :: nat where "PAGE_SIZE \<equiv> 4096"

text \<open>The byte at \<open>video_mem + i\<close>; a cell is two of them.\<close>

definition vid_addr :: "int \<Rightarrow> u32" where
  "vid_addr i = VIDEO + word_of_int i"

definition put_cell :: "int \<Rightarrow> u8 \<Rightarrow> u8 \<Rightarrow> kernel \<Rightarrow> kernel" where
  "put_cell i c a k = vwrite (vid_addr (2 * i + 1)) a (vwrite (vid_addr (2 * i)) c k)"

definition copy_cell :: "int \<Rightarrow> int \<Rightarrow> kernel \<Rightarrow> kernel" where
  "copy_cell d s k =
     (let k1 = vwrite (vid_addr (2 * d)) (vmem k (vid_addr (2 * s))) k
      in vwrite (vid_addr (2 * d + 1)) (vmem k1 (vid_addr (2 * s + 1))) k1)"

definition clear :: "kernel \<Rightarrow> kernel" where
  "clear k = fold (\<lambda>i. put_cell (int i) SPACE ATTRIB) [0..<2000] k"

definition scroll_up :: "kernel \<Rightarrow> kernel" where
  "scroll_up k =
     (let k1 = fold (\<lambda>y. fold (\<lambda>x. copy_cell (NUM_COLS * int y + int x)
                                          (NUM_COLS * (int y + 1) + int x)) [0..<80]) [0..<24] k
      in fold (\<lambda>x. put_cell (NUM_COLS * 24 + int x) SPACE ATTRIB) [0..<80] k1)"

definition update_cursor :: "int \<Rightarrow> int \<Rightarrow> kernel \<Rightarrow> kernel" where
  "update_cursor x y k =
     (let pos = (word_of_int (y * NUM_COLS + x) :: u16);
          k1 = outb (ucast (pos AND BITMASK_8)) VGA_MISC_PORT_HIGH (outb CURSOR_LOCATION_LOW_REG VGA_MISC_PORT_LOW k)
      in outb (ucast (drop_bit HIGHER_8_BIT_SHIFT pos AND BITMASK_8)) VGA_MISC_PORT_HIGH (outb CURSOR_LOCATION_HIGH_REG VGA_MISC_PORT_LOW k1))"

text \<open>The save of the cursor in the state of the running terminal.\<close>

definition save_cursor :: "kernel \<Rightarrow> kernel" where
  "save_cursor k = upd_terminal (curr_process k)
     (\<lambda>t. t\<lparr>screen_x_save := screen_x k, screen_y_save := screen_y k\<rparr>) k"

definition set_cursor :: "kernel \<Rightarrow> kernel" where
  "set_cursor k =
     (let k1 = save_cursor k
      in if on_screen k1 \<noteq> 0 then update_cursor (screen_x k1) (screen_y k1) k1 else k1)"

definition restore_cursor :: "int \<Rightarrow> int \<Rightarrow> kernel \<Rightarrow> kernel" where
  "restore_cursor x y k = k\<lparr>screen_x := x, screen_y := y\<rparr>"

definition reset_cursor :: "kernel \<Rightarrow> kernel" where
  "reset_cursor k = save_cursor (k\<lparr>screen_x := 0, screen_y := 0\<rparr>)"

definition get_cursor_pos :: "kernel \<Rightarrow> int" where
  "get_cursor_pos k = screen_y k * NUM_COLS + screen_x k"

subsection \<open>Output\<close>

text \<open>The step to the next row, which \<open>putc\<close> takes for a line end and for a full row.\<close>

definition next_row :: "kernel \<Rightarrow> kernel" where
  "next_row k =
     (let k1 = k\<lparr>screen_y := screen_y k + 1\<rparr>;
          k2 = (if screen_y k1 = NUM_ROWS
                then let k' = scroll_up k1 in k'\<lparr>screen_y := screen_y k' - 1\<rparr> else k1)
      in k2\<lparr>screen_x := 0\<rparr>)"

definition putc :: "u8 \<Rightarrow> kernel \<Rightarrow> kernel" where
  "putc c k =
     (let (flags, k0) = cli_and_save k;
          k1 = (if c = 10 \<or> c = 13 then next_row k0
                else let k' = (if screen_x k0 = NUM_COLS then next_row k0 else k0);
                         k'' = put_cell (NUM_COLS * screen_y k' + screen_x k') c ATTRIB k'
                     in k''\<lparr>screen_x := screen_x k'' + 1\<rparr>)
      in restore_flags flags (set_cursor k1))"

definition screen_backspace :: "kernel \<Rightarrow> kernel" where
  "screen_backspace k =
     (if screen_x k = 0 \<and> screen_y k = 0 then k
      else
        let k1 = (if screen_x k = 0
                  then k\<lparr>screen_y := screen_y k - 1, screen_x := NUM_COLS\<rparr> else k);
            k2 = k1\<lparr>screen_x := screen_x k1 - 1\<rparr>;
            k3 = put_cell (NUM_COLS * screen_y k2 + screen_x k2) SPACE ATTRIB k2
        in if on_screen k3 \<noteq> 0 then set_cursor k3 else k3)"

partial_function (option) puts_loop :: "view \<Rightarrow> int \<Rightarrow> kernel \<Rightarrow> (int \<times> kernel) option" where
  "puts_loop s index k =
     (if s index \<noteq> 0 then puts_loop s (index + 1) (putc (s index) k) else Some (index, k))"

definition puts :: "view \<Rightarrow> kernel \<Rightarrow> (int \<times> kernel) option" where
  "puts s k = puts_loop s 0 k"

definition test_interrupts :: "kernel \<Rightarrow> kernel" where
  "test_interrupts k =
     fold (\<lambda>i k. vwrite (vid_addr (2 * int i)) (vmem k (vid_addr (2 * int i)) + 1) k) [0..<2000] k"

text \<open>\<open>memcpy\<close> on virtual addresses, for an aligned destination that does not overlap the source.\<close>

definition vcopy :: "u32 \<Rightarrow> u32 \<Rightarrow> nat \<Rightarrow> kernel \<Rightarrow> kernel" where
  "vcopy dest src n k =
     fold (\<lambda>i k. vwrite (dest + of_nat i) (vmem k (src + of_nat i)) k) [0..<n] k"

definition swap_vid_mem :: "int \<Rightarrow> int \<Rightarrow> kernel \<Rightarrow> kernel" where
  "swap_vid_mem old new k =
     (let k1 = vcopy (VIDEO + (word_of_int old + 1) * 0x1000) VIDEO PAGE_SIZE k
      in vcopy VIDEO (VIDEO + (word_of_int new + 1) * 0x1000) PAGE_SIZE k1)"

lemmas [kdefs] = vid_addr_def update_cursor_def save_cursor_def set_cursor_def
  restore_cursor_def reset_cursor_def

subsection \<open>Video operations on the bytes of a page\<close>

definition pg_cell :: "nat \<Rightarrow> u8 \<Rightarrow> u8 \<Rightarrow> (nat \<Rightarrow> u8) \<Rightarrow> nat \<Rightarrow> u8" where
  "pg_cell i c a v = v(2 * i := c, 2 * i + 1 := a)"

definition pg_scroll :: "(nat \<Rightarrow> u8) \<Rightarrow> nat \<Rightarrow> u8" where
  "pg_scroll v b = (if b < 3840 then v (b + 160)
     else if b < 4000 then if even b then SPACE else ATTRIB else v b)"

definition pg_clear :: "(nat \<Rightarrow> u8) \<Rightarrow> nat \<Rightarrow> u8" where
  "pg_clear v b = (if b < 4000 then if even b then SPACE else ATTRIB else v b)"

lemma maps_page_phys [simp]: "maps_page (k\<lparr>phys := m\<rparr>) = maps_page k"
  by (simp add: maps_page_def fun_eq_iff)

lemma vid_addr_nat: "vid_addr (int i) = VIDEO + of_nat i"
  by (simp add: vid_addr_def)

lemma put_cell_page:
  assumes "maps_page k VIDEO F" and "i < 2000"
  shows "put_cell (int i) c a (k\<lparr>phys := overlay F v m\<rparr>) = k\<lparr>phys := overlay F (pg_cell i c a v) m\<rparr>"
  using vwrite_page [OF assms(1), of "2 * i" c v m] vwrite_page [OF assms(1), of "2 * i + 1" a "v(2 * i := c)" m]
    assms(2) by (simp add: put_cell_def vid_addr_def pg_cell_def add.commute)

lemma copy_cell_page:
  assumes "maps_page k VIDEO F" and "i < 1920"
  shows "copy_cell (int i) (int i + 80) (k\<lparr>phys := overlay F v m\<rparr>) =
    k\<lparr>phys := overlay F (pg_cell i (v (2 * i + 160)) (v (2 * i + 161)) v) m\<rparr>"
proof -
  have rd: "vmem (k\<lparr>phys := overlay F w m\<rparr>) (VIDEO + of_nat j) = w j" if "j < 4096" for j w
    using vmem_page [of "k\<lparr>phys := overlay F w m\<rparr>" VIDEO F j] assms(1) that by simp
  have "vmem (k\<lparr>phys := overlay F v m\<rparr>) (vid_addr (2 * (int i + 80))) = v (2 * i + 160)"
    using rd [of "2 * i + 160"] assms(2) by (simp add: vid_addr_def add.commute)
  moreover have "vmem (k\<lparr>phys := overlay F w m\<rparr>) (vid_addr (2 * (int i + 80) + 1)) = w (2 * i + 161)" for w
    using rd [of "2 * i + 161" w] assms(2) by (simp add: vid_addr_def add.commute)
  moreover note vwrite_page [OF assms(1), of "2 * i"] vwrite_page [OF assms(1), of "2 * i + 1"]
  ultimately show ?thesis
    using assms(2) by (simp add: copy_cell_def pg_cell_def vid_addr_def Let_def add.commute)
qed

lemma fold_put_cell_page:
  assumes "maps_page k VIDEO F" and "j + n \<le> 2000"
  shows "fold (\<lambda>x. put_cell (int j + int x) SPACE ATTRIB) [0..<n] (k\<lparr>phys := overlay F v m\<rparr>) =
    k\<lparr>phys := overlay F (\<lambda>b. if 2 * j \<le> b \<and> b < 2 * (j + n)
                              then if even b then SPACE else ATTRIB else v b) m\<rparr>"
  using assms(2)
proof (induction n)
  case 0
  then show ?case by (simp add: leD cong: conj_cong)
next
  case (Suc n)
  let ?w = "\<lambda>n b. if 2 * j \<le> b \<and> b < 2 * (j + n) then if even b then SPACE else ATTRIB else v b"
  have "put_cell (int j + int n) SPACE ATTRIB (k\<lparr>phys := overlay F (?w n) m\<rparr>) =
      k\<lparr>phys := overlay F (pg_cell (j + n) SPACE ATTRIB (?w n)) m\<rparr>"
    using put_cell_page [OF assms(1), of "j + n"] Suc.prems by simp
  moreover have "pg_cell (j + n) SPACE ATTRIB (?w n) = ?w (Suc n)"
    by (rule ext) (auto simp: pg_cell_def)
  ultimately show ?case using Suc by simp
qed

lemma clear_page:
  "maps_page k VIDEO F \<Longrightarrow> clear (k\<lparr>phys := overlay F v m\<rparr>) = k\<lparr>phys := overlay F (pg_clear v) m\<rparr>"
  using fold_put_cell_page [of k F 0 2000 v m]
  by (simp add: clear_def pg_clear_def [abs_def])

lemma scroll_row_page:
  assumes "maps_page k VIDEO F" and "y < 24" and "n \<le> 80"
  shows "fold (\<lambda>x. copy_cell (80 * int y + int x) (80 * (int y + 1) + int x)) [0..<n]
      (k\<lparr>phys := overlay F v m\<rparr>) =
    k\<lparr>phys := overlay F (\<lambda>b. if 160 * y \<le> b \<and> b < 160 * y + 2 * n then v (b + 160) else v b) m\<rparr>"
  using assms(3)
proof (induction n)
  case 0
  then show ?case by (simp add: leD cong: conj_cong)
next
  case (Suc n)
  let ?w = "\<lambda>n b. if 160 * y \<le> b \<and> b < 160 * y + 2 * n then v (b + 160) else v b"
  let ?i = "80 * y + n"
  have "?i < 1920" using assms(2) Suc.prems by simp
  from copy_cell_page [OF assms(1) this, of "?w n" m]
  have "copy_cell (80 * int y + int n) (80 * (int y + 1) + int n) (k\<lparr>phys := overlay F (?w n) m\<rparr>) =
      k\<lparr>phys := overlay F (pg_cell ?i (?w n (2 * ?i + 160)) (?w n (2 * ?i + 161)) (?w n)) m\<rparr>"
    by (simp add: algebra_simps)
  moreover have "pg_cell ?i (?w n (2 * ?i + 160)) (?w n (2 * ?i + 161)) (?w n) = ?w (Suc n)"
    using Suc.prems by (intro ext) (auto simp: pg_cell_def algebra_simps)
  ultimately show ?case using Suc by simp
qed

lemma scroll_rows_page:
  assumes "maps_page k VIDEO F" and "n \<le> 24"
  shows "fold (\<lambda>y. fold (\<lambda>x. copy_cell (80 * int y + int x) (80 * (int y + 1) + int x)) [0..<80])
      [0..<n] (k\<lparr>phys := overlay F v m\<rparr>) =
    k\<lparr>phys := overlay F (\<lambda>b. if b < 160 * n then v (b + 160) else v b) m\<rparr>"
  using assms(2)
proof (induction n)
  case 0
  then show ?case by simp
next
  case (Suc n)
  let ?w = "\<lambda>n b. if b < 160 * n then v (b + 160) else v b"
  have "(\<lambda>b. if 160 * n \<le> b \<and> b < 160 * n + 2 * 80 then ?w n (b + 160) else ?w n b) = ?w (Suc n)"
    by (rule ext) auto
  with scroll_row_page [OF assms(1), of n 80 "?w n" m] Suc show ?case by simp
qed

lemma scroll_up_page:
  assumes "maps_page k VIDEO F"
  shows "scroll_up (k\<lparr>phys := overlay F v m\<rparr>) = k\<lparr>phys := overlay F (pg_scroll v) m\<rparr>"
proof -
  let ?w = "\<lambda>b. if b < 3840 then v (b + 160) else v b"
  have "(\<lambda>b. if 2 * 1920 \<le> b \<and> b < 2 * (1920 + 80) then if even b then SPACE else ATTRIB else ?w b) =
      pg_scroll v"
    by (rule ext) (auto simp: pg_scroll_def)
  with scroll_rows_page [OF assms, of 24 v m] fold_put_cell_page [OF assms, of 1920 80 ?w m]
  show ?thesis by (simp add: scroll_up_def)
qed

subsection \<open>The text screen\<close>

text \<open>
  The screen as its user sees it: 25 rows of 80 cells, a character and an attribute each, and
  the cursor. The column may be 80, just behind the last cell of a full row.
\<close>

record tty =
  cell :: "nat \<Rightarrow> u8 \<times> u8"
  cx :: nat
  cy :: nat

definition tty_row :: "tty \<Rightarrow> tty" where
  "tty_row t =
     (if cy t + 1 < 25 then t\<lparr>cx := 0, cy := cy t + 1\<rparr>
      else t\<lparr>cx := 0, cell := (\<lambda>i. if i < 1920 then cell t (i + 80) else (SPACE, ATTRIB))\<rparr>)"

definition tty_putc :: "u8 \<Rightarrow> tty \<Rightarrow> tty" where
  "tty_putc c t =
     (if c = 10 \<or> c = 13 then tty_row t
      else let t' = (if cx t = 80 then tty_row t else t)
           in t'\<lparr>cell := (cell t')(80 * cy t' + cx t' := (c, ATTRIB)), cx := cx t' + 1\<rparr>)"

definition tty_back :: "tty \<Rightarrow> tty" where
  "tty_back t =
     (if cx t = 0 \<and> cy t = 0 then t
      else let p = 80 * cy t + cx t - 1
           in t\<lparr>cell := (cell t)(p := (SPACE, ATTRIB)),
                cx := (if cx t = 0 then 79 else cx t - 1), cy := (if cx t = 0 then cy t - 1 else cy t)\<rparr>)"

text \<open>The screen that a page of memory holds, with the cursor of the kernel.\<close>

definition cells_of :: "(nat \<Rightarrow> u8) \<Rightarrow> nat \<Rightarrow> u8 \<times> u8" where
  "cells_of v i = (if i < 2000 then (v (2 * i), v (2 * i + 1)) else (SPACE, ATTRIB))"

definition tty_of :: "u32 \<Rightarrow> kernel \<Rightarrow> tty" where
  "tty_of F k = \<lparr>cell = cells_of (page_of (phys k) F), cx = nat (screen_x k), cy = nat (screen_y k)\<rparr>"

definition cursor_ok :: "kernel \<Rightarrow> bool" where
  "cursor_ok k \<longleftrightarrow> 0 \<le> screen_x k \<and> screen_x k \<le> NUM_COLS \<and> 0 \<le> screen_y k \<and> screen_y k < NUM_ROWS"

lemma cells_of_scroll:
  "cells_of (pg_scroll v) = (\<lambda>i. if i < 1920 then cells_of v (i + 80) else (SPACE, ATTRIB))"
  by (rule ext) (auto simp: cells_of_def pg_scroll_def algebra_simps)

lemma cells_of_cell: "i < 2000 \<Longrightarrow> cells_of (pg_cell i c a v) = (cells_of v)(i := (c, a))"
  by (rule ext)
    (auto simp: cells_of_def pg_cell_def Suc_double_not_eq_double double_not_eq_Suc_double)

subsection \<open>The console implements the text screen\<close>

text \<open>
  What an output routine changes: the bytes of the video page, the cursor, its copy in the
  running terminal, and the cursor ports.
\<close>

definition con :: "u32 \<Rightarrow> (nat \<Rightarrow> u8) \<Rightarrow> int \<Rightarrow> int \<Rightarrow> kernel \<Rightarrow> kernel" where
  "con F v x y k = k\<lparr>screen_x := x, screen_y := y, phys := overlay F v (phys k)\<rparr>"

lemma con_self: "con F (page_of (phys k) F) (screen_x k) (screen_y k) k = k"
  by (simp add: con_def overlay_self)

lemma con_con [simp]: "con F v x y (con F v' x' y' k) = con F v x y k"
  by (simp add: con_def)

lemma con_sel [simp]:
  "screen_x (con F v x y k) = x" "screen_y (con F v x y k) = y"
  "on_screen (con F v x y k) = on_screen k" "curr_process (con F v x y k) = curr_process k"
  "terminals (con F v x y k) = terminals k" "if_flag (con F v x y k) = if_flag k"
  "outs (con F v x y k) = outs k" "tabs (con F v x y k) = tabs k" "active (con F v x y k) = active k"
  "addr_of (con F v x y k) = addr_of k" "phys (con F v x y k) = overlay F v (phys k)"
  by (simp_all add: con_def)

lemma con_upd [simp]:
  "(con F v x y k)\<lparr>screen_x := x'\<rparr> = con F v x' y k" "(con F v x y k)\<lparr>screen_y := y'\<rparr> = con F v x y' k"
  "(con F v x y k)\<lparr>if_flag := b\<rparr> = con F v x y (k\<lparr>if_flag := b\<rparr>)"
  by (simp_all add: con_def)

lemma maps_page_cursor [simp]:
  "maps_page (k\<lparr>screen_x := x\<rparr>) = maps_page k" "maps_page (k\<lparr>screen_y := y\<rparr>) = maps_page k"
  "maps_page (k\<lparr>if_flag := b\<rparr>) = maps_page k"
  by (cases "active k"; simp add: maps_page_def paddr_def fun_eq_iff)+

lemma scroll_up_con:
  "maps_page k VIDEO F \<Longrightarrow> scroll_up (con F v x y k) = con F (pg_scroll v) x y k"
  using scroll_up_page [of "k\<lparr>screen_x := x, screen_y := y\<rparr>" F v "phys k"] by (simp add: con_def)

lemma put_cell_con:
  "maps_page k VIDEO F \<Longrightarrow> 0 \<le> i \<Longrightarrow> i < 2000 \<Longrightarrow>
     put_cell i c a (con F v x y k) = con F (pg_cell (nat i) c a v) x y k"
  using put_cell_page [of "k\<lparr>screen_x := x, screen_y := y\<rparr>" F "nat i" c a v "phys k"]
  by (simp add: con_def nat_less_iff)

lemma next_row_con:
  "maps_page k VIDEO F \<Longrightarrow>
     next_row (con F v x y k) =
       (if y + 1 = 25 then con F (pg_scroll v) 0 y k else con F v 0 (y + 1) k)"
  by (simp add: next_row_def scroll_up_con Let_def)

text \<open>The effect of \<open>putc\<close> on the bytes of the page and the cursor.\<close>

definition con_row :: "(nat \<Rightarrow> u8) \<times> int \<times> int \<Rightarrow> (nat \<Rightarrow> u8) \<times> int \<times> int" where
  "con_row s = (let (v, x, y) = s in if y + 1 = 25 then (pg_scroll v, 0, y) else (v, 0, y + 1))"

definition con_putc :: "u8 \<Rightarrow> (nat \<Rightarrow> u8) \<times> int \<times> int \<Rightarrow> (nat \<Rightarrow> u8) \<times> int \<times> int" where
  "con_putc c s =
     (if c = 10 \<or> c = 13 then con_row s
      else let (v, x, y) = (if fst (snd s) = 80 then con_row s else s)
           in (pg_cell (nat (80 * y + x)) c ATTRIB v, x + 1, y))"

definition con_in :: "(nat \<Rightarrow> u8) \<times> int \<times> int \<Rightarrow> bool" where
  "con_in s = (let (v, x, y) = s in 0 \<le> x \<and> x \<le> 80 \<and> 0 \<le> y \<and> y < 25)"

definition con_of :: "u32 \<Rightarrow> kernel \<Rightarrow> (nat \<Rightarrow> u8) \<times> int \<times> int" where
  "con_of F k = (page_of (phys k) F, screen_x k, screen_y k)"

definition set_con :: "u32 \<Rightarrow> (nat \<Rightarrow> u8) \<times> int \<times> int \<Rightarrow> kernel \<Rightarrow> kernel" where
  "set_con F s k = (let (v, x, y) = s in con F v x y k)"

lemma con_in_row: "con_in s \<Longrightarrow> con_in (con_row s)"
  by (auto simp: con_in_def con_row_def split: prod.splits if_splits)

lemma con_in_putc: "con_in s \<Longrightarrow> con_in (con_putc c s)"
  using con_in_row [of s] by (auto simp: con_putc_def con_in_def con_row_def Let_def split: prod.splits if_splits)

lemma set_cursor_flag:
  "(set_cursor (k\<lparr>if_flag := b\<rparr>))\<lparr>if_flag := f\<rparr> = set_cursor (k\<lparr>if_flag := f\<rparr>)"
  by (simp add: kdefs Let_def)

lemma putc_con:
  assumes m: "maps_page k VIDEO F" and ok: "con_in s"
  shows "putc c (set_con F s k) = set_cursor (set_con F (con_putc c s) k)"
proof -
  obtain v x y where s: "s = (v, x, y)" by (cases s)
  let ?k = "k\<lparr>if_flag := False\<rparr>"
  have m': "maps_page ?k VIDEO F" using m by simp
  have row: "next_row (set_con F s ?k) = set_con F (con_row s) ?k"
    using next_row_con [OF m', of v x y] by (simp add: s set_con_def con_row_def)
  have cell: "put_cell i c ATTRIB (con F v x y ?k) = con F (pg_cell (nat i) c ATTRIB v) x y ?k"
    if "0 \<le> i" "i < 2000" for i v x y
    using that by (rule put_cell_con [OF m'])
  have fl: "(set_cursor (con F v x y ?k))\<lparr>if_flag := if_flag k\<rparr> = set_cursor (con F v x y k)" for v x y
    using set_cursor_flag [where k = "con F v x y k" and b = False and f = "if_flag k"] by simp
  show ?thesis
    using ok row unfolding s putc_def
    by (auto simp: kdefs(1-5) set_con_def con_row_def con_putc_def con_in_def cell fl Let_def
        split: if_splits)
qed

lemma con_of_ok: "con_in (con_of F k) \<longleftrightarrow> cursor_ok k"
  by (simp add: con_in_def con_of_def cursor_ok_def)

lemma putc_eq:
  assumes "maps_page k VIDEO F" and "cursor_ok k"
  shows "putc c k = set_cursor (set_con F (con_putc c (con_of F k)) k)"
proof -
  have "set_con F (con_of F k) k = k" by (simp add: set_con_def con_of_def con_self)
  with putc_con [OF assms(1), of "con_of F k" c] assms(2) show ?thesis by (simp add: con_of_ok)
qed

definition tty_con :: "(nat \<Rightarrow> u8) \<times> int \<times> int \<Rightarrow> tty" where
  "tty_con s = (let (v, x, y) = s in \<lparr>cell = cells_of v, cx = nat x, cy = nat y\<rparr>)"

lemma tty_con_row: "con_in s \<Longrightarrow> tty_con (con_row s) = tty_row (tty_con s)"
  by (auto simp: tty_con_def con_row_def tty_row_def con_in_def cells_of_scroll Let_def nat_add_distrib
      split: prod.splits)

lemma tty_con_cell:
  assumes "0 \<le> x" "x < 80" "0 \<le> y" "y < 25"
  shows "tty_con (pg_cell (nat (80 * y + x)) c ATTRIB v, x + 1, y) =
    (let t = tty_con (v, x, y)
     in t\<lparr>cell := (cell t)(80 * cy t + cx t := (c, ATTRIB)), cx := cx t + 1\<rparr>)"
proof -
  have "nat (80 * y + x) = 80 * nat y + nat x" "nat (80 * y + x) < 2000" "nat (x + 1) = nat x + 1"
    using assms by (auto simp: nat_add_distrib nat_mult_distrib)
  then show ?thesis by (simp add: tty_con_def cells_of_cell Let_def)
qed

lemma tty_con_putc:
  assumes "con_in s"
  shows "tty_con (con_putc c s) = tty_putc c (tty_con s)"
proof -
  let ?s = "if fst (snd s) = 80 then con_row s else s"
  have cx: "cx (tty_con s) = 80 \<longleftrightarrow> fst (snd s) = 80"
    by (auto simp: tty_con_def split: prod.splits)
  have "con_in ?s" "fst (snd ?s) < 80"
    using assms con_in_row [OF assms] by (auto simp: con_in_def con_row_def split: prod.splits)
  then have "c \<noteq> 10 \<and> c \<noteq> 13 \<Longrightarrow> tty_con (con_putc c s) =
      (let t = tty_con ?s in t\<lparr>cell := (cell t)(80 * cy t + cx t := (c, ATTRIB)), cx := cx t + 1\<rparr>)"
    by (cases ?s) (simp add: con_putc_def con_in_def tty_con_cell)
  moreover have "tty_con ?s = (if cx (tty_con s) = 80 then tty_row (tty_con s) else tty_con s)"
    using tty_con_row [OF assms] cx by simp
  ultimately show ?thesis
    using tty_con_row [OF assms] by (auto simp: tty_putc_def con_putc_def)
qed

text \<open>
  The frame of the output routines: apart from the cursor, memory, the cursor saved in the
  running terminal and the ports, nothing changes. This holds whatever the mapping and the cursor
  are.
\<close>

definition out_frame :: "kernel \<Rightarrow> kernel \<Rightarrow> bool" where
  "out_frame k k' \<longleftrightarrow>
     k' = k\<lparr>screen_x := screen_x k', screen_y := screen_y k', phys := phys k',
            terminals := terminals k', outs := outs k'\<rparr> \<and>
     terminals k' = (terminals k)(curr_process k := (terminals k (curr_process k))
       \<lparr>screen_x_save := screen_x_save (terminals k' (curr_process k)),
        screen_y_save := screen_y_save (terminals k' (curr_process k))\<rparr>)"

lemma out_frame_refl [simp]: "out_frame k k"
  by (simp add: out_frame_def)

lemma out_frameE:
  assumes "out_frame k k'"
  obtains x y m ts os where "k' = k\<lparr>screen_x := x, screen_y := y, phys := m, terminals := ts, outs := os\<rparr>"
  using assms unfolding out_frame_def by blast

lemma out_frameD:
  assumes "out_frame k k'"
  shows "addr_of k' = addr_of k" "tabs k' = tabs k" "active k' = active k" "if_flag k' = if_flag k"
    "on_screen k' = on_screen k" "curr_process k' = curr_process k" "curr_ter k' = curr_ter k"
    "pcbs k' = pcbs k" "used_pids k' = used_pids k" "fs k' = fs k" "esp k' = esp k" "ebp k' = ebp k"
    "tss k' = tss k" "higher_freq k' = higher_freq k" "master_mask k' = master_mask k"
    "slave_mask k' = slave_mask k" "fresh k' = fresh k"
    "rtc_interrupt_flags k' = rtc_interrupt_flags k" "shift_pressed k' = shift_pressed k"
    "control_pressed k' = control_pressed k" "caps_lock_on k' = caps_lock_on k"
    "alt_pressed k' = alt_pressed k" "idt k' = idt k"
  by (rule out_frameE [OF assms], simp)+

lemma out_frame_terminal:
  assumes "out_frame k k'"
  shows "t \<noteq> curr_process k \<Longrightarrow> terminals k' t = terminals k t"
    and "typing (terminals k' t) = typing (terminals k t)" "typed (terminals k' t) = typed (terminals k t)"
    "history (terminals k' t) = history (terminals k t)" "buf_len (terminals k' t) = buf_len (terminals k t)"
    "buffer_updated (terminals k' t) = buffer_updated (terminals k t)"
    "written_bytes (terminals k' t) = written_bytes (terminals k t)"
    "prog_curr_pid (terminals k' t) = prog_curr_pid (terminals k t)"
    "prog_par_pid (terminals k' t) = prog_par_pid (terminals k t)"
proof -
  obtain x y where "terminals k' = (terminals k)(curr_process k :=
      (terminals k (curr_process k))\<lparr>screen_x_save := x, screen_y_save := y\<rparr>)"
    using assms unfolding out_frame_def by blast
  then show "t \<noteq> curr_process k \<Longrightarrow> terminals k' t = terminals k t"
    and "typing (terminals k' t) = typing (terminals k t)" "typed (terminals k' t) = typed (terminals k t)"
    "history (terminals k' t) = history (terminals k t)" "buf_len (terminals k' t) = buf_len (terminals k t)"
    "buffer_updated (terminals k' t) = buffer_updated (terminals k t)"
    "written_bytes (terminals k' t) = written_bytes (terminals k t)"
    "prog_curr_pid (terminals k' t) = prog_curr_pid (terminals k t)"
    "prog_par_pid (terminals k' t) = prog_par_pid (terminals k t)"
    by simp_all
qed

lemma out_frame_trans:
  assumes "out_frame k k'" and "out_frame k' k''"
  shows "out_frame k k''"
proof -
  note d = out_frameD(6) [OF assms(1)]
  have "k'' = k\<lparr>screen_x := screen_x k'', screen_y := screen_y k'', phys := phys k'',
      terminals := terminals k'', outs := outs k''\<rparr>"
    using assms by (elim out_frameE) simp
  moreover obtain x y where 1: "terminals k' = (terminals k)(curr_process k :=
      (terminals k (curr_process k))\<lparr>screen_x_save := x, screen_y_save := y\<rparr>)"
    using assms(1) unfolding out_frame_def by blast
  moreover obtain x y where 2: "terminals k'' = (terminals k')(curr_process k :=
      (terminals k' (curr_process k))\<lparr>screen_x_save := x, screen_y_save := y\<rparr>)"
    using assms(2) unfolding out_frame_def d by blast
  ultimately show ?thesis unfolding out_frame_def by simp
qed

lemma out_frame_upd [simp]:
  "out_frame k (k\<lparr>phys := m\<rparr>)" "out_frame k (k\<lparr>screen_x := x\<rparr>)" "out_frame k (k\<lparr>screen_y := y\<rparr>)"
  by (simp_all add: out_frame_def)

lemma out_frame_flag:
  assumes "out_frame (k\<lparr>if_flag := b\<rparr>) k'"
  shows "out_frame k (k'\<lparr>if_flag := if_flag k\<rparr>)"
proof -
  obtain x y where "terminals k' = (terminals k)(curr_process k :=
      (terminals k (curr_process k))\<lparr>screen_x_save := x, screen_y_save := y\<rparr>)"
    using assms unfolding out_frame_def by auto
  moreover have "k'\<lparr>if_flag := if_flag k\<rparr> = k\<lparr>screen_x := screen_x k', screen_y := screen_y k', phys := phys k',
      terminals := terminals k', outs := outs k'\<rparr>"
    using assms by (elim out_frameE) simp
  ultimately show ?thesis unfolding out_frame_def by simp
qed

lemma set_cursor_out: "out_frame k (set_cursor k)"
  by (cases "on_screen k = 0")
    (simp_all add: out_frame_def set_cursor_def save_cursor_def upd_terminal_def update_cursor_def
      outb_def Let_def)

lemma out_frame_if: "out_frame k a \<Longrightarrow> out_frame k b \<Longrightarrow> out_frame k (if c then a else b)"
  by simp

lemmas [frame] = out_frame_refl out_frame_if
  out_frame_trans [OF _ out_frame_upd(1)] out_frame_trans [OF _ out_frame_upd(2)]
  out_frame_trans [OF _ out_frame_upd(3)] out_frame_trans [OF _ set_cursor_out]

lemma vwrite_out [frame]: "out_frame k k' \<Longrightarrow> out_frame k (vwrite a b k')"
  by (auto simp: vwrite_def intro: frame split: option.split)

lemma fold_out: "(\<And>x k'. out_frame k k' \<Longrightarrow> out_frame k (f x k')) \<Longrightarrow> out_frame k k' \<Longrightarrow> out_frame k (fold f xs k')"
  by (induction xs arbitrary: k') auto

lemma put_cell_out [frame]: "out_frame k k' \<Longrightarrow> out_frame k (put_cell i c a k')"
  unfolding put_cell_def by (intro frame)

lemma copy_cell_out [frame]: "out_frame k k' \<Longrightarrow> out_frame k (copy_cell d s k')"
  unfolding copy_cell_def Let_def by (intro frame)

lemma scroll_up_out [frame]: "out_frame k k' \<Longrightarrow> out_frame k (scroll_up k')"
  unfolding scroll_up_def Let_def by (intro fold_out frame)

lemma clear_out [frame]: "out_frame k k' \<Longrightarrow> out_frame k (clear k')"
  unfolding clear_def by (intro fold_out frame)

lemma next_row_out [frame]: "out_frame k k' \<Longrightarrow> out_frame k (next_row k')"
  unfolding next_row_def Let_def by (intro frame)

lemma putc_self_out: "out_frame k (putc c k)"
  unfolding putc_def cli_and_save_def cli_def restore_flags_def prod.case Let_def
  by (rule out_frame_flag [where b = False]) (intro frame)

lemmas putc_out [frame] = out_frame_trans [OF _ putc_self_out]

lemma screen_backspace_out [frame]: "out_frame k k' \<Longrightarrow> out_frame k (screen_backspace k')"
  unfolding screen_backspace_def Let_def by (intro frame)

lemma reset_cursor_out [frame]: "out_frame k k' \<Longrightarrow> out_frame k (reset_cursor k')"
  by (erule out_frame_trans) (simp add: out_frame_def reset_cursor_def save_cursor_def upd_terminal_def)

text \<open>With the video page mapped to \<open>F\<close>, memory changes in the first 4000 bytes of \<open>F\<close> only.\<close>

definition con_frame :: "u32 \<Rightarrow> kernel \<Rightarrow> kernel \<Rightarrow> bool" where
  "con_frame F k k' \<longleftrightarrow> out_frame k k' \<and> (\<forall>p. \<not> p - F < 4000 \<longrightarrow> phys k' p = phys k p)"

lemma con_frame_refl [simp]: "con_frame F k k"
  by (simp add: con_frame_def)

lemma con_frame_phys: "con_frame F k k' \<Longrightarrow> \<not> p - F < 4000 \<Longrightarrow> phys k' p = phys k p"
  unfolding con_frame_def by blast

lemma con_frame_out: "con_frame F k k' \<Longrightarrow> out_frame k k'"
  by (simp add: con_frame_def)

lemmas con_frameD = out_frameD [OF con_frame_out]
  and con_frame_terminal = out_frame_terminal [OF con_frame_out]

lemma con_frame_maps: "con_frame F k k' \<Longrightarrow> maps_page k' = maps_page k"
  by (intro maps_page_cong) (simp_all add: con_frameD)

lemma con_frame_trans: "con_frame F k k' \<Longrightarrow> con_frame F k' k'' \<Longrightarrow> con_frame F k k''"
  unfolding con_frame_def using out_frame_trans by metis

lemma pg_cell_tail: "i < 2000 \<Longrightarrow> 4000 \<le> b \<Longrightarrow> pg_cell i c a v b = v b"
  by (simp add: pg_cell_def)

lemma con_putc_tail:
  assumes "con_in s" and "4000 \<le> b"
  shows "fst (con_putc c s) b = fst s b"
proof -
  let ?s = "if fst (snd s) = 80 then con_row s else s"
  have row: "fst (con_row s) b = fst s b"
    using assms(2) by (cases s) (simp add: con_row_def pg_scroll_def)
  have "con_in ?s" "fst (snd ?s) < 80"
    using assms con_in_row [OF assms(1)] by (auto simp: con_in_def con_row_def split: prod.splits)
  then have "nat (80 * snd (snd ?s) + fst (snd ?s)) < 2000"
    by (cases ?s) (simp add: con_in_def nat_less_iff)
  then have "fst (case ?s of (v, x, y) \<Rightarrow> (pg_cell (nat (80 * y + x)) c ATTRIB v, x + 1, y)) b = fst ?s b"
    using assms(2) by (cases ?s) (simp add: pg_cell_tail)
  with row show ?thesis by (simp add: con_putc_def split del: if_split) simp
qed

lemma set_cursor_phys [simp]: "phys (set_cursor k) = phys k"
  by (simp add: kdefs Let_def)

lemma set_cursor_frame: "con_frame F k (set_cursor k)"
  by (simp add: con_frame_def set_cursor_out)

lemma set_con_frame:
  assumes "\<And>b. 4000 \<le> b \<Longrightarrow> fst s b = page_of (phys k) F b"
  shows "con_frame F k (set_con F s k)"
proof -
  obtain v x y where s: "s = (v, x, y)" by (cases s)
  have "v (unat (p - F)) = phys k p" if "\<not> p - F < 4000" for p
    using assms [of "unat (p - F)"] that by (simp add: s page_of_def word_less_nat_alt)
  moreover have "out_frame k (set_con F s k)"
    by (simp add: s set_con_def con_def out_frame_def)
  ultimately show ?thesis by (auto simp: s set_con_def con_def con_frame_def overlay_def)
qed

lemma set_cursor_sel [simp]:
  "screen_x (set_cursor k) = screen_x k" "screen_y (set_cursor k) = screen_y k"
  "screen_x_save (terminals (set_cursor k) (curr_process k)) = screen_x k"
  "screen_y_save (terminals (set_cursor k) (curr_process k)) = screen_y k"
  by (simp_all add: kdefs Let_def)

lemma tty_of_con: "tty_of F (set_cursor (set_con F s k)) = tty_con s"
proof -
  have "cells_of (page_of (overlay F v m) F) = cells_of v" for v m
    by (rule ext) (simp add: cells_of_def)
  then show ?thesis
    by (simp add: tty_of_def tty_con_def set_con_def con_def split: prod.split)
qed

lemma putc_refine:
  assumes "maps_page k VIDEO F" and "cursor_ok k"
  shows "tty_of F (putc c k) = tty_putc c (tty_of F k)" and "cursor_ok (putc c k)"
    and "con_frame F k (putc c k)"
    and "screen_x_save (terminals (putc c k) (curr_process k)) = screen_x (putc c k)"
    and "screen_y_save (terminals (putc c k) (curr_process k)) = screen_y (putc c k)"
proof -
  let ?s = "con_putc c (con_of F k)"
  note eq = putc_eq [OF assms, of c]
  have "con_in (con_of F k)" using assms(2) by (simp add: con_of_ok)
  note s = tty_con_putc [OF this, of c] con_in_putc [OF this, of c] con_putc_tail [OF this, of _ c]
  show "tty_of F (putc c k) = tty_putc c (tty_of F k)"
    by (simp only: eq tty_of_con s(1)) (simp add: tty_con_def con_of_def tty_of_def)
  show "cursor_ok (putc c k)"
    using s(2) by (auto simp: eq cursor_ok_def set_con_def con_in_def split: prod.splits)
  have "con_frame F k (set_con F ?s k)" by (rule set_con_frame) (simp add: s(3), simp add: con_of_def)
  then show "con_frame F k (putc c k)"
    unfolding eq by (rule con_frame_trans [OF _ set_cursor_frame])
  have "curr_process (set_con F ?s k) = curr_process k" by (simp add: set_con_def split: prod.split)
  then show "screen_x_save (terminals (putc c k) (curr_process k)) = screen_x (putc c k)"
    "screen_y_save (terminals (putc c k) (curr_process k)) = screen_y (putc c k)"
    using set_cursor_sel(3,4) [of "set_con F ?s k"] by (simp_all add: eq)
qed

subsection \<open>Backspace\<close>

definition con_back :: "(nat \<Rightarrow> u8) \<times> int \<times> int \<Rightarrow> (nat \<Rightarrow> u8) \<times> int \<times> int" where
  "con_back s =
     (let (v, x, y) = s in
      if x = 0 \<and> y = 0 then s
      else let (x', y') = (if x = 0 then (79, y - 1) else (x - 1, y))
           in (pg_cell (nat (80 * y' + x')) SPACE ATTRIB v, x', y'))"

lemma con_in_back: "con_in s \<Longrightarrow> con_in (con_back s)"
  by (auto simp: con_in_def con_back_def split: prod.splits if_splits)

lemma screen_backspace_eq:
  assumes "maps_page k VIDEO F" and "cursor_ok k"
  shows "screen_backspace k =
    (if on_screen k \<noteq> 0 \<and> (screen_x k \<noteq> 0 \<or> screen_y k \<noteq> 0) then set_cursor else id)
      (set_con F (con_back (con_of F k)) k)"
proof -
  define v x y where "v = page_of (phys k) F" and "x = screen_x k" and "y = screen_y k"
  have k: "con F v x y k = k" by (simp add: v_def x_def y_def con_self)
  have cell: "put_cell i SPACE ATTRIB (con F v x y k) = con F (pg_cell (nat i) SPACE ATTRIB v) x y k"
    if "0 \<le> i" "i < 2000" for i x y
    using that by (rule put_cell_con [OF assms(1)])
  have "k\<lparr>screen_y := y', screen_x := x'\<rparr> = con F v x' y' k" "k\<lparr>screen_x := x'\<rparr> = con F v x' y k" for x' y'
    by (subst (1) k [symmetric], simp)+
  note upd = this
  show ?thesis
  proof (cases "x = 0 \<and> y = 0")
    case True
    then show ?thesis
      using k by (simp add: screen_backspace_def con_back_def con_of_def set_con_def flip: v_def x_def y_def)
  next
    case False
    then show ?thesis
      using assms(2) unfolding screen_backspace_def con_back_def con_of_def set_con_def cursor_ok_def
      by (auto simp: upd cell Let_def simp flip: v_def x_def y_def split: if_splits)
  qed
qed

lemma tty_con_back:
  assumes "con_in s"
  shows "tty_con (con_back s) = tty_back (tty_con s)"
proof -
  obtain v x y where s: "s = (v, int x, int y)" and ok: "x \<le> 80" "y < 25"
    using assms by (cases s) (auto simp: con_in_def elim!: nonneg_int_cases)
  consider "x = 0 \<and> y = 0" | r where "x = 0" "y = Suc r" | c where "x = Suc c"
    by (metis not0_implies_Suc)
  then show ?thesis
  proof cases
    case 2
    have "nat (80 * (int (Suc r) - 1) + 79) = 80 * r + 79" "nat (1 + int r) = Suc r" by simp_all
    with 2 ok show ?thesis
      by (simp add: s con_back_def tty_con_def tty_back_def cells_of_cell Let_def add.commute)
  next
    case 3
    have "nat (80 * int y + (int (Suc c) - 1)) = 80 * y + c" "nat (1 + int c) = Suc c" by simp_all
    with 3 ok show ?thesis
      by (simp add: s con_back_def tty_con_def tty_back_def cells_of_cell Let_def add.commute)
  qed (simp add: s con_back_def tty_con_def tty_back_def)
qed

lemma con_back_tail:
  assumes "con_in s" and "4000 \<le> b"
  shows "fst (con_back s) b = fst s b"
  using assms by (auto simp: con_back_def con_in_def pg_cell_tail nat_less_iff Let_def split: prod.splits)

lemma backspace_refine:
  assumes "maps_page k VIDEO F" and "cursor_ok k"
  shows "tty_of F (screen_backspace k) = tty_back (tty_of F k)" and "cursor_ok (screen_backspace k)"
    and "con_frame F k (screen_backspace k)"
proof -
  let ?s = "con_back (con_of F k)"
  have ok: "con_in (con_of F k)" using assms(2) by (simp add: con_of_ok)
  have frame: "con_frame F k (set_con F ?s k)"
    using con_back_tail [OF ok] by (intro set_con_frame) (simp, simp add: con_of_def)
  have tty: "tty_of F (set_con F ?s k) = tty_con ?s"
    using tty_of_con [of F ?s k] by (simp add: tty_of_def)
  have sel: "cursor_ok (set_con F ?s k)"
    using con_in_back [OF ok] by (auto simp: cursor_ok_def set_con_def con_in_def split: prod.splits)
  note eq = screen_backspace_eq [OF assms]
  show "tty_of F (screen_backspace k) = tty_back (tty_of F k)"
    unfolding eq using tty tty_of_con [of F ?s k] tty_con_back [OF ok]
    by (simp add: tty_of_def tty_con_def con_of_def)
  show "cursor_ok (screen_backspace k)" using sel by (simp add: eq cursor_ok_def)
  show "con_frame F k (screen_backspace k)"
    using con_frame_trans [OF frame set_cursor_frame] frame by (simp add: eq)
qed

subsection \<open>Copying whole pages\<close>

definition pages_apart :: "u32 \<Rightarrow> u32 \<Rightarrow> bool" where
  "pages_apart P Q \<longleftrightarrow> 4096 \<le> P - Q \<and> 4096 \<le> Q - P"

lemma pages_apart_sym: "pages_apart P Q \<longleftrightarrow> pages_apart Q P"
  by (auto simp: pages_apart_def)

lemma overlay_apart:
  assumes "pages_apart P Q" and "i < 4096"
  shows "page_of (overlay P v m) Q i = page_of m Q i"
proof -
  have "unat (P - Q) + unat (Q - P) = 2 ^ 32"
    using assms(1) unat_u32 [of P] unat_u32 [of Q]
    by (cases "unat P \<le> unat Q"; cases "unat Q \<le> unat P")
      (auto simp: pages_apart_def unat_sub_if' word_le_nat_alt)
  then have "\<not> (Q - P) + of_nat i < 4096"
    using assms by (simp add: pages_apart_def word_le_nat_alt word_less_nat_alt unat_word_ariths wsimps)
  then show ?thesis by (simp add: page_of_def overlay_def algebra_simps)
qed

lemma overlay_apart_swap:
  "pages_apart P Q \<Longrightarrow> overlay P v (overlay Q w m) = overlay Q w (overlay P v m)"
proof (rule ext)
  fix p
  assume apart: "pages_apart P Q"
  have "\<not> (p - P < 4096 \<and> p - Q < 4096)"
  proof
    assume *: "p - P < 4096 \<and> p - Q < 4096"
    then have "page_of (overlay P (\<lambda>_. 1) (\<lambda>_. 0)) Q (unat (p - Q)) = 0"
      using overlay_apart [OF apart, of "unat (p - Q)" "\<lambda>_. 1" "\<lambda>_. 0"]
      by (simp add: page_of_def word_less_nat_alt)
    with * show False by (simp add: page_of_def overlay_def)
  qed
  then show "overlay P v (overlay Q w m) p = overlay Q w (overlay P v m) p"
    by (auto simp: overlay_def)
qed

lemma vcopy_page:
  assumes d: "maps_page k d D" and s: "maps_page k s S" and apart: "D = S \<or> pages_apart D S" and "n \<le> 4096"
  shows "vcopy d s n k = k\<lparr>phys := overlay D
    (\<lambda>i. if i < n then page_of (phys k) S i else page_of (phys k) D i) (phys k)\<rparr>"
  using assms(4) unfolding vcopy_def
proof (induction n)
  case 0
  show ?case by (simp add: overlay_self)
next
  case (Suc n)
  let ?w = "\<lambda>n i. if i < n then page_of (phys k) S i else page_of (phys k) D i"
  let ?k = "k\<lparr>phys := overlay D (?w n) (phys k)\<rparr>"
  have "vmem ?k (s + of_nat n) = page_of (overlay D (?w n) (phys k)) S n"
    using vmem_page [of ?k s S n] s Suc.prems by simp
  also have "\<dots> = page_of (phys k) S n"
    using apart Suc.prems overlay_apart [of D S n] by auto
  finally have "vwrite (d + of_nat n) (vmem ?k (s + of_nat n)) ?k =
      k\<lparr>phys := overlay D ((?w n)(n := page_of (phys k) S n)) (phys k)\<rparr>"
    using vwrite_page [OF d, of n] Suc.prems by simp
  moreover have "(?w n)(n := page_of (phys k) S n) = ?w (Suc n)" by (rule ext) auto
  ultimately show ?case using Suc by simp
qed

lemma vcopy_whole:
  assumes "maps_page k d D" and "maps_page k s S" and "D = S \<or> pages_apart D S"
  shows "vcopy d s 4096 k = k\<lparr>phys := overlay D (page_of (phys k) S) (phys k)\<rparr>"
  using vcopy_page [OF assms, of 4096]
    overlay_cong [of "\<lambda>i. if i < 4096 then page_of (phys k) S i else page_of (phys k) D i" "page_of (phys k) S"]
  by simp

lemma swap_vid_mem_page:
  assumes "paging_ok k" and "0 \<le> old" and "old < 3" and "0 \<le> new" and "new < 3"
    and "vid_page k = VIDEO"
  shows "swap_vid_mem old new k = k\<lparr>phys :=
    (let m1 = overlay (backing old) (page_of (phys k) VIDEO) (phys k)
     in overlay VIDEO (page_of m1 (backing new)) m1)\<rparr>"
proof -
  have apart: "pages_apart (backing t) VIDEO" "pages_apart VIDEO (backing t)" if "0 \<le> t" "t < 3" for t
    using that by (auto elim!: terminal_cases simp: backing_def pages_apart_def)
  have "vcopy (backing old) VIDEO 4096 k =
      k\<lparr>phys := overlay (backing old) (page_of (phys k) VIDEO) (phys k)\<rparr>" (is "_ = ?k1")
    using assms maps_video [OF assms(1)] maps_backing [OF assms(1-3)] apart
    by (intro vcopy_whole) auto
  moreover have "vcopy VIDEO (backing new) 4096 ?k1 =
      ?k1\<lparr>phys := overlay VIDEO (page_of (phys ?k1) (backing new)) (phys ?k1)\<rparr>"
    using assms maps_video [OF assms(1)] maps_backing [OF assms(1,4,5)] apart
    by (intro vcopy_whole) auto
  ultimately show ?thesis
    unfolding swap_vid_mem_def backing_def [symmetric] Let_def by simp
qed

subsection \<open>Strings\<close>

lemma puts_loop_cstr:
  "is_cstr s n \<Longrightarrow> j \<le> n \<Longrightarrow>
     puts_loop s (int j) k = Some (int n, fold putc (drop j (bytes s n)) k)"
proof (induction "n - j" arbitrary: j k)
  case 0
  then have "j = n" by simp
  with 0 show ?case by (subst puts_loop.simps) (simp add: is_cstrD)
next
  case (Suc d)
  then have j: "j < n" "d = n - Suc j" by simp_all
  have "puts_loop s (int (Suc j)) k' = Some (int n, fold putc (drop (Suc j) (bytes s n)) k')" for k'
    using Suc.hyps(1) [of "Suc j"] Suc.prems j by simp
  then show ?case
    using j is_cstrD(2) [OF Suc.prems(1), of j]
    by (subst puts_loop.simps) (simp add: Cons_nth_drop_Suc [symmetric] add.commute)
qed

lemma puts_cstr: "is_cstr s n \<Longrightarrow> puts s k = Some (int n, fold putc (bytes s n) k)"
  using puts_loop_cstr [of s n 0 k] by (simp add: puts_def)

lemma fold_putc_refine:
  assumes "maps_page k VIDEO F" and "cursor_ok k"
  shows "tty_of F (fold putc cs k) = fold tty_putc cs (tty_of F k) \<and>
    cursor_ok (fold putc cs k) \<and> con_frame F k (fold putc cs k)"
  using assms
proof (induction cs arbitrary: k)
  case (Cons c cs)
  note r = putc_refine [OF Cons.prems, of c]
  have "maps_page (putc c k) VIDEO F" using Cons.prems(1) con_frame_maps [OF r(3)] by simp
  from Cons.IH [OF this r(2)] con_frame_trans [OF r(3)] r(1) show ?case by auto
qed simp

subsection \<open>The hardware cursor\<close>

text \<open>
  The VGA controller: a byte on port 0x3D4 selects a register and a byte on 0x3D5 sets it; the
  cursor is drawn at the cell number in registers 0x0E (high) and 0x0F (low).
\<close>

fun crtc_replay :: "(u16 \<times> u8) list \<Rightarrow> u8 \<times> (u8 \<Rightarrow> u8)" where
  "crtc_replay [] = (0, \<lambda>_. 0)"
| "crtc_replay ((port, d) # ws) =
     (let (sel, regs) = crtc_replay ws
      in if port = 0x3D4 then (d, regs) else if port = 0x3D5 then (sel, regs(sel := d)) else (sel, regs))"

definition crtc_cursor :: "(u16 \<times> u8) list \<Rightarrow> nat" where
  "crtc_cursor ws = (let regs = snd (crtc_replay ws) in 256 * unat (regs 0x0E) + unat (regs 0x0F))"

lemma u16_bytes: "256 * unat (ucast (drop_bit 8 (w :: u16) AND 0xFF) :: u8) + unat (ucast (w AND 0xFF) :: u8) = unat w"
proof -
  have "(w AND 0xFF) = take_bit 8 w" "(drop_bit 8 w AND 0xFF) = take_bit 8 (drop_bit 8 w)"
    by (simp_all add: take_bit_eq_mask mask_eq_exp_minus_1)
  moreover have "unat (ucast (take_bit 8 v) :: u8) = unat v mod 256" for v :: u16
    by (simp add: unsigned_ucast_eq unsigned_take_bit_eq take_bit_eq_mod unat_mod_distrib)
  moreover have "unat (drop_bit 8 w) = unat w div 256" "unat w div 256 < 256"
    using unsigned_less [of w, where 'a = nat]
    by (simp_all add: drop_bit_eq_div unat_div_distrib)
  ultimately show ?thesis by simp
qed

lemma update_cursor_hw:
  assumes "0 \<le> y * 80 + x" and "y * 80 + x < 65536"
  shows "int (crtc_cursor (outs (update_cursor x y k))) = y * 80 + x"
proof -
  let ?pos = "word_of_int (y * 80 + x) :: u16"
  have "crtc_cursor (outs (update_cursor x y k)) = unat ?pos"
    using u16_bytes [of ?pos]
    by (simp add: update_cursor_def outb_def crtc_cursor_def Let_def split: prod.split)
  moreover have "uint ?pos = y * 80 + x"
    using assms by (simp only: uint_word_of_int) simp
  ultimately show ?thesis by (simp only: uint_nat)
qed

lemma putc_hw:
  assumes "maps_page k VIDEO F" and "cursor_ok k" and "on_screen k \<noteq> 0"
  shows "int (crtc_cursor (outs (putc c k))) = screen_y (putc c k) * 80 + screen_x (putc c k)"
proof -
  let ?k = "set_con F (con_putc c (con_of F k)) k"
  note ok = putc_refine(2) [OF assms(1,2), of c]
  have eq: "putc c k = set_cursor ?k" by (rule putc_eq [OF assms(1,2)])
  have "on_screen ?k = on_screen k" by (simp add: set_con_def split: prod.split)
  then have "set_cursor ?k = update_cursor (screen_x ?k) (screen_y ?k) (save_cursor ?k)"
    using assms(3) by (simp add: set_cursor_def save_cursor_def upd_terminal_def Let_def)
  moreover have "0 \<le> screen_y ?k * 80 + screen_x ?k" "screen_y ?k * 80 + screen_x ?k < 65536"
    using ok by (simp_all add: eq cursor_ok_def)
  moreover have "screen_x (putc c k) = screen_x ?k" "screen_y (putc c k) = screen_y ?k"
    by (simp_all add: eq)
  ultimately show ?thesis
    using update_cursor_hw [of "screen_y ?k" "screen_x ?k" "save_cursor ?k"] eq by metis
qed

subsection \<open>Properties\<close>

text \<open>
  C17. \<open>putc\<close> implements the text screen: with the video page mapped to the frame \<open>F\<close> and
  the cursor on the screen, the page then shows what \<open>tty_putc\<close> makes of it (line ends, the
  wrap behind column 80 and the scroll included), the cursor is still on the screen, the saved
  cursor of the running terminal is the cursor, no byte of memory outside the 4000 bytes of the
  screen changes, the interrupt flag is what it was, and when the program is on the visible terminal
  the cursor registers of the VGA controller hold the cell number of the cursor.
\<close>

theorem putc_implements_tty:
  assumes "maps_page k 0xB8000 F" and "cursor_ok k"
  shows "tty_of F (putc c k) = tty_putc c (tty_of F k) \<and> cursor_ok (putc c k) \<and>
    (\<forall>p. \<not> p - F < 4000 \<longrightarrow> phys (putc c k) p = phys k p) \<and>
    screen_x_save (terminals (putc c k) (curr_process k)) = screen_x (putc c k) \<and>
    screen_y_save (terminals (putc c k) (curr_process k)) = screen_y (putc c k) \<and>
    if_flag (putc c k) = if_flag k \<and>
    (on_screen k \<noteq> 0 \<longrightarrow>
      int (crtc_cursor (outs (putc c k))) = screen_y (putc c k) * 80 + screen_x (putc c k))"
  using putc_refine [OF assms, of c] putc_hw [OF assms, of c] con_frameD(4) con_frame_phys by metis

theorem putc_implements_tty_witness:
  "cell (tty_of 0xB8000 (putc 65 boot_kernel)) 0 = (65, 7) \<and> cursor_ok (putc 65 boot_kernel)"
proof -
  have "maps_page boot_kernel 0xB8000 0xB8000" "cursor_ok boot_kernel"
    by (simp_all add: maps_page_def paddr_def cursor_ok_def boot_kernel_def)
  moreover have "cx (tty_of 0xB8000 boot_kernel) = 0" "cy (tty_of 0xB8000 boot_kernel) = 0"
    by (simp_all add: tty_of_def boot_kernel_def)
  ultimately show ?thesis
    using putc_implements_tty [of boot_kernel "0xB8000" 65] by (simp add: tty_putc_def Let_def)
qed

text \<open>
  \<open>screen_backspace\<close> undoes \<open>putc\<close> of a printable character: the cursor is back where
  it was and the cell it stands on is blank, provided the character did not start a new row.
\<close>

lemma backspace_undoes_putc:
  assumes "maps_page k 0xB8000 F" and "cursor_ok k" and "screen_x k < 80" and "c \<notin> {10, 13}"
  shows "tty_of F (screen_backspace (putc c k)) =
    (let t = tty_of F k in t\<lparr>cell := (cell t)(80 * cy t + cx t := (32, 7))\<rparr>)"
proof -
  note r = putc_refine [OF assms(1,2), of c]
  have "maps_page (putc c k) 0xB8000 F" using assms(1) con_frame_maps [OF r(3)] by simp
  from backspace_refine(1) [OF this r(2)] r(1)
  have "tty_of F (screen_backspace (putc c k)) = tty_back (tty_putc c (tty_of F k))" by simp
  moreover have "cx (tty_of F k) < 80"
    using assms(2,3) by (simp add: tty_of_def cursor_ok_def)
  ultimately show ?thesis
    using assms(4) by (simp add: tty_back_def tty_putc_def Let_def)
qed

lemma backspace_undoes_putc_witness:
  "cx (tty_of 0xB8000 (screen_backspace (putc 65 boot_kernel))) = 0"
proof -
  have "maps_page boot_kernel 0xB8000 0xB8000" "cursor_ok boot_kernel" "screen_x boot_kernel < 80"
    by (simp_all add: maps_page_def paddr_def cursor_ok_def boot_kernel_def)
  moreover have "cx (tty_of 0xB8000 boot_kernel) = 0" by (simp add: tty_of_def boot_kernel_def)
  ultimately show ?thesis
    using backspace_undoes_putc [of boot_kernel "0xB8000" 65] by (simp add: Let_def)
qed

end
