(* ===== verification/Keyboard.thy ===== *)
theory Keyboard
  imports Pic Screen
begin

section \<open>The keyboard and the three terminals\<close>

text \<open>
  \<open>src/student-distrib/keyboard.c\<close>: the handler of the keyboard interrupt, the line editor
  of the visible terminal, and the switch between terminals. The byte that the handler reads from
  the data port is its argument. \<open>session\<close> is the line editor it implements.
\<close>

subsection \<open>Scan codes\<close>

abbreviation (input) BUF_SIZE :: int where "BUF_SIZE \<equiv> 128"
abbreviation (input) KB_IRQ_NUM :: u32 where "KB_IRQ_NUM \<equiv> 1"
abbreviation (input) KB_KEY_DOWN_MASK :: u8 where "KB_KEY_DOWN_MASK \<equiv> 0x80"
abbreviation (input) KB_KEY_DOWN_UNMASK :: u8 where "KB_KEY_DOWN_UNMASK \<equiv> 0x7F"
abbreviation (input) L_SHIFT_DOWN :: u8 where "L_SHIFT_DOWN \<equiv> 0x2A"
abbreviation (input) L_SHIFT_UP :: u8 where "L_SHIFT_UP \<equiv> 0xAA"
abbreviation (input) R_SHIFT_DOWN :: u8 where "R_SHIFT_DOWN \<equiv> 0x36"
abbreviation (input) R_SHIFT_UP :: u8 where "R_SHIFT_UP \<equiv> 0xB6"
abbreviation (input) L_CTRL_DOWN :: u8 where "L_CTRL_DOWN \<equiv> 0x1D"
abbreviation (input) L_CTRL_UP :: u8 where "L_CTRL_UP \<equiv> 0x9D"
abbreviation (input) L_ALT_DOWN :: u8 where "L_ALT_DOWN \<equiv> 0x38"
abbreviation (input) L_ALT_UP :: u8 where "L_ALT_UP \<equiv> 0xB8"
abbreviation (input) CAPS_DOWN :: u8 where "CAPS_DOWN \<equiv> 0x3A"
abbreviation (input) UP_ARROW_DOWN :: u8 where "UP_ARROW_DOWN \<equiv> 0x48"
abbreviation (input) L_KEY_DOWN :: u8 where "L_KEY_DOWN \<equiv> 0x26"
abbreviation (input) F1_KEY_DOWN :: u8 where "F1_KEY_DOWN \<equiv> 0x3B"
abbreviation (input) F2_KEY_DOWN :: u8 where "F2_KEY_DOWN \<equiv> 0x3C"
abbreviation (input) F3_KEY_DOWN :: u8 where "F3_KEY_DOWN \<equiv> 0x3D"
abbreviation (input) CHAR_BACKSPACE :: u8 where "CHAR_BACKSPACE \<equiv> 8"
abbreviation (input) CHAR_NEWLINE :: u8 where "CHAR_NEWLINE \<equiv> 10"
abbreviation (input) CHAR_NON_PRINTABLE :: u8 where "CHAR_NON_PRINTABLE \<equiv> 0"

text \<open>The tables, by runs of characters; the 49 entries behind the keypad are zero.\<close>

definition chars :: "string \<Rightarrow> u8 list" where
  "chars s = map of_char s"

definition keypad :: "u8 list" where
  "keypad = replicate 16 0 @ chars ''-'' @ [0, 0, 0] @ chars ''+'' @ replicate 49 0"

definition kbdus :: "u8 list" where
  "kbdus = [0, 0] @ chars ''1234567890-='' @ [8, 9] @ chars ''qwertyuiop[]'' @ [10, 0] @
     chars ''asdfghjkl;'' @ [39, 96, 0, 92] @ chars ''zxcvbnm,./'' @ [0] @ chars ''*'' @ [0] @
     chars '' '' @ keypad"

definition shift_kbdus :: "u8 list" where
  "shift_kbdus = [0, 0] @ chars ''!@#$%^&*()_+'' @ [8, 9] @ chars ''QWERTYUIOP{}'' @ [10, 0] @
     chars ''ASDFGHJKL:'' @ [34, 126, 0, 124] @ chars ''ZXCVBNM<>?'' @ [0] @ chars ''*'' @ [0] @
     chars '' '' @ keypad"

definition caps_kbdus :: "u8 list" where
  "caps_kbdus = [0, 0] @ chars ''1234567890-='' @ [8, 9] @ chars ''QWERTYUIOP[]'' @ [10, 0] @
     chars ''ASDFGHJKL;'' @ [39, 96, 0, 92] @ chars ''ZXCVBNM,./'' @ [0] @ chars ''*'' @ [0] @
     chars '' '' @ keypad"

definition get_character_code :: "u8 \<Rightarrow> kernel \<Rightarrow> u8" where
  "get_character_code scancode k =
     (let i = unat (scancode AND KB_KEY_DOWN_UNMASK)
      in if shift_pressed k then shift_kbdus ! i
         else if caps_lock_on k then caps_kbdus ! i else kbdus ! i)"

subsection \<open>Line editing\<close>

text \<open>The terminal that is shown.\<close>

abbreviation (input) shown :: "kernel \<Rightarrow> terminal_state" where
  "shown k \<equiv> terminals k (curr_ter k)"

definition retype_buffer :: "kernel \<Rightarrow> kernel" where
  "retype_buffer k =
     fold (\<lambda>i k. putc (typing (shown k) (int i)) k) [0..<nat (buf_len (shown k))] k"

definition print_char :: "u8 \<Rightarrow> kernel \<Rightarrow> kernel" where
  "print_char c k =
     (if buf_len (shown k) \<ge> BUF_SIZE - 1 then k
      else putc c (upd_terminal (curr_ter k)
             (\<lambda>t. t\<lparr>typing := (typing t)(buf_len t := c), buf_len := buf_len t + 1\<rparr>) k))"

definition control_l :: "kernel \<Rightarrow> kernel" where
  "control_l k =
     (let (flags, k0) = cli_and_save k
      in restore_flags flags (retype_buffer (set_cursor (reset_cursor (clear k0)))))"

definition backspace :: "kernel \<Rightarrow> kernel" where
  "backspace k =
     (if buf_len (shown k) \<noteq> 0
      then upd_terminal (curr_ter k)
             (\<lambda>t. t\<lparr>buf_len := buf_len t - 1, typing := (typing t)(buf_len t - 1 := 0)\<rparr>)
             (screen_backspace k)
      else k)"

text \<open>Loops that copy an array or fill it with zeros, as the array they leave.\<close>

definition copy_upto :: "int \<Rightarrow> view \<Rightarrow> view \<Rightarrow> view" where
  "copy_upto n src dest i = (if 0 \<le> i \<and> i < n then src i else dest i)"

definition zero_range :: "int \<Rightarrow> int \<Rightarrow> view \<Rightarrow> view" where
  "zero_range a b v i = (if a \<le> i \<and> i < b then 0 else v i)"

definition commit_line :: "terminal_state \<Rightarrow> terminal_state" where
  "commit_line t =
     (let line = zero_range (buf_len t) BUF_SIZE (typing t)
      in t\<lparr>typed := copy_upto BUF_SIZE line (typed t), history := copy_upto BUF_SIZE line (history t),
           typing := zero_range 0 BUF_SIZE line, written_bytes := buf_len t + 1, buf_len := 0,
           buffer_updated := 1\<rparr>)"

definition enter_key :: "kernel \<Rightarrow> kernel" where
  "enter_key k = putc CHAR_NEWLINE (upd_terminal (curr_ter k) commit_line k)"

definition clear_buffer :: "kernel \<Rightarrow> kernel" where
  "clear_buffer k = upd_terminal (curr_ter k) (\<lambda>t. t\<lparr>typed := zero_range 0 BUF_SIZE (typed t)\<rparr>) k"

text \<open>The up arrow: the line is rubbed out and the last one takes its place.\<close>

definition recall_line :: "kernel \<Rightarrow> kernel option" where
  "recall_line k =
     (let k1 = fold (\<lambda>_. backspace) [0..<nat (buf_len (shown k))] k;
          k2 = upd_terminal (curr_ter k1) (\<lambda>t. t\<lparr>typing := copy_upto BUF_SIZE (history t) (typing t)\<rparr>) k1
      in case strlen (history (shown k2)) of
           None \<Rightarrow> None
         | Some n \<Rightarrow> Some (retype_buffer (upd_terminal (curr_ter k2) (\<lambda>t. t\<lparr>buf_len := sint n\<rparr>) k2)))"

subsection \<open>Switching terminals\<close>

definition switch_ter :: "int \<Rightarrow> int \<Rightarrow> kernel \<Rightarrow> int \<times> kernel" where
  "switch_ter old new k =
     (let k1 = change_vidmem old (swap_vid_mem old new k);
          k2 = k1\<lparr>curr_ter := new\<rparr>
      in (0, update_cursor (screen_x_save (terminals k2 new)) (screen_y_save (terminals k2 new)) k2))"

definition switch_terminal_or_return :: "int \<Rightarrow> kernel \<Rightarrow> kernel" where
  "switch_terminal_or_return n k =
     send_eoi KB_IRQ_NUM (if curr_ter k \<noteq> n then snd (switch_ter (curr_ter k) n k) else k)"

subsection \<open>The handler\<close>

definition handle_char :: "u8 \<Rightarrow> kernel \<Rightarrow> kernel" where
  "handle_char c k =
     (if c = CHAR_BACKSPACE then backspace k else if c = CHAR_NEWLINE then enter_key k
      else if c = CHAR_NON_PRINTABLE then k else print_char c k)"

definition key_down :: "u8 \<Rightarrow> kernel \<Rightarrow> kernel" where
  "key_down scancode k =
     (if control_pressed k \<and> scancode = L_KEY_DOWN then send_eoi KB_IRQ_NUM (control_l k)
      else if alt_pressed k \<and> scancode = F1_KEY_DOWN then switch_terminal_or_return 0 k
      else if alt_pressed k \<and> scancode = F2_KEY_DOWN then switch_terminal_or_return 1 k
      else if alt_pressed k \<and> scancode = F3_KEY_DOWN then switch_terminal_or_return 2 k
      else send_eoi KB_IRQ_NUM (handle_char (get_character_code scancode k) k))"

definition KB_handler :: "u8 \<Rightarrow> kernel \<Rightarrow> kernel option" where
  "KB_handler scancode k =
     map_option (\<lambda>k.
       if scancode = L_SHIFT_DOWN \<or> scancode = R_SHIFT_DOWN then send_eoi KB_IRQ_NUM (k\<lparr>shift_pressed := True\<rparr>)
       else if scancode = L_SHIFT_UP \<or> scancode = R_SHIFT_UP then send_eoi KB_IRQ_NUM (k\<lparr>shift_pressed := False\<rparr>)
       else if scancode = L_CTRL_DOWN then send_eoi KB_IRQ_NUM (k\<lparr>control_pressed := True\<rparr>)
       else if scancode = L_CTRL_UP then send_eoi KB_IRQ_NUM (k\<lparr>control_pressed := False\<rparr>)
       else if scancode = L_ALT_DOWN then send_eoi KB_IRQ_NUM (k\<lparr>alt_pressed := True\<rparr>)
       else if scancode = L_ALT_UP then send_eoi KB_IRQ_NUM (k\<lparr>alt_pressed := False\<rparr>)
       else if scancode = CAPS_DOWN then send_eoi KB_IRQ_NUM (k\<lparr>caps_lock_on := \<not> caps_lock_on k\<rparr>)
       else if scancode AND KB_KEY_DOWN_MASK = 0 then key_down scancode k
       else send_eoi KB_IRQ_NUM k)
     (if scancode = UP_ARROW_DOWN then recall_line k else Some k)"

declare zero_range_def [simp] copy_upto_def [simp]

subsection \<open>The line editor\<close>

text \<open>
  What the keyboard does to the terminal on the screen: its text screen, the line being typed,
  the last line entered as a reader will find it and as the up arrow recalls it, whether a
  reader has to be told, and the number it will be told.
\<close>

record session =
  scr :: tty
  line :: "u8 list"
  entered :: "u8 list"
  recalled :: "u8 list"
  ready :: bool
  count :: int

datatype key = Insert u8 | Rubout | Return | Recall | Redraw | Show int | Silent

definition key_of :: "kernel \<Rightarrow> u8 \<Rightarrow> key" where
  "key_of k scancode =
     (if scancode = 0x48 then Recall
      else if scancode \<in> {0x2A, 0x36, 0x1D, 0x38, 0x3A} \<or> scancode AND 0x80 \<noteq> 0 then Silent
      else if control_pressed k \<and> scancode = 0x26 then Redraw
      else if alt_pressed k \<and> scancode \<in> {0x3B, 0x3C, 0x3D} then Show (uint (scancode - 0x3B))
      else let c = get_character_code scancode k
           in if c = 8 then Rubout else if c = 10 then Return else if c = 0 then Silent else Insert c)"

definition blank_tty :: tty where
  "blank_tty = \<lparr>cell = (\<lambda>_. (SPACE, ATTRIB)), cx = 0, cy = 0\<rparr>"

fun session_step :: "key \<Rightarrow> session \<Rightarrow> session" where
  "session_step (Insert c) s =
     (if length (line s) < 127 then s\<lparr>scr := tty_putc c (scr s), line := line s @ [c]\<rparr> else s)"
| "session_step Rubout s =
     (if line s = [] then s else s\<lparr>scr := tty_back (scr s), line := butlast (line s)\<rparr>)"
| "session_step Return s =
     s\<lparr>scr := tty_putc 10 (scr s), line := [], entered := line s, recalled := line s,
       ready := True, count := int (length (line s)) + 1\<rparr>"
| "session_step Recall s =
     s\<lparr>scr := fold tty_putc (recalled s) ((tty_back ^^ length (line s)) (scr s)), line := recalled s\<rparr>"
| "session_step Redraw s = s\<lparr>scr := fold tty_putc (line s) blank_tty\<rparr>"
| "session_step (Show n) s = s"
| "session_step Silent s = s"

text \<open>The session that a terminal holds, with the screen in the page \<open>F\<close>.\<close>

definition text_of :: "tty \<Rightarrow> terminal_state \<Rightarrow> session" where
  "text_of s t = \<lparr>scr = s, line = bytes (typing t) (nat (buf_len t)), entered = cprefix 128 (typed t),
     recalled = cprefix 128 (history t), ready = (buffer_updated t \<noteq> 0), count = written_bytes t\<rparr>"

definition session_of :: "u32 \<Rightarrow> kernel \<Rightarrow> session" where
  "session_of F k = text_of (tty_of F k) (shown k)"

text \<open>
  The invariant of a terminal: the line fits its buffer with room for the end mark and has no NUL in it, and both
  copies of the last line end inside their buffers.
\<close>

definition term_ok :: "terminal_state \<Rightarrow> bool" where
  "term_ok t \<longleftrightarrow> 0 \<le> buf_len t \<and> buf_len t \<le> 127 \<and> 0 \<notin> set (bytes (typing t) (nat (buf_len t))) \<and>
     length (cprefix 128 (history t)) < 128 \<and> length (cprefix 128 (typed t)) < 128"

definition kb_ok :: "kernel \<Rightarrow> bool" where
  "kb_ok k \<longleftrightarrow> 0 \<le> curr_ter k \<and> curr_ter k < 3 \<and> (\<forall>t \<in> {0, 1, 2}. term_ok (terminals k t))"

subsection \<open>Terminals under editing\<close>

lemma text_out: "out_frame k k' \<Longrightarrow> text_of s (terminals k' t) = text_of s (terminals k t)"
  by (simp add: text_of_def out_frame_terminal)

lemma term_ok_out: "out_frame k k' \<Longrightarrow> term_ok (terminals k' t) = term_ok (terminals k t)"
  by (simp add: term_ok_def out_frame_terminal)

lemma upd_terminal_sel [simp]:
  "terminals (upd_terminal t f k) = (terminals k)(t := f (terminals k t))"
  "curr_ter (upd_terminal t f k) = curr_ter k" "curr_process (upd_terminal t f k) = curr_process k"
  "phys (upd_terminal t f k) = phys k" "active (upd_terminal t f k) = active k"
  "addr_of (upd_terminal t f k) = addr_of k" "tty_of F (upd_terminal t f k) = tty_of F k"
  "cursor_ok (upd_terminal t f k) = cursor_ok k" "maps_page (upd_terminal t f k) = maps_page k"
  "tabs (upd_terminal t f k) = tabs k" "pcbs (upd_terminal t f k) = pcbs k" "esp (upd_terminal t f k) = esp k"
  "used_pids (upd_terminal t f k) = used_pids k" "on_screen (upd_terminal t f k) = on_screen k"
proof -
  show "maps_page (upd_terminal t f k) = maps_page k"
    by (intro maps_page_cong) (simp_all add: upd_terminal_def)
qed (simp_all add: upd_terminal_def tty_of_def cursor_ok_def)

lemma bytes_upd: "bytes (v(int n := c)) (Suc n) = bytes v n @ [c]"
  by (simp add: bytes_def)

lemma bytes_butlast: "0 < n \<Longrightarrow> bytes (v(int n - 1 := c)) (n - Suc 0) = butlast (bytes v n)"
  by (cases n) (simp_all add: bytes_def)

lemma cprefix_copy: "0 \<le> n \<Longrightarrow> n \<le> 127 \<Longrightarrow> 0 \<notin> set (bytes v (nat n)) \<Longrightarrow>
    cprefix 128 (copy_upto 128 (zero_range n 128 v) w) = bytes v (nat n)"
proof -
  assume n: "0 \<le> n" "n \<le> 127" and nz: "0 \<notin> set (bytes v (nat n))"
  let ?w = "copy_upto 128 (zero_range n 128 v) w"
  have "v (int i) \<noteq> 0" if "i < nat n" for i
    using nz that unfolding set_bytes by (metis imageI lessThan_iff)
  then have "is_cstr ?w (nat n)" using n by (intro is_cstrI) auto
  then have "cprefix 128 ?w = bytes ?w (nat n)" using n cprefix_cstr [of ?w "nat n" 128] by simp
  also have "\<dots> = bytes v (nat n)" using n by (auto simp: bytes_eq_iff)
  finally show ?thesis .
qed

lemma commit_text:
  assumes "term_ok t"
  shows "text_of (tty_putc 10 s) (commit_line t) = session_step Return (text_of s t)" and "term_ok (commit_line t)"
proof -
  have t: "0 \<le> buf_len t" "buf_len t \<le> 127" "0 \<notin> set (bytes (typing t) (nat (buf_len t)))"
    using assms by (auto simp: term_ok_def)
  note c = cprefix_copy [OF t]
  show "text_of (tty_putc 10 s) (commit_line t) = session_step Return (text_of s t)"
    using t(1) by (simp add: text_of_def commit_line_def c Let_def del: copy_upto_def zero_range_def)
  show "term_ok (commit_line t)"
    using t by (simp add: term_ok_def commit_line_def c Let_def del: copy_upto_def zero_range_def)
qed
subsection \<open>Each key does its editing step\<close>

text \<open>What editing on the page \<open>F\<close> leaves alone.\<close>

definition kb_frame :: "u32 \<Rightarrow> kernel \<Rightarrow> kernel \<Rightarrow> bool" where
  "kb_frame F k k' \<longleftrightarrow> curr_ter k' = curr_ter k \<and> curr_process k' = curr_process k \<and>
     active k' = active k \<and> addr_of k' = addr_of k \<and> tabs k' = tabs k \<and>
     (\<forall>p. \<not> p - F < 4000 \<longrightarrow> phys k' p = phys k p) \<and>
     (\<forall>t s. t \<noteq> curr_ter k \<longrightarrow> text_of s (terminals k' t) = text_of s (terminals k t)) \<and>
     (\<forall>t. t \<noteq> curr_ter k \<longrightarrow> term_ok (terminals k' t) = term_ok (terminals k t))"

definition live :: "u32 \<Rightarrow> kernel \<Rightarrow> bool" where
  "live F k \<longleftrightarrow> maps_page k VIDEO F \<and> cursor_ok k \<and> term_ok (shown k)"

definition edits :: "u32 \<Rightarrow> (session \<Rightarrow> session) \<Rightarrow> kernel \<Rightarrow> kernel \<Rightarrow> bool" where
  "edits F f k k' \<longleftrightarrow> session_of F k' = f (session_of F k) \<and> live F k' \<and> kb_frame F k k'"

lemma edits_id: "live F k \<Longrightarrow> edits F (\<lambda>s. s) k k"
  by (simp add: edits_def kb_frame_def)

lemma kb_frame_trans: "kb_frame F k k' \<Longrightarrow> kb_frame F k' k'' \<Longrightarrow> kb_frame F k k''"
  unfolding kb_frame_def by metis

lemma edits_trans: "edits F f k k' \<Longrightarrow> edits F g k' k'' \<Longrightarrow> edits F (\<lambda>s. g (f s)) k k''"
  unfolding edits_def using kb_frame_trans by metis

text \<open>Output does to the screen what it does, and an update of the terminal does the rest.\<close>

lemma edits_output:
  assumes "live F k" and "con_frame F k k'" and "cursor_ok k'"
  shows "edits F (\<lambda>s. s\<lparr>scr := tty_of F k'\<rparr>) k k'"
proof -
  note out = con_frame_out [OF assms(2)]
  note sel = out_frameD [OF out]
  have "text_of s' t = (text_of s t)\<lparr>scr := s'\<rparr>" for s s' t by (simp add: text_of_def)
  then have "session_of F k' = (session_of F k)\<lparr>scr := tty_of F k'\<rparr>"
    by (metis session_of_def text_out [OF out] sel(7))
  moreover have "live F k'"
    using assms term_ok_out [OF out] con_frame_maps [OF assms(2)] by (simp add: live_def sel)
  moreover have "kb_frame F k k'"
    using con_frame_phys [OF assms(2)] text_out [OF out] term_ok_out [OF out] by (simp add: kb_frame_def sel)
  ultimately show ?thesis by (simp add: edits_def)
qed

lemma edits_text:
  assumes "live F k" and "\<And>s. text_of s (f (shown k)) = g (text_of s (shown k))" and "term_ok (f (shown k))"
  shows "edits F g k (upd_terminal (curr_ter k) f k)"
  using assms by (simp add: edits_def session_of_def live_def kb_frame_def)

lemma edits_putc: "live F k \<Longrightarrow> edits F (scr_update (tty_putc c)) k (putc c k)"
  using edits_output [of F k "putc c k"] putc_refine [of k F c]
  by (simp add: live_def edits_def session_of_def text_of_def)

lemma edits_fold_putc: "live F k \<Longrightarrow> edits F (scr_update (fold tty_putc cs)) k (fold putc cs k)"
  using edits_output [of F k "fold putc cs k"] fold_putc_refine [of k F cs]
  by (simp add: live_def edits_def session_of_def text_of_def)

lemma edits_screen_backspace: "live F k \<Longrightarrow> edits F (scr_update tty_back) k (screen_backspace k)"
  using edits_output [of F k "screen_backspace k"] backspace_refine [of k F]
  by (simp add: live_def edits_def session_of_def text_of_def)

lemma edits_live: "edits F f k k' \<Longrightarrow> live F k'"
  by (simp add: edits_def)

lemma retype_buffer_eq: "retype_buffer k = fold putc (bytes (typing (shown k)) (nat (buf_len (shown k)))) k"
proof -
  have "fold (\<lambda>i k. putc (typing (shown k) (int i)) k) is k =
      fold putc (map (\<lambda>i. typing (shown k) (int i)) is) k" for "is"
  proof (induction "is" arbitrary: k)
    case (Cons i "is")
    have "curr_ter (putc c k) = curr_ter k" "typing (terminals (putc c k) t) = typing (terminals k t)" for c t
      using out_frameD(7) [OF putc_self_out] out_frame_terminal(2) [OF putc_self_out] by auto
    with Cons show ?case by simp
  qed simp
  then show ?thesis by (simp add: retype_buffer_def bytes_def)
qed

lemma edits_retype: "live F k \<Longrightarrow> edits F (\<lambda>s. s\<lparr>scr := fold tty_putc (line s) (scr s)\<rparr>) k (retype_buffer k)"
  using edits_fold_putc [of F k "line (session_of F k)"]
  by (simp add: edits_def retype_buffer_eq) (simp add: session_of_def text_of_def)

lemma edits_print_char: "live F k \<Longrightarrow> c \<noteq> 0 \<Longrightarrow> edits F (session_step (Insert c)) k (print_char c k)"
proof (cases "buf_len (shown k) \<ge> 127")
  case True
  assume "live F k" "c \<noteq> 0"
  with True have "print_char c k = k" "length (line (session_of F k)) = 127"
    by (auto simp: print_char_def session_of_def text_of_def live_def term_ok_def)
  then show ?thesis using edits_id [OF \<open>live F k\<close>] by (simp add: edits_def)
next
  case False
  assume l: "live F k" and c: "c \<noteq> 0"
  let ?f = "\<lambda>t. t\<lparr>typing := (typing t)(buf_len t := c), buf_len := buf_len t + 1\<rparr>"
  obtain n where n: "buf_len (shown k) = int n"
    using l by (auto simp: live_def term_ok_def elim!: nonneg_int_cases)
  have "edits F (\<lambda>s. s\<lparr>line := line s @ [c]\<rparr>) k (upd_terminal (curr_ter k) ?f k)"
    using l c False by (intro edits_text)
      (simp_all add: live_def term_ok_def text_of_def n bytes_upd nat_add_distrib)
  from edits_trans [OF this edits_putc [OF edits_live [OF this]]] show ?thesis
    using False by (simp add: print_char_def edits_def) (simp add: session_of_def text_of_def n)
qed

lemma edits_backspace: "live F k \<Longrightarrow> edits F (session_step Rubout) k (backspace k)"
proof (cases "buf_len (shown k) = 0")
  case True
  assume "live F k"
  with True show ?thesis
    using edits_id [of F k] by (simp add: backspace_def edits_def session_of_def text_of_def)
next
  case False
  assume l: "live F k"
  let ?f = "\<lambda>t. t\<lparr>buf_len := buf_len t - 1, typing := (typing t)(buf_len t - 1 := 0)\<rparr>"
  let ?k = "screen_backspace k"
  note e = edits_screen_backspace [OF l]
  obtain n where n: "buf_len (shown k) = int n" "0 < n"
    using l False by (auto simp: live_def term_ok_def elim!: nonneg_int_cases)
  have sel: "curr_ter ?k = curr_ter k" "buf_len (terminals ?k (curr_ter k)) = int n"
    using out_frameD(7) [OF screen_backspace_out [OF out_frame_refl]]
      out_frame_terminal(5) [OF screen_backspace_out [OF out_frame_refl]] n by auto
  have m: "nat (int n - 1) = n - 1" by simp
  have "edits F (\<lambda>s. s\<lparr>line := butlast (line s)\<rparr>) ?k (upd_terminal (curr_ter ?k) ?f ?k)"
    using edits_live [OF e] n(2) by (intro edits_text)
      (auto simp: live_def term_ok_def text_of_def sel bytes_butlast m dest: in_set_butlastD)
  from edits_trans [OF e this] have "edits F (\<lambda>s. s\<lparr>scr := tty_back (scr s), line := butlast (line s)\<rparr>) k (backspace k)"
    using False by (simp add: backspace_def sel edits_def)
  moreover have "length (line (session_of F k)) = n" by (simp add: session_of_def text_of_def n(1))
  ultimately show ?thesis using n(2) by (auto simp: edits_def)
qed

lemma edits_enter: "live F k \<Longrightarrow> edits F (session_step Return) k (enter_key k)"
proof -
  assume l: "live F k"
  then have t: "term_ok (shown k)" by (simp add: live_def)
  have "text_of s (commit_line (shown k)) = (session_step Return (text_of s (shown k)))\<lparr>scr := s\<rparr>" for s
    using commit_text(1) [OF t, of s] by (simp add: text_of_def)
  then have "edits F (\<lambda>s. (session_step Return s)\<lparr>scr := scr s\<rparr>) k (upd_terminal (curr_ter k) commit_line k)"
    using commit_text(2) [OF t] by (intro edits_text [OF l]) (simp_all add: text_of_def)
  from edits_trans [OF this edits_putc [OF edits_live [OF this], of 10]] show ?thesis
    by (simp add: enter_key_def edits_def)
qed

lemma fold_backspace:
  "live F k \<Longrightarrow> n \<le> length (line (session_of F k)) \<Longrightarrow>
     edits F (\<lambda>s. s\<lparr>scr := (tty_back ^^ n) (scr s), line := take (length (line s) - n) (line s)\<rparr>) k
       (fold (\<lambda>_. backspace) [0..<n] k)"
proof (induction n)
  case 0
  then show ?case using edits_id [of F k] by (simp add: edits_def)
next
  case (Suc n)
  let ?k = "fold (\<lambda>_. backspace) [0..<n] k"
  have e: "edits F (\<lambda>s. s\<lparr>scr := (tty_back ^^ n) (scr s), line := take (length (line s) - n) (line s)\<rparr>) k ?k"
    using Suc by simp
  from edits_trans [OF this edits_backspace [OF edits_live [OF this]]] Suc.prems(2) show ?case
    by (simp add: edits_def) (cases "line (session_of F k)"; simp add: butlast_take)
qed

lemma cprefix_bytes: "length (cprefix 128 v) < 128 \<Longrightarrow> is_cstr v (length (cprefix 128 v))"
  using cprefix_end [of 128 v] cprefix_nonzero [of _ 128 v] by (auto intro: is_cstrI)

lemma recall_text:
  assumes "term_ok t" and n: "n = length (cprefix 128 (history t))"
  defines "t' \<equiv> t\<lparr>typing := copy_upto 128 (history t) (typing t), buf_len := int n\<rparr>"
  shows "text_of s t' = (text_of s t)\<lparr>line := cprefix 128 (history t)\<rparr>" and "term_ok t'"
    and "strlen (history t) = Some (of_nat n)"
proof -
  have n128: "n < 128" using assms(1) by (simp add: n term_ok_def)
  then have c: "is_cstr (history t) n" using cprefix_bytes [of "history t"] n by simp
  then have "cprefix 128 (history t) = bytes (history t) n" using cprefix_cstr [OF c, of 128] n128 by simp
  moreover have "bytes (copy_upto 128 (history t) (typing t)) n = bytes (history t) n"
    using n128 by (simp add: bytes_eq_iff)
  ultimately have b: "bytes (copy_upto 128 (history t) (typing t)) n = cprefix 128 (history t)" by simp
  show "text_of s t' = (text_of s t)\<lparr>line := cprefix 128 (history t)\<rparr>"
    by (simp add: text_of_def t'_def b del: copy_upto_def)
  have "0 \<notin> set (cprefix 128 (history t))" by (auto simp: cprefix_def dest: set_takeWhileD)
  then show "term_ok t'"
    using assms(1) n128 by (simp add: term_ok_def t'_def b del: copy_upto_def)
  show "strlen (history t) = Some (of_nat n)" using c n128 by (intro strlen_cstr) auto
qed

lemma edits_recall: 
  assumes "live F k"
  shows "\<exists>k'. recall_line k = Some k' \<and> edits F (session_step Recall) k k'"
proof -
  define n where "n = length (cprefix 128 (history (shown k)))"
  let ?k1 = "fold (\<lambda>_. backspace) [0..<nat (buf_len (shown k))] k"
  let ?f = "\<lambda>t. t\<lparr>typing := copy_upto 128 (history t) (typing t), buf_len := int n\<rparr>"
  have e1: "edits F (\<lambda>s. s\<lparr>scr := (tty_back ^^ length (line s)) (scr s), line := []\<rparr>) k ?k1"
    using fold_backspace [OF assms, of "nat (buf_len (shown k))"]
    by (simp add: edits_def) (simp add: session_of_def text_of_def)
  then have "recalled (session_of F ?k1) = recalled (session_of F k)" by (simp add: edits_def)
  then have n: "n = length (cprefix 128 (history (shown ?k1)))"
    by (simp add: n_def session_of_def text_of_def)
  have t: "term_ok (shown ?k1)" using edits_live [OF e1] by (simp add: live_def)
  note r = recall_text [OF t n]
  have e2: "edits F (\<lambda>s. s\<lparr>line := recalled s\<rparr>) ?k1 (upd_terminal (curr_ter ?k1) ?f ?k1)"
    using r(1,2) by (intro edits_text [OF edits_live [OF e1]]) (simp_all add: text_of_def del: copy_upto_def)
  note e = edits_trans [OF edits_trans [OF e1 e2] edits_retype [OF edits_live [OF e2]]]
  have "n < 128" using t by (simp add: n term_ok_def)
  then have "sint (of_nat n :: u32) = int n" by (simp add: sint_small wsimps)
  then have "recall_line k = Some (retype_buffer (upd_terminal (curr_ter ?k1) ?f ?k1))"
    using r(3) by (simp add: recall_line_def Let_def del: copy_upto_def) (simp add: upd_terminal_def del: copy_upto_def)
  moreover have "session_step Recall = (\<lambda>s. (s\<lparr>scr := (tty_back ^^ length (line s)) (scr s),
      line := recalled s\<rparr>)\<lparr>scr := fold tty_putc (recalled s) ((tty_back ^^ length (line s)) (scr s))\<rparr>)"
    by (rule ext) simp
  ultimately show ?thesis using e by simp
qed

lemma cells_of_clear: "cells_of (pg_clear v) = (\<lambda>_. (SPACE, ATTRIB))"
  by (rule ext) (simp add: cells_of_def pg_clear_def)

lemma clear_refine:
  assumes "maps_page k VIDEO F"
  shows "tty_of F (reset_cursor (clear k)) = blank_tty" and "con_frame F k (reset_cursor (clear k))"
    and "cursor_ok (reset_cursor (clear k))"
proof -
  have eq: "clear k = k\<lparr>phys := overlay F (pg_clear (page_of (phys k) F)) (phys k)\<rparr>"
    using clear_page [OF assms, of "page_of (phys k) F" "phys k"] by (simp add: overlay_self)
  have "cells_of (page_of (overlay F v m) F) = cells_of v" for v m
    by (rule ext) (simp add: cells_of_def)
  then show "tty_of F (reset_cursor (clear k)) = blank_tty"
    by (simp add: eq tty_of_def blank_tty_def reset_cursor_def save_cursor_def upd_terminal_def cells_of_clear)
  have "overlay F (pg_clear (page_of (phys k) F)) (phys k) p = phys k p" if "\<not> p - F < 4000" for p
    using that by (simp add: overlay_def pg_clear_def page_of_def word_less_nat_alt)
  then have "phys (reset_cursor (clear k)) p = phys k p" if "\<not> p - F < 4000" for p
    using that by (simp add: eq reset_cursor_def save_cursor_def upd_terminal_def)
  moreover have "out_frame k (reset_cursor (clear k))" by (intro frame)
  ultimately show "con_frame F k (reset_cursor (clear k))" by (simp add: con_frame_def)
  show "cursor_ok (reset_cursor (clear k))"
    by (simp add: cursor_ok_def reset_cursor_def save_cursor_def upd_terminal_def)
qed

lemma edits_flag: "edits F f k (k'\<lparr>if_flag := b\<rparr>) = edits F f k k'" "edits F f (k\<lparr>if_flag := b\<rparr>) k' = edits F f k k'"
  "live F (k\<lparr>if_flag := b\<rparr>) = live F k"
  by (simp_all add: edits_def session_of_def tty_of_def live_def kb_frame_def cursor_ok_def)

lemma edits_redraw: "live F k \<Longrightarrow> edits F (session_step Redraw) k (control_l k)"
proof -
  assume "live F k"
  then have l: "live F (cli k)" by (simp add: cli_def edits_flag)
  let ?k = "reset_cursor (clear (cli k))"
  have m: "maps_page (cli k) VIDEO F" using l by (simp add: live_def)
  note c = clear_refine [OF m]
  have "con_frame F (cli k) (set_cursor ?k)" using con_frame_trans [OF c(2) set_cursor_frame] .
  moreover have "cursor_ok (set_cursor ?k)" using c(3) by (simp add: cursor_ok_def)
  moreover have "tty_of F (set_cursor ?k) = blank_tty" using c(1) by (simp add: tty_of_def)
  ultimately have e: "edits F (\<lambda>s. s\<lparr>scr := blank_tty\<rparr>) (cli k) (set_cursor ?k)"
    using edits_output [OF l] by metis
  from edits_trans [OF this edits_retype [OF edits_live [OF this]]] show ?thesis
    by (simp add: control_l_def cli_and_save_def restore_flags_def edits_flag cli_def) (simp add: edits_def)
qed

subsection \<open>The handler\<close>

lemma send_eoi_kb: "send_eoi KB_IRQ_NUM k = k\<lparr>outs := (0x20, 0x61) # outs k\<rparr>"
  by (simp add: send_eoi_def outb_def)

lemma edits_quiet:
  "edits F f k (k'\<lparr>outs := ws\<rparr>) = edits F f k k'" "edits F f k (k'\<lparr>shift_pressed := b\<rparr>) = edits F f k k'"
  "edits F f k (k'\<lparr>control_pressed := b\<rparr>) = edits F f k k'" "edits F f k (k'\<lparr>caps_lock_on := b\<rparr>) = edits F f k k'"
  "edits F f k (k'\<lparr>alt_pressed := b\<rparr>) = edits F f k k'"
proof -
  have "maps_page (k'\<lparr>outs := ws\<rparr>) = maps_page k'" "maps_page (k'\<lparr>shift_pressed := b\<rparr>) = maps_page k'"
    "maps_page (k'\<lparr>control_pressed := b\<rparr>) = maps_page k'" "maps_page (k'\<lparr>caps_lock_on := b\<rparr>) = maps_page k'"
    "maps_page (k'\<lparr>alt_pressed := b\<rparr>) = maps_page k'"
    by (intro maps_page_cong; simp)+
  then show "edits F f k (k'\<lparr>outs := ws\<rparr>) = edits F f k k'" "edits F f k (k'\<lparr>shift_pressed := b\<rparr>) = edits F f k k'"
    "edits F f k (k'\<lparr>control_pressed := b\<rparr>) = edits F f k k'" "edits F f k (k'\<lparr>caps_lock_on := b\<rparr>) = edits F f k k'"
    "edits F f k (k'\<lparr>alt_pressed := b\<rparr>) = edits F f k k'"
    by (simp_all add: edits_def session_of_def tty_of_def live_def kb_frame_def cursor_ok_def)
qed

lemma no_character: "get_character_code 0x48 k = 0"
proof -
  have "shift_kbdus ! 72 = 0" "caps_kbdus ! 72 = 0" "kbdus ! 72 = 0" by code_simp+
  then show ?thesis by (simp add: get_character_code_def Let_def)
qed

lemma session_steps: "session_step Silent = (\<lambda>s. s)" "session_step (Show n) = (\<lambda>s. s)"
  by (rule ext, simp)+

lemma edits_key_down:
  assumes "live F k" and "scancode \<notin> {0x2A, 0x36, 0x1D, 0x38, 0x3A, 0x48}" and "scancode AND 0x80 = 0"
    and "\<And>n. key_of k scancode = Show n \<Longrightarrow> n = curr_ter k"
  shows "edits F (session_step (key_of k scancode)) k (key_down scancode k)"
proof -
  note e = edits_print_char [OF assms(1)] edits_backspace [OF assms(1)] edits_enter [OF assms(1)]
    edits_redraw [OF assms(1)] edits_id [OF assms(1)]
  have ch: "edits F (session_step (if c = 8 then Rubout else if c = 10 then Return
      else if c = 0 then Silent else Insert c)) k (handle_char c k)" for c
    using e by (simp add: handle_char_def session_steps)
  consider (l) "control_pressed k" "scancode = 0x26"
    | (f) "\<not> (control_pressed k \<and> scancode = 0x26)" "alt_pressed k" "scancode \<in> {0x3B, 0x3C, 0x3D}"
    | (c) "\<not> (control_pressed k \<and> scancode = 0x26)" "\<not> (alt_pressed k \<and> scancode \<in> {0x3B, 0x3C, 0x3D})"
    by blast
  then show ?thesis
  proof cases
    case l
    then show ?thesis
      using e(4) assms(2,3) by (simp add: key_down_def key_of_def send_eoi_kb edits_quiet)
  next
    case f
    then have "key_of k scancode = Show (uint (scancode - 0x3B))"
      using assms(2,3) by (simp add: key_of_def)
    moreover from assms(4) [OF this] have "curr_ter k = uint (scancode - 0x3B)" by simp
    ultimately show ?thesis
      using f e(5) by (auto simp: key_down_def switch_terminal_or_return_def send_eoi_kb edits_quiet session_steps)
  next
    case c
    then have "key_down scancode k = send_eoi KB_IRQ_NUM (handle_char (get_character_code scancode k) k)"
      by (auto simp: key_down_def)
    moreover have "key_of k scancode = (let c = get_character_code scancode k
        in if c = 8 then Rubout else if c = 10 then Return else if c = 0 then Silent else Insert c)"
      using assms(2,3) unfolding key_of_def if_not_P [OF c(1)] if_not_P [OF c(2)] by simp
    ultimately show ?thesis using ch by (simp add: send_eoi_kb edits_quiet Let_def)
  qed
qed

lemma edits_handler:
  assumes "live F k" and "\<And>n. key_of k scancode = Show n \<Longrightarrow> n = curr_ter k"
  shows "\<exists>k'. KB_handler scancode k = Some k' \<and> edits F (session_step (key_of k scancode)) k k'"
proof (cases "scancode = 0x48")
  case True
  obtain k1 where k1: "recall_line k = Some k1" "edits F (session_step Recall) k k1"
    using edits_recall [OF assms(1)] by blast
  have "key_down 0x48 k1 = send_eoi KB_IRQ_NUM k1"
    by (simp add: key_down_def handle_char_def no_character)
  with True k1 show ?thesis by (simp add: KB_handler_def key_of_def send_eoi_kb edits_quiet)
next
  case False
  show ?thesis
  proof (cases "scancode \<in> {0x2A, 0x36, 0x1D, 0x38, 0x3A} \<or> scancode AND 0x80 \<noteq> 0")
    case True
    then have "key_of k scancode = Silent" using False by (auto simp: key_of_def)
    moreover have "edits F (\<lambda>s. s) k k" using assms(1) by (rule edits_id)
    ultimately show ?thesis
      using False True by (auto simp: KB_handler_def send_eoi_kb edits_quiet session_steps)
  next
    case down: False
    then have *: "scancode \<notin> {0x2A, 0x36, 0x1D, 0x38, 0x3A, 0x48}" "scancode AND 0x80 = 0"
      using False by auto
    then have "KB_handler scancode k = Some (key_down scancode k)" by (auto simp: KB_handler_def)
    with edits_key_down [OF assms(1) * assms(2)] show ?thesis by simp
  qed
qed

lemma kb_ok_edits:
  assumes "kb_ok k" and "edits F f k k'"
  shows "kb_ok k'"
proof -
  have *: "curr_ter k' = curr_ter k" "term_ok (terminals k' (curr_ter k))"
    "t \<noteq> curr_ter k \<Longrightarrow> term_ok (terminals k' t) = term_ok (terminals k t)" for t
    using assms(2) by (auto simp: edits_def live_def kb_frame_def)
  then have "term_ok (terminals k' t)" if "t \<in> {0, 1, 2}" for t
    using assms(1) that by (cases "t = curr_ter k") (auto simp: kb_ok_def)
  with * assms(1) show ?thesis unfolding kb_ok_def by metis
qed

subsection \<open>Switching terminals\<close>

text \<open>Where the screen of a terminal is kept: in the displayed page or in its own.\<close>

definition screen_page :: "kernel \<Rightarrow> int \<Rightarrow> u32" where
  "screen_page k t = (if t = curr_ter k then VIDEO else backing t)"

lemma backing_apart:
  assumes "0 \<le> s" "s < 3" "0 \<le> t" "t < 3"
  shows "pages_apart VIDEO (backing t)" and "s \<noteq> t \<Longrightarrow> pages_apart (backing s) (backing t)"
  using assms by (auto elim!: terminal_cases simp: backing_def pages_apart_def)

lemma vwrite_sel [simp]:
  "terminals (vwrite a b k) = terminals k" "curr_ter (vwrite a b k) = curr_ter k"
  "tabs (vwrite a b k) = tabs k" "screen_x (vwrite a b k) = screen_x k" "screen_y (vwrite a b k) = screen_y k"
  "curr_process (vwrite a b k) = curr_process k" "addr_of (vwrite a b k) = addr_of k"
  "active (vwrite a b k) = active k" "on_screen (vwrite a b k) = on_screen k"
  by (simp_all add: vwrite_def split: option.split)

lemma swap_vid_mem_sel [simp]:
  "terminals (swap_vid_mem a b k) = terminals k" "curr_ter (swap_vid_mem a b k) = curr_ter k"
  "tabs (swap_vid_mem a b k) = tabs k" "screen_x (swap_vid_mem a b k) = screen_x k"
  "screen_y (swap_vid_mem a b k) = screen_y k" "curr_process (swap_vid_mem a b k) = curr_process k"
  "addr_of (swap_vid_mem a b k) = addr_of k" "active (swap_vid_mem a b k) = active k"
  "on_screen (swap_vid_mem a b k) = on_screen k"
proof -
  let ?P = "\<lambda>k k' :: kernel. terminals k' = terminals k \<and> curr_ter k' = curr_ter k \<and> tabs k' = tabs k \<and>
    screen_x k' = screen_x k \<and> screen_y k' = screen_y k \<and> curr_process k' = curr_process k \<and>
    addr_of k' = addr_of k \<and> active k' = active k \<and> on_screen k' = on_screen k"
  have "?P k (vcopy d s n k)" for d s n k
  proof -
    have "?P k (fold (\<lambda>i k. vwrite (d + of_nat i) (vmem k (s + of_nat i)) k) is k)" for "is"
      by (induction "is" arbitrary: k) simp_all
    then show ?thesis by (simp add: vcopy_def)
  qed
  then show "terminals (swap_vid_mem a b k) = terminals k" "curr_ter (swap_vid_mem a b k) = curr_ter k"
    "tabs (swap_vid_mem a b k) = tabs k" "screen_x (swap_vid_mem a b k) = screen_x k"
    "screen_y (swap_vid_mem a b k) = screen_y k" "curr_process (swap_vid_mem a b k) = curr_process k"
    "addr_of (swap_vid_mem a b k) = addr_of k" "active (swap_vid_mem a b k) = active k"
    "on_screen (swap_vid_mem a b k) = on_screen k"
    by (simp_all add: swap_vid_mem_def Let_def)
qed

lemma change_vidmem_sel [simp]:
  "terminals (change_vidmem n k) = terminals k" "curr_ter (change_vidmem n k) = curr_ter k"
  "screen_x (change_vidmem n k) = screen_x k" "screen_y (change_vidmem n k) = screen_y k"
  "curr_process (change_vidmem n k) = curr_process k" "phys (change_vidmem n k) = phys k"
  "addr_of (change_vidmem n k) = addr_of k" "on_screen (change_vidmem n k) = on_screen k"
  by (simp_all add: change_vidmem_def flush_TLB_def Let_def split: option.split)

lemma update_cursor_sel [simp]:
  "terminals (update_cursor x y k) = terminals k" "curr_ter (update_cursor x y k) = curr_ter k"
  "screen_x (update_cursor x y k) = screen_x k" "screen_y (update_cursor x y k) = screen_y k"
  "curr_process (update_cursor x y k) = curr_process k" "phys (update_cursor x y k) = phys k"
  "addr_of (update_cursor x y k) = addr_of k" "tabs (update_cursor x y k) = tabs k"
  "active (update_cursor x y k) = active k"
  by (simp_all add: update_cursor_def outb_def Let_def)

lemma paging_ok_cong:
  "tabs k' = tabs k \<Longrightarrow> active k' = active k \<Longrightarrow> addr_of k' = addr_of k \<Longrightarrow> paging_ok k' = paging_ok k"
  by (simp add: paging_defs)

lemma vid_page_cong: "tabs k' = tabs k \<Longrightarrow> vid_page k' = vid_page k"
  by (simp add: vid_page_def)

lemma switch_ter_sel:
  fixes k :: kernel and old new :: int
  defines "k' \<equiv> snd (switch_ter old new k)"
  shows "terminals k' = terminals k" and "curr_ter k' = new" and "screen_x k' = screen_x k"
    and "screen_y k' = screen_y k" and "curr_process k' = curr_process k"
    and "paging_ok k \<Longrightarrow> 0 \<le> old \<Longrightarrow> old < 3 \<Longrightarrow> paging_ok k'"
    and "0 \<le> old \<Longrightarrow> old < 3 \<Longrightarrow> vid_page k' = backing old"
    and "phys k' = phys (swap_vid_mem old new k)"
proof -
  let ?k = "change_vidmem old (swap_vid_mem old new k)"
  have t: "tabs k' = tabs ?k" "active k' = active ?k" "addr_of k' = addr_of ?k"
    by (simp_all add: k'_def switch_ter_def Let_def)
  show "terminals k' = terminals k" "curr_ter k' = new" "screen_x k' = screen_x k"
    "screen_y k' = screen_y k" "curr_process k' = curr_process k" "phys k' = phys (swap_vid_mem old new k)"
    by (simp_all add: k'_def switch_ter_def Let_def)
  show "paging_ok k'" if "paging_ok k" "0 \<le> old" "old < 3"
  proof -
    have "paging_ok (swap_vid_mem old new k)" using that(1) paging_ok_cong [of "swap_vid_mem old new k" k] by simp
    from change_vidmem_ok [OF this, of old] that(2,3) show ?thesis by (simp add: paging_ok_cong [OF t])
  qed
  show "vid_page k' = backing old" if "0 \<le> old" "old < 3"
    using vid_page_change [OF that] by (simp add: vid_page_cong [OF t(1)])
qed

lemma switch_ter_screens:
  assumes "paging_ok k" and "vid_page k = VIDEO" and "0 \<le> curr_ter k" "curr_ter k < 3"
    and "0 \<le> new" "new < 3" and "new \<noteq> curr_ter k" and "0 \<le> t" "t < 3" and "i < 4096"
  defines "k' \<equiv> snd (switch_ter (curr_ter k) new k)"
  shows "page_of (phys k') (screen_page k' t) i = page_of (phys k) (screen_page k t) i"
proof -
  let ?old = "curr_ter k"
  let ?m1 = "overlay (backing ?old) (page_of (phys k) VIDEO) (phys k)"
  have "phys k' = overlay VIDEO (page_of ?m1 (backing new)) ?m1"
    using switch_ter_sel(8) [of ?old new k] swap_vid_mem_page [OF assms(1,3-6,2)]
    by (simp add: k'_def Let_def)
  moreover have "curr_ter k' = new" unfolding k'_def by (rule switch_ter_sel(2))
  moreover consider "t = new" | "t = ?old" | "t \<noteq> new" "t \<noteq> ?old" by blast
  ultimately show ?thesis
    using assms(7,10) backing_apart [OF assms(3,4,5,6)] backing_apart [OF assms(3,4,8,9)]
      backing_apart [OF assms(5,6,3,4)]
    by cases (simp_all add: screen_page_def overlay_apart)
qed

lemma KB_handler_switch:
  assumes "key_of k scancode = Show n" and "n \<noteq> curr_ter k"
  shows "KB_handler scancode k = Some (send_eoi KB_IRQ_NUM (snd (switch_ter (curr_ter k) n k)))"
    and "0 \<le> n" and "n < 3"
proof -
  from assms(1) have s: "scancode \<notin> {0x48, 0x2A, 0x36, 0x1D, 0x38, 0x3A}" "scancode AND 0x80 = 0"
    "\<not> (control_pressed k \<and> scancode = 0x26)" "alt_pressed k" "scancode \<in> {0x3B, 0x3C, 0x3D}"
    "n = uint (scancode - 0x3B)"
    by (auto simp: key_of_def Let_def split: if_splits)
  then have "key_down scancode k = switch_terminal_or_return n k" by (auto simp: key_down_def)
  with s(1,2) have "KB_handler scancode k = Some (switch_terminal_or_return n k)"
    by (auto simp: KB_handler_def)
  then show "KB_handler scancode k = Some (send_eoi KB_IRQ_NUM (snd (switch_ter (curr_ter k) n k)))"
    using assms(2) by (simp add: switch_terminal_or_return_def)
  show "0 \<le> n" "n < 3" using s(5,6) by auto
qed

subsection \<open>Properties\<close>

definition kb_inv :: "kernel \<Rightarrow> bool" where
  "kb_inv k \<longleftrightarrow> paging_ok k \<and> cursor_ok k \<and> kb_ok k"

lemma kb_inv_live: "kb_inv k \<Longrightarrow> live (vid_page k) k"
  using maps_video [of k] by (auto simp: kb_inv_def live_def kb_ok_def elim: terminal_cases)

lemma edits_paging: "edits F f k k' \<Longrightarrow> paging_ok k' = paging_ok k"
  by (intro paging_ok_cong) (simp_all add: edits_def kb_frame_def)

lemma KB_handler_inv:
  assumes "kb_inv k"
  shows "\<exists>k'. KB_handler scancode k = Some k' \<and> kb_inv k'"
proof (cases "\<exists>n. key_of k scancode = Show n \<and> n \<noteq> curr_ter k")
  case True
  then obtain n where n: "key_of k scancode = Show n" "n \<noteq> curr_ter k" by blast
  note h = KB_handler_switch [OF n]
  let ?k = "snd (switch_ter (curr_ter k) n k)"
  note sel = switch_ter_sel [where k = k and old = "curr_ter k" and new = n]
  have "kb_ok ?k" using assms h(2,3) sel(1,2) by (simp add: kb_inv_def kb_ok_def)
  moreover have "paging_ok ?k" using assms sel(6) by (simp add: kb_inv_def kb_ok_def)
  moreover have "cursor_ok ?k" using assms sel(3,4) by (simp add: kb_inv_def cursor_ok_def)
  moreover have "kb_inv (k'\<lparr>outs := ws\<rparr>) = kb_inv k'" for k' ws
    by (simp add: kb_inv_def kb_ok_def cursor_ok_def paging_ok_cong [of "k'\<lparr>outs := ws\<rparr>" k'])
  ultimately have "kb_inv (send_eoi KB_IRQ_NUM ?k)" by (simp only: send_eoi_kb kb_inv_def)
  with h(1) show ?thesis by simp
next
  case False
  then have "\<exists>k'. KB_handler scancode k = Some k' \<and> edits (vid_page k) (session_step (key_of k scancode)) k k'"
    by (intro edits_handler [OF kb_inv_live [OF assms]]) auto
  then obtain k' where k': "KB_handler scancode k = Some k'"
    "edits (vid_page k) (session_step (key_of k scancode)) k k'" by blast
  have "kb_inv k'"
    using assms kb_ok_edits [OF _ k'(2)] edits_paging [OF k'(2)] edits_live [OF k'(2)]
    by (simp add: kb_inv_def live_def)
  with k'(1) show ?thesis by blast
qed

lemma init_paging_sel [simp]:
  "terminals (init_paging k) = terminals k" "curr_ter (init_paging k) = curr_ter k"
  "curr_process (init_paging k) = curr_process k" "screen_x (init_paging k) = screen_x k"
  "screen_y (init_paging k) = screen_y k" "phys (init_paging k) = phys k"
  by (simp_all add: init_paging_def enable_paging_def Let_def)

lemma boot_term_ok: "term_ok (terminals boot_kernel t)"
proof -
  have "cprefix 128 (\<lambda>_. 0) = []" by (simp add: cprefix_def bytes_def upt_rec [of 0 128])
  then show ?thesis by (simp add: term_ok_def boot_kernel_def zero_terminal_def)
qed

lemma boot_kb_inv: "kb_inv (init_paging boot_kernel)"
proof -
  have "curr_ter boot_kernel = 0" "screen_x boot_kernel = 0" "screen_y boot_kernel = 0"
    by (simp_all add: boot_kernel_def)
  then show ?thesis using boot_paging_ok by (simp add: kb_inv_def kb_ok_def boot_term_ok cursor_ok_def)
qed

lemma boot_vid_page: "vid_page (init_paging boot_kernel) = VIDEO"
  using init_paging_tables(3) [of "0xB8" boot_kernel] by (simp add: vid_page_def)

text \<open>
  C19. The keyboard handler implements a line editor: unless the key switches to another terminal,
  the handler returns, and the session of the visible terminal, its screen, the line being
  typed, the line last entered and the line that the up arrow recalls, is the session that the
  key asks for. Memory outside the 4000 bytes of the screen and the lines of the other two
  terminals stay as they are.
\<close>

theorem KB_handler_edits:
  assumes "maps_page k 0xB8000 F" and "cursor_ok k" and "term_ok (terminals k (curr_ter k))"
    and "\<And>n. key_of k scancode = Show n \<Longrightarrow> n = curr_ter k"
  shows "\<exists>k'. KB_handler scancode k = Some k' \<and>
    session_of F k' = session_step (key_of k scancode) (session_of F k) \<and>
    (\<forall>p. \<not> p - F < 4000 \<longrightarrow> phys k' p = phys k p) \<and> curr_ter k' = curr_ter k \<and>
    (\<forall>t s. t \<noteq> curr_ter k \<longrightarrow> text_of s (terminals k' t) = text_of s (terminals k t))"
proof -
  have "live F k" using assms(1-3) by (simp add: live_def)
  from edits_handler [OF this, of scancode] assms(4) show ?thesis
    by (auto simp: edits_def kb_frame_def)
qed

theorem KB_handler_edits_witness:
  "\<exists>k'. KB_handler 0x1E boot_kernel = Some k' \<and> line (session_of 0xB8000 k') = [97] \<and>
     cell (scr (session_of 0xB8000 k')) 0 = (97, 7)"
proof -
  have "kbdus ! 30 = 97" by code_simp
  then have key: "key_of boot_kernel 0x1E = Insert 97"
    by (simp add: key_of_def get_character_code_def boot_kernel_def)
  have "maps_page boot_kernel 0xB8000 0xB8000" "cursor_ok boot_kernel"
    by (simp_all add: maps_page_def paddr_def cursor_ok_def boot_kernel_def)
  from KB_handler_edits [OF this boot_term_ok, of "0x1E"] key
  obtain k' where k': "KB_handler 0x1E boot_kernel = Some k'"
    "session_of 0xB8000 k' = session_step (Insert 97) (session_of 0xB8000 boot_kernel)" by auto
  then show ?thesis
    by (simp add: session_of_def text_of_def tty_of_def tty_putc_def boot_kernel_def zero_terminal_def Let_def)
qed

text \<open>
  C24. No key breaks a terminal: for every byte the keyboard can send the handler returns, the
  line being typed stays within the 127 characters that leave room for the end mark and has no
  NUL in it, the entered lines end inside their buffers, the cursor stays on the screen, one of
  the three terminals is shown, and the page tables stay well formed.
\<close>

theorem KB_handler_safe:
  "paging_ok k \<Longrightarrow> cursor_ok k \<Longrightarrow> kb_ok k \<Longrightarrow>
     \<exists>k'. KB_handler scancode k = Some k' \<and> paging_ok k' \<and> cursor_ok k' \<and> kb_ok k'"
  using KB_handler_inv [of k scancode] by (simp add: kb_inv_def)

theorem KB_handler_safe_witness:
  "\<exists>k'. KB_handler 0x48 (init_paging boot_kernel) = Some k' \<and> kb_ok k'"
  using KB_handler_safe [of "init_paging boot_kernel" "0x48"] boot_kb_inv by (auto simp: kb_inv_def)

text \<open>
  C26. Alt and a function key show another terminal without losing a screen: when the visible
  terminal is the one that runs, the contents of all three screens are the same before and after
  the handler, each where it now belongs, the running program's output goes to the page kept for the
  terminal it was on, and the hardware cursor is where the new terminal left it.
\<close>

theorem switch_keeps_screens:
  assumes "paging_ok k" and "vid_page k = 0xB8000" and "0 \<le> curr_ter k" and "curr_ter k < 3"
    and "key_of k scancode = Show n" and "n \<noteq> curr_ter k"
    and "0 \<le> screen_x_save (terminals k n)" and "screen_x_save (terminals k n) \<le> 80"
    and "0 \<le> screen_y_save (terminals k n)" and "screen_y_save (terminals k n) < 25"
  shows "\<exists>k'. KB_handler scancode k = Some k' \<and> curr_ter k' = n \<and>
    (\<forall>t i. 0 \<le> t \<and> t < 3 \<and> i < 4096 \<longrightarrow>
       page_of (phys k') (screen_page k' t) i = page_of (phys k) (screen_page k t) i) \<and>
    vid_page k' = backing (curr_ter k) \<and> terminals k' = terminals k \<and>
    int (crtc_cursor (outs k')) = screen_y_save (terminals k n) * 80 + screen_x_save (terminals k n)"
proof -
  let ?k = "snd (switch_ter (curr_ter k) n k)" and ?x = "screen_x_save (terminals k n)"
    and ?y = "screen_y_save (terminals k n)"
  note h = KB_handler_switch [OF assms(5,6)] and sel = switch_ter_sel [where k = k and old = "curr_ter k" and new = n]
  have "?k = update_cursor ?x ?y ((change_vidmem (curr_ter k) (swap_vid_mem (curr_ter k) n k))\<lparr>curr_ter := n\<rparr>)"
    by (simp add: switch_ter_def Let_def)
  then have "int (crtc_cursor (outs ?k)) = ?y * 80 + ?x" using assms(7-10) by (simp add: update_cursor_hw)
  then have "int (crtc_cursor (outs (send_eoi 1 ?k))) = ?y * 80 + ?x"
    by (simp add: send_eoi_kb crtc_cursor_def Let_def split: prod.split)
  moreover have "vid_page (send_eoi 1 ?k) = backing (curr_ter k)"
    using sel(7) assms(3,4) vid_page_cong [of "send_eoi 1 ?k" ?k] by (simp add: send_eoi_kb)
  moreover have "page_of (phys (send_eoi 1 ?k)) (screen_page (send_eoi 1 ?k) t) i =
      page_of (phys k) (screen_page k t) i" if "0 \<le> t" "t < 3" "i < 4096" for t i
    using switch_ter_screens [OF assms(1-4) h(2,3) assms(6) that] by (simp add: send_eoi_kb screen_page_def)
  moreover have "curr_ter (send_eoi 1 ?k) = n" "terminals (send_eoi 1 ?k) = terminals k"
    using sel(1,2) by (simp_all add: send_eoi_kb)
  ultimately show ?thesis using h(1) by (intro exI [of _ "send_eoi 1 ?k"]) blast
qed

theorem switch_keeps_screens_witness:
  "\<exists>k'. KB_handler 0x3C ((init_paging boot_kernel)\<lparr>alt_pressed := True\<rparr>) = Some k' \<and> curr_ter k' = 1 \<and>
     vid_page k' = backing 0"
proof -
  let ?k = "(init_paging boot_kernel)\<lparr>alt_pressed := True\<rparr>"
  have "paging_ok ?k" using boot_paging_ok by (simp add: paging_ok_cong [of ?k "init_paging boot_kernel"])
  moreover have "vid_page ?k = 0xB8000" using boot_vid_page by (simp add: vid_page_cong [of ?k "init_paging boot_kernel"])
  moreover have "curr_ter ?k = 0" "terminals ?k 1 = zero_terminal" by (simp_all add: boot_kernel_def)
  moreover have "key_of ?k 0x3C = Show 1"
    by (simp add: key_of_def init_paging_def enable_paging_def boot_kernel_def Let_def)
  moreover define k where "k = ?k"
  ultimately have k: "paging_ok k" "vid_page k = 0xB8000" "curr_ter k = 0" "terminals k 1 = zero_terminal"
    "key_of k 0x3C = Show 1" by (simp_all only:)
  then have "\<exists>k'. KB_handler 0x3C k = Some k' \<and> curr_ter k' = 1 \<and> vid_page k' = backing 0"
    using switch_keeps_screens [of k "0x3C" 1] by (auto simp: zero_terminal_def)
  then show ?thesis by (simp only: k_def)
qed

end
