(* ===== verification/Pcb.thy ===== *)
theory Pcb
  imports Paging
begin

section \<open>Process control blocks and file operation tables\<close>

text \<open>
  \<open>src/student-distrib/pcb.c\<close>: the five file operation tables, and the two ways to find a
  process control block, from the stack pointer and from the process number. Each process has an
  8 KB kernel stack below 8 MB with its block at the bottom.
\<close>

datatype read_fn = rtc_read_fn | file_read_fn | dir_read_fn | terminal_read_fn | not_allowed_rd
datatype write_fn = rtc_write_fn | file_write_fn | dir_write_fn | terminal_write_fn | not_allowed_wr
datatype open_fn = rtc_open_fn | file_open_fn | dir_open_fn | terminal_open_fn
datatype close_fn = rtc_close_fn | file_close_fn | dir_close_fn | terminal_close_fn

record fot =
  fot_read :: read_fn
  fot_write :: write_fn
  fot_open :: open_fn
  fot_close :: close_fn

text \<open>The table a pointer refers to; a call through the null pointer has no function.\<close>

fun fot_of :: "fot_ptr \<Rightarrow> fot option" where
  "fot_of NULL_fot = None"
| "fot_of rtc_fot = Some \<lparr>fot_read = rtc_read_fn, fot_write = rtc_write_fn,
     fot_open = rtc_open_fn, fot_close = rtc_close_fn\<rparr>"
| "fot_of file_fot = Some \<lparr>fot_read = file_read_fn, fot_write = file_write_fn,
     fot_open = file_open_fn, fot_close = file_close_fn\<rparr>"
| "fot_of dir_fot = Some \<lparr>fot_read = dir_read_fn, fot_write = dir_write_fn,
     fot_open = dir_open_fn, fot_close = dir_close_fn\<rparr>"
| "fot_of stdin_fot = Some \<lparr>fot_read = terminal_read_fn, fot_write = not_allowed_wr,
     fot_open = terminal_open_fn, fot_close = terminal_close_fn\<rparr>"
| "fot_of stdout_fot = Some \<lparr>fot_read = not_allowed_rd, fot_write = terminal_write_fn,
     fot_open = terminal_open_fn, fot_close = terminal_close_fn\<rparr>"

definition not_allowed :: int where
  "not_allowed = ERROR"

abbreviation (input) PCB_8KB_MASK :: u32 where "PCB_8KB_MASK \<equiv> 0x007FE000"

definition get_curr_pcb :: "kernel \<Rightarrow> u32" where
  "get_curr_pcb k = esp k AND PCB_8KB_MASK"

definition get_pcb_by_pid :: "int \<Rightarrow> u32" where
  "get_pcb_by_pid pid = (if pid = -1 then 0 else 0x800000 - (word_of_int pid + 1) * 0x2000)"

subsection \<open>Stacks and blocks\<close>

lemma high_bits_clear:
  assumes "unat (w :: u32) < 2 ^ m" and "m \<le> n"
  shows "\<not> bit w n"
proof
  assume "bit w n"
  then have "bit (unat w) n" by (simp add: bit_unsigned_iff bit_imp_le_length)
  moreover have "unat w < 2 ^ n"
    using assms power_increasing [OF assms(2), of "2 :: nat"] by linarith
  ultimately show False by (simp add: bit_iff_odd)
qed

lemma mask_bits: "n < 32 \<Longrightarrow> bit (0x007FE000 :: u32) n \<longleftrightarrow> 13 \<le> n \<and> n < 23"
proof -
  assume n: "n < 32"
  have "(0x007FE000 :: u32) = push_bit 13 (mask 10)"
    by (simp add: push_bit_eq_mult mask_eq_exp_minus_1)
  then show ?thesis using n by (auto simp only: bit_push_bit_iff bit_mask_iff) auto
qed

lemma mask_8KB:
  fixes w :: u32
  assumes "unat w < 0x800000"
  shows "unat (w AND 0x007FE000) = unat w div 0x2000 * 0x2000"
proof -
  have "w AND 0x007FE000 = push_bit 13 (drop_bit 13 w)"
  proof (rule bit_word_eqI)
    fix n
    assume "n < LENGTH(32)"
    then have n: "n < 32" by simp
    have "bit w n \<Longrightarrow> n < 23" using high_bits_clear [of w 23 n] assms by fastforce
    then show "bit (w AND 0x007FE000) n \<longleftrightarrow> bit (push_bit 13 (drop_bit 13 w)) n"
      unfolding bit_and_iff mask_bits [OF n] bit_push_bit_iff bit_drop_bit_eq using n by auto
  qed
  moreover have "unat w div 0x2000 * 0x2000 \<le> unat w" by (rule div_times_less_eq_dividend)
  ultimately show ?thesis
    using assms by (simp add: push_bit_eq_mult drop_bit_eq_div unat_word_ariths unat_div_distrib)
qed

lemma unat_pcb:
  assumes "0 \<le> pid" and "pid < 6"
  shows "unat (get_pcb_by_pid pid) = 0x800000 - nat (pid + 1) * 0x2000"
  using assms by (elim slot_cases) (simp_all add: get_pcb_by_pid_def)

text \<open>The kernel stack of the process in slot \<open>pid\<close>, its block at the bottom included.\<close>

definition kernel_stack :: "int \<Rightarrow> u32 set" where
  "kernel_stack pid = {a. 0x800000 - nat (pid + 1) * 0x2000 \<le> unat a \<and> unat a < 0x800000 - nat pid * 0x2000}"

lemma get_curr_pcb_stack:
  assumes "0 \<le> pid" and "pid < 6" and "esp k \<in> kernel_stack pid"
  shows "get_curr_pcb k = get_pcb_by_pid pid"
proof -
  have "unat (esp k) div 0x2000 = 1023 - nat pid"
    using assms by (elim slot_cases) (auto simp: kernel_stack_def)
  moreover have "unat (esp k) < 0x800000"
    using assms(3) diff_le_self order_less_le_trans unfolding kernel_stack_def by blast
  ultimately have "unat (get_curr_pcb k) = (1023 - nat pid) * 0x2000"
    by (simp add: get_curr_pcb_def mask_8KB)
  then show ?thesis
    using assms(1,2) by (simp add: word_unat_eq_iff unat_pcb nat_add_distrib)
qed

lemma pcb_inj:
  "0 \<le> i \<Longrightarrow> i < 6 \<Longrightarrow> 0 \<le> j \<Longrightarrow> j < 6 \<Longrightarrow> get_pcb_by_pid i = get_pcb_by_pid j \<longleftrightarrow> i = j"
  by (auto simp: word_unat_eq_iff unat_pcb)

lemma pcb_not_null: "0 \<le> pid \<Longrightarrow> pid < 6 \<Longrightarrow> get_pcb_by_pid pid \<noteq> 0"
  by (auto simp: word_unat_eq_iff unat_pcb)

lemma upd_pcb_sel [simp]:
  "pcbs (upd_pcb p f k) = (pcbs k)(p := f (pcbs k p))" "esp (upd_pcb p f k) = esp k"
  "get_curr_pcb (upd_pcb p f k) = get_curr_pcb k" "fs (upd_pcb p f k) = fs k"
  "phys (upd_pcb p f k) = phys k" "used_pids (upd_pcb p f k) = used_pids k"
  "terminals (upd_pcb p f k) = terminals k" "curr_process (upd_pcb p f k) = curr_process k"
  by (simp_all add: upd_pcb_def get_curr_pcb_def)

lemma upd_fdt_sel [simp]: "fdt (upd_fdt i f p) = (fdt p)(i := f (fdt p i))"
  by (simp add: upd_fdt_def)

subsection \<open>Properties\<close>

text \<open>
  The stack pointer identifies the process: anywhere in the 8 KB kernel stack of slot
  \<open>pid\<close>, masking the stack pointer gives the block that \<open>get_pcb_by_pid\<close> gives, the block is
  not null, and no other slot has it.
\<close>

theorem stack_identifies_process:
  assumes "0 \<le> pid" and "pid < 6" and "esp k \<in> kernel_stack pid"
  shows "get_curr_pcb k = get_pcb_by_pid pid \<and> get_curr_pcb k \<noteq> 0 \<and>
    (\<forall>j. 0 \<le> j \<and> j < 6 \<and> get_curr_pcb k = get_pcb_by_pid j \<longrightarrow> j = pid)"
  using get_curr_pcb_stack [OF assms] pcb_inj [OF assms(1,2)] pcb_not_null [OF assms(1,2)] by metis

theorem stack_identifies_process_witness:
  "get_curr_pcb (boot_kernel\<lparr>esp := 0x7FBFF0\<rparr>) = get_pcb_by_pid 2"
proof -
  have "esp (boot_kernel\<lparr>esp := 0x7FBFF0\<rparr>) \<in> kernel_stack 2" by (simp add: kernel_stack_def)
  with stack_identifies_process [of 2 "boot_kernel\<lparr>esp := 0x7FBFF0\<rparr>"] show ?thesis by simp
qed

end
