(* ===== verification/Files.thy ===== *)
theory Files
  imports Pcb
begin

section \<open>File and directory operations\<close>

text \<open>
  The file operations of \<open>src/student-distrib/file_system.c\<close> that system calls reach through
  a descriptor: they find the block of the running process from the stack pointer, read the image
  through the kernel's address space, and store into the caller's buffer.
\<close>

subsection \<open>Operations\<close>

definition file_open :: "view \<Rightarrow> int" where
  "file_open filename = 0"

definition file_close :: "int \<Rightarrow> int" where
  "file_close fd = 0"

definition file_read :: "int \<Rightarrow> u32 \<Rightarrow> int \<Rightarrow> kernel \<Rightarrow> int \<times> kernel" where
  "file_read fd buf nbytes k =
     (let file_pcb = get_curr_pcb k;
          offset = file_position (fdt (pcbs k file_pcb) fd);
          inode = inode_idx (fdt (pcbs k file_pcb) fd);
          (rd, stored) = read_data (vmem k) (fs k) inode offset (word_of_int nbytes);
          k1 = vstore buf stored k;
          k2 = upd_pcb file_pcb (upd_fdt fd (\<lambda>e. e\<lparr>file_position := file_position e + word_of_int rd\<rparr>)) k1
      in (rd, k2))"

definition file_write :: "int \<Rightarrow> u32 \<Rightarrow> int \<Rightarrow> int" where
  "file_write fd buf nbytes = -1"

definition dir_open :: "view \<Rightarrow> int" where
  "dir_open filename = 0"

definition dir_close :: "int \<Rightarrow> int" where
  "dir_close fd = 0"

definition dir_read :: "int \<Rightarrow> u32 \<Rightarrow> int \<Rightarrow> kernel \<Rightarrow> (int \<times> kernel) option" where
  "dir_read fd buf nbytes k =
     (let num_dir = get_num_dir_entries (fs k);
          p = get_curr_pcb k;
          dir_pos = sint (file_position (fdt (pcbs k p) fd))
      in if dir_pos \<ge> num_dir then Some (0, k)
         else let (r, curr_dir) = read_dentry_by_index (vmem k) (fs k) (word_of_int dir_pos) (fresh k)
              in if r = -1 then Some (-1, k)
                 else let k1 = vstore buf (bytes (strncpy (view_of (vmem k) buf) (de_file_name curr_dir) 32) 32) k;
                          k2 = upd_pcb p (upd_fdt fd (\<lambda>e. e\<lparr>file_position := file_position e + 1\<rparr>)) k1;
                          file_name_buf = (strncpy (fresh k) (de_file_name curr_dir) 32)(32 := 0)
                      in map_option (\<lambda>n. (sint n, k2)) (strlen file_name_buf))"

definition dir_write :: "int \<Rightarrow> u32 \<Rightarrow> int \<Rightarrow> int" where
  "dir_write fd buf nbytes = -1"

subsection \<open>Stores through a contiguous mapping\<close>

definition maps_range :: "kernel \<Rightarrow> u32 \<Rightarrow> u32 \<Rightarrow> nat \<Rightarrow> bool" where
  "maps_range k va pa n \<longleftrightarrow> (\<forall>i<n. paddr k (va + of_nat i) = Some (pa + of_nat i))"

lemma vstore_eq:
  assumes "maps_range k va pa (length bs)" and "length bs \<le> 2 ^ 32"
  shows "vstore va bs k = k\<lparr>phys := (\<lambda>p. if unat (p - pa) < length bs then bs ! unat (p - pa) else phys k p)\<rparr>"
  using assms
proof (induction bs arbitrary: va pa k)
  case Nil
  then show ?case by simp
next
  case (Cons b bs)
  have m: "paddr k va = Some pa" "maps_range k (va + 1) (pa + 1) (length bs)"
    using Cons.prems(1) by (auto simp: maps_range_def add.assoc dest: spec [of _ 0] spec [of _ "Suc _"])
  let ?k = "k\<lparr>phys := (phys k)(pa := b)\<rparr>"
  have "maps_range ?k (va + 1) (pa + 1) (length bs)" using m(2) by (simp add: maps_range_def)
  note IH = Cons.IH [OF this]
  have "(if unat (p - (pa + 1)) < length bs then bs ! unat (p - (pa + 1)) else (if p = pa then b else phys k p)) =
      (if unat (p - pa) < Suc (length bs) then (b # bs) ! unat (p - pa) else phys k p)" for p
  proof (cases "p = pa")
    case True
    then show ?thesis using Cons.prems(2) by (simp add: unsigned_minus_1_eq_mask mask_eq_exp_minus_1)
  next
    case False
    then have "unat (p - pa) = Suc (unat (p - pa - 1))"
      using unat_pred [of "p - pa"] by (metis Suc_pred' bot_nat_0.not_eq_extremum eq_iff_diff_eq_0 unat_eq_0)
    with False show ?thesis by (simp add: diff_diff_add)
  qed
  then show ?case using Cons.prems IH m(1) by (simp add: vwrite_def cong: if_cong)
qed

lemma vstore_sel [simp]:
  "pcbs (vstore a bs k) = pcbs k" "esp (vstore a bs k) = esp k" "fs (vstore a bs k) = fs k"
  "get_curr_pcb (vstore a bs k) = get_curr_pcb k" "paddr (vstore a bs k) = paddr k"
proof -
  have "\<exists>m. vstore a bs k = k\<lparr>phys := m\<rparr>"
  proof (induction bs arbitrary: a k)
    case (Cons b bs)
    have "\<exists>m. vwrite a b k = k\<lparr>phys := m\<rparr>"
      by (cases "paddr k a") (auto simp: vwrite_def intro: exI [of _ "phys k"])
    with Cons.IH [of "a + 1" "vwrite a b k"] show ?case by auto
  next
    case Nil
    show ?case by (rule exI [of _ "phys k"]) simp
  qed
  then show "pcbs (vstore a bs k) = pcbs k" "esp (vstore a bs k) = esp k" "fs (vstore a bs k) = fs k"
    "get_curr_pcb (vstore a bs k) = get_curr_pcb k" "paddr (vstore a bs k) = paddr k"
    by (auto simp: get_curr_pcb_def)
qed

lemma paddr_upd_pcb [simp]: "paddr (upd_pcb p f k) = paddr k"
  by (rule paddr_cong) (simp_all add: upd_pcb_def)

text \<open>A buffer that was stored reads back.\<close>

lemma vmem_vstore:
  assumes "maps_range k va pa (length bs)" and "length bs \<le> 2 ^ 32" and "i < length bs"
  shows "vmem (vstore va bs k) (va + of_nat i) = bs ! i"
proof -
  have "unat (of_nat i :: u32) = i" using assms(2,3) by (simp add: wsimps)
  then show ?thesis
    using assms by (simp add: vmem_def maps_range_def vstore_eq [OF assms(1,2)])
qed

lemma vmem_upd_pcb [simp]: "vmem (upd_pcb p f k) = vmem k"
  by (rule ext) (simp add: vmem_def split: option.split)

subsection \<open>Reading a file\<close>

text \<open>What is left of the file behind a descriptor, cut at the length asked for.\<close>

definition next_chunk :: "kernel \<Rightarrow> fdt_entry \<Rightarrow> int \<Rightarrow> u8 list" where
  "next_chunk k e nbytes =
     take (nat nbytes) (drop (unat (file_position e)) (file_contents (vmem k) (fs k) (inode_idx e)))"

definition good_file :: "kernel \<Rightarrow> fdt_entry \<Rightarrow> bool" where
  "good_file k e \<longleftrightarrow> inode_idx e < num_inodes (fs k) \<and>
     file_size (vmem k) (fs k) (inode_idx e) < 2 ^ 31 \<and>
     unat (file_position e) \<le> file_size (vmem k) (fs k) (inode_idx e)"

lemma file_read_eq:
  assumes "good_file k (fdt (pcbs k (get_curr_pcb k)) fd)" and "0 \<le> nbytes" and "nbytes < 2 ^ 31"
  defines "e \<equiv> fdt (pcbs k (get_curr_pcb k)) fd"
  shows "file_read fd buf nbytes k =
    (int (length (next_chunk k e nbytes)),
     upd_pcb (get_curr_pcb k) (upd_fdt fd (\<lambda>x. x\<lparr>file_position :=
       file_position x + of_nat (length (next_chunk k e nbytes))\<rparr>)) (vstore buf (next_chunk k e nbytes) k))"
proof -
  let ?rd = "read_data (vmem k) (fs k) (inode_idx e) (file_position e) (word_of_int nbytes)"
  have v: "inode_idx e < num_inodes (fs k) \<and> file_size (vmem k) (fs k) (inode_idx e) < 2 ^ 31"
    using assms(1) by (simp add: good_file_def e_def)
  have "uint (word_of_int nbytes :: u32) = nbytes"
    using assms(2,3) by (simp add: uint_word_of_int)
  then have "unat (word_of_int nbytes :: u32) = nat nbytes" by (metis nat_uint_eq)
  then have snd: "snd ?rd = next_chunk k e nbytes"
    using fsimg.rd_snd [OF v, of "file_position e" "word_of_int nbytes"] by (simp add: next_chunk_def)
  moreover have "fst ?rd = int (length (next_chunk k e nbytes))"
    using fsimg.rd_fst [OF v, of "file_position e" "word_of_int nbytes"] by (simp add: snd)
  ultimately have "?rd = (int (length (next_chunk k e nbytes)), next_chunk k e nbytes)"
    by (simp add: prod_eq_iff)
  then show ?thesis by (simp add: file_read_def e_def Let_def)
qed

subsection \<open>Listing a directory\<close>

text \<open>The 32 bytes that a name fills in the caller's buffer.\<close>

definition name32 :: "u8 list \<Rightarrow> u8 list" where
  "name32 nm = map (\<lambda>i. if i < length nm then nm ! i else 0) [0..<32]"

lemma load_struct_name:
  "cprefix 32 (load_struct d m (dentry_addr f i) 64) = dentry_name m f i"
proof -
  have "bytes (load_struct d m (dentry_addr f i) 64) 32 = bytes (view_of m (dentry_addr f i)) 32"
    by (simp add: bytes_def load_struct_def)
  then show ?thesis by (simp add: cprefix_def dentry_name_def)
qed

lemma strncpy_name:
  assumes "cprefix 32 v = nm"
  shows "bytes (strncpy d v 32) 32 = name32 nm"
    and "strlen ((strncpy d v 32)(32 := 0)) = Some (of_nat (length nm))"
proof -
  have n: "length nm \<le> 32" using assms length_cprefix_le [of 32 v] by simp
  show "bytes (strncpy d v 32) 32 = name32 nm"
    using assms cprefix_nth [of _ 32 v] by (intro nth_equalityI) (auto simp: strncpy_eq name32_def)
  have "is_cstr ((strncpy d v 32)(32 := 0)) (length nm)"
    using n assms cprefix_nonzero [of _ 32 v] by (intro is_cstrI) (auto simp: strncpy_eq)
  with n show "strlen ((strncpy d v 32)(32 := 0)) = Some (of_nat (length nm))"
    by (intro strlen_cstr) auto
qed

lemma dir_read_entry:
  fixes k :: kernel and fd :: int
  defines "e \<equiv> fdt (pcbs k (get_curr_pcb k)) fd"
  defines "nm \<equiv> dentry_name (vmem k) (fs k) (unat (file_position e))"
  assumes "int (unat (file_position e)) < sint (num_dir_entries (fs k))"
  shows "dir_read fd buf nbytes k = Some (int (length nm),
    upd_pcb (get_curr_pcb k) (upd_fdt fd (\<lambda>x. x\<lparr>file_position := file_position x + 1\<rparr>))
      (vstore buf (name32 nm) k))"
proof -
  let ?i = "unat (file_position e)"
  have num: "sint (num_dir_entries (fs k)) = int (unat (num_dir_entries (fs k)))"
    using assms(3) by (intro sint_nonneg) linarith
  have "int ?i < int 2147483648" using assms(3) sint_lt [of "num_dir_entries (fs k)"] by simp
  then have pos: "sint (file_position e) = int ?i"
    by (intro sint_small) (simp only: of_nat_less_iff)
  have "read_dentry_by_index (vmem k) (fs k) (word_of_int (int ?i)) (fresh k) =
      (0, load_struct (fresh k) (vmem k) (dentry_addr (fs k) ?i) 64)"
    using assms(3) num by (simp add: read_dentry_by_index_def dentry_addr_def word_less_def)
  moreover have "length nm \<le> 32" by (simp add: nm_def dentry_name_def length_cprefix_le)
  then have "sint (of_nat (length nm) :: u32) = int (length nm)" by (simp add: sint_small wsimps)
  moreover note strncpy_name [OF load_struct_name [of "fresh k" "vmem k" "fs k" ?i, folded nm_def]]
  ultimately show ?thesis
    using assms(3) pos
    by (simp add: dir_read_def get_num_dir_entries_def de_file_name_def Let_def e_def [symmetric])
qed

text \<open>What a program does to list a directory: it reads with a buffer of 32 bytes, \<open>n\<close> times, and takes the bytes it was told of.\<close>

fun dir_reads :: "nat \<Rightarrow> int \<Rightarrow> u32 \<Rightarrow> kernel \<Rightarrow> (u8 list list \<times> kernel) option" where
  "dir_reads 0 fd buf k = Some ([], k)"
| "dir_reads (Suc n) fd buf k =
     (case dir_read fd buf 32 k of
        None \<Rightarrow> None
      | Some (r, k1) \<Rightarrow>
          map_option (\<lambda>(names, k'). (map (\<lambda>i. vmem k1 (buf + of_nat i)) [0..<nat r] # names, k')) (dir_reads n fd buf k1))"

text \<open>The state after an entry has been read: the buffer and the position have changed, the directory has not.\<close>

definition dir_step :: "int \<Rightarrow> u32 \<Rightarrow> kernel \<Rightarrow> kernel" where
  "dir_step fd buf k = (let e = fdt (pcbs k (get_curr_pcb k)) fd in
     upd_pcb (get_curr_pcb k) (upd_fdt fd (\<lambda>x. x\<lparr>file_position := file_position x + 1\<rparr>))
       (vstore buf (name32 (dentry_name (vmem k) (fs k) (unat (file_position e)))) k))"

lemma dir_step_sel [simp]:
  "fs (dir_step fd buf k) = fs k" "get_curr_pcb (dir_step fd buf k) = get_curr_pcb k" "paddr (dir_step fd buf k) = paddr k"
  "file_position (fdt (pcbs (dir_step fd buf k) (get_curr_pcb k)) fd) = file_position (fdt (pcbs k (get_curr_pcb k)) fd) + 1"
  by (simp_all add: dir_step_def Let_def)

lemma name32_length [simp]: "length (name32 nm) = 32"
  by (simp add: name32_def)

text \<open>The directory is apart from the buffer when no byte of its entries is one of the 32.\<close>

definition dir_apart :: "kernel \<Rightarrow> u32 \<Rightarrow> bool" where
  "dir_apart k pa \<longleftrightarrow> (\<forall>i j q. int i < sint (num_dir_entries (fs k)) \<and> j < 32 \<and>
     paddr k (dentry_addr (fs k) i + of_nat j) = Some q \<longrightarrow> \<not> unat (q - pa) < 32)"

lemma dir_step_phys:
  assumes "maps_range k buf pa 32"
  shows "\<not> unat (q - pa) < 32 \<Longrightarrow> phys (dir_step fd buf k) q = phys k q"
  using vstore_eq [of k buf pa "name32 nm" for nm] assms by (simp add: dir_step_def Let_def)

lemma dir_step_names:
  assumes "maps_range k buf pa 32" and "dir_apart k pa" and "int i < sint (num_dir_entries (fs k))"
  shows "dentry_name (vmem (dir_step fd buf k)) (fs k) i = dentry_name (vmem k) (fs k) i"
proof -
  have "vmem (dir_step fd buf k) (dentry_addr (fs k) i + of_nat j) = vmem k (dentry_addr (fs k) i + of_nat j)" if "j < 32" for j
    using assms(2,3) that dir_step_phys [OF assms(1), of _ fd]
    by (auto simp: vmem_def dir_apart_def split: option.split)
  then have "bytes (view_of (vmem (dir_step fd buf k)) (dentry_addr (fs k) i)) 32 = bytes (view_of (vmem k) (dentry_addr (fs k) i)) 32"
    by (simp add: bytes_eq_iff view_of_def)
  then show ?thesis by (simp add: dentry_name_def cprefix_def)
qed

lemma dir_step_name:
  fixes k :: kernel and fd :: int
  assumes "maps_range k buf pa 32"
  defines "nm \<equiv> dentry_name (vmem k) (fs k) (unat (file_position (fdt (pcbs k (get_curr_pcb k)) fd)))"
  shows "map (\<lambda>i. vmem (dir_step fd buf k) (buf + of_nat i)) [0..<length nm] = nm"
proof (rule nth_equalityI)
  fix i assume "i < length (map (\<lambda>i. vmem (dir_step fd buf k) (buf + of_nat i)) [0..<length nm])"
  moreover have "length nm \<le> 32" by (simp add: nm_def dentry_name_def length_cprefix_le)
  ultimately have "i < length nm" "i < 32" by simp_all
  then show "map (\<lambda>i. vmem (dir_step fd buf k) (buf + of_nat i)) [0..<length nm] ! i = nm ! i"
    using vmem_vstore [of k buf pa "name32 nm" i] assms(1)
    unfolding dir_step_def Let_def nm_def [symmetric] by (simp add: name32_def)
qed simp

lemma dir_reads_names:
  assumes "maps_range k buf pa 32" and "dir_apart k pa" and "file_position (fdt (pcbs k (get_curr_pcb k)) fd) = of_nat i"
    and "int (i + n) \<le> sint (num_dir_entries (fs k))"
  shows "\<exists>k'. dir_reads n fd buf k = Some (map (dentry_name (vmem k) (fs k)) [i..<i + n], k') \<and>
    fs k' = fs k \<and> get_curr_pcb k' = get_curr_pcb k \<and> file_position (fdt (pcbs k' (get_curr_pcb k)) fd) = of_nat (i + n) \<and>
    (\<forall>q. \<not> unat (q - pa) < 32 \<longrightarrow> phys k' q = phys k q)"
  using assms
proof (induction n arbitrary: k i)
  case (Suc n)
  let ?k = "dir_step fd buf k"
  have "int i < 2 ^ 31" using Suc.prems(4) sint_lt [of "num_dir_entries (fs k)"] by simp
  then have i: "unat (of_nat i :: u32) = i" by (simp add: wsimps)
  have lt: "int i < sint (num_dir_entries (fs k))" using Suc.prems(4) by simp
  have rd: "dir_read fd buf 32 k = Some (int (length (dentry_name (vmem k) (fs k) i)), ?k)"
    using dir_read_entry [of k fd buf 32] lt by (simp add: Suc.prems(3) i dir_step_def Let_def)
  have m: "maps_range ?k buf pa 32" using Suc.prems(1) by (simp add: maps_range_def)
  have a: "dir_apart ?k pa" using Suc.prems(2) by (simp add: dir_apart_def)
  have "\<exists>k'. dir_reads n fd buf ?k = Some (map (dentry_name (vmem ?k) (fs ?k)) [Suc i..<Suc i + n], k') \<and>
      fs k' = fs ?k \<and> get_curr_pcb k' = get_curr_pcb ?k \<and>
      file_position (fdt (pcbs k' (get_curr_pcb ?k)) fd) = of_nat (Suc i + n) \<and>
      (\<forall>q. \<not> unat (q - pa) < 32 \<longrightarrow> phys k' q = phys ?k q)"
    by (rule Suc.IH [OF m a]) (use Suc.prems(3,4) in simp_all)
  then obtain k' where k': "dir_reads n fd buf ?k = Some (map (dentry_name (vmem ?k) (fs k)) [Suc i..<Suc i + n], k')"
      "fs k' = fs k" "get_curr_pcb k' = get_curr_pcb k" "file_position (fdt (pcbs k' (get_curr_pcb k)) fd) = of_nat (Suc i + n)"
      "\<forall>q. \<not> unat (q - pa) < 32 \<longrightarrow> phys k' q = phys ?k q" by auto
  have "map (dentry_name (vmem ?k) (fs k)) [Suc i..<Suc i + n] = map (dentry_name (vmem k) (fs k)) [Suc i..<Suc i + n]"
    by (rule map_cong [OF refl dir_step_names [OF Suc.prems(1,2)]]) (use Suc.prems(4) in auto)
  moreover have "map (\<lambda>i. vmem ?k (buf + of_nat i)) [0..<length (dentry_name (vmem k) (fs k) i)] = dentry_name (vmem k) (fs k) i"
    using dir_step_name [OF Suc.prems(1), of fd] by (simp add: Suc.prems(3) i)
  moreover have "[i..<i + Suc n] = i # [Suc i..<Suc i + n]" by (simp add: upt_rec)
  ultimately show ?case
    using k' rd dir_step_phys [OF Suc.prems(1), of _ fd] by (simp del: upt_Suc)
qed simp

lemma dir_read_end:
  assumes "sint (num_dir_entries (fs k)) \<le> sint (file_position (fdt (pcbs k (get_curr_pcb k)) fd))"
  shows "dir_read fd buf nbytes k = Some (0, k)"
  using assms by (simp add: dir_read_def get_num_dir_entries_def Let_def)

subsection \<open>Properties\<close>

text \<open>
  C15. \<open>file_read\<close> delivers the file in order: it returns the number of bytes up to the end of
  the file, at most \<open>nbytes\<close>, the caller's buffer then holds exactly those bytes of the file
  that follow the position of the descriptor, the position moves behind them and stays inside
  the file, and no other descriptor and no other process is touched.
\<close>

theorem file_read_delivers:
  fixes k :: kernel and fd nbytes :: int
  defines "e \<equiv> fdt (pcbs k (get_curr_pcb k)) fd"
  defines "bs \<equiv> next_chunk k e nbytes"
  assumes "good_file k e" and "0 \<le> nbytes" and "nbytes < 2 ^ 31" and "maps_range k buf pa (length bs)"
  shows "let (r, k') = file_read fd buf nbytes k; e' = fdt (pcbs k' (get_curr_pcb k)) fd in
    r = int (length bs) \<and> (\<forall>i<length bs. vmem k' (buf + of_nat i) = bs ! i) \<and>
    unat (file_position e') = unat (file_position e) + length bs \<and>
    unat (file_position e') \<le> file_size (vmem k) (fs k) (inode_idx e) \<and>
    (\<forall>p i. (p, i) \<noteq> (get_curr_pcb k, fd) \<longrightarrow> fdt (pcbs k' p) i = fdt (pcbs k p) i)"
proof -
  have len: "unat (file_position e) + length bs \<le> file_size (vmem k) (fs k) (inode_idx e)"
    using assms(3) by (auto simp: bs_def next_chunk_def good_file_def file_contents_def min_def)
  moreover have "file_size (vmem k) (fs k) (inode_idx e) < 2 ^ 31"
    using assms(3) by (simp add: good_file_def)
  ultimately have "unat (file_position e + of_nat (length bs)) = unat (file_position e) + length bs"
    "length bs \<le> 2 ^ 32"
    by (simp_all add: unat_word_ariths wsimps)
  moreover have "file_read fd buf nbytes k = (int (length bs),
      upd_pcb (get_curr_pcb k) (upd_fdt fd (\<lambda>x. x\<lparr>file_position := file_position x + of_nat (length bs)\<rparr>))
        (vstore buf bs k))"
    using assms(3-5) file_read_eq [of k fd nbytes buf] by (simp add: e_def bs_def)
  ultimately show ?thesis
    using len assms(6) by (simp add: e_def vmem_vstore)
qed

text \<open>A process in slot 0 with the demonstration file open, its buffer in kernel memory.\<close>

definition demo_process :: kernel where
  "demo_process = boot_kernel\<lparr>pcbs := (\<lambda>_. zero_pcb)(0x7FE000 := zero_pcb\<lparr>fdt := (\<lambda>_. zero_fdt_entry)
     (2 := zero_fdt_entry\<lparr>fot_ptr := file_fot, enabled := True, file_position := 1\<rparr>)\<rparr>)\<rparr>"

lemma demo_process_simps:
  "get_curr_pcb demo_process = 0x7FE000"
  "fdt (pcbs demo_process 0x7FE000) 2 = zero_fdt_entry\<lparr>fot_ptr := file_fot, enabled := True, file_position := 1\<rparr>"
  "vmem demo_process = (\<lambda>a. demo_mem (a - 0x600000))"
  "fs demo_process = file_system_init (\<lambda>a. demo_mem (a - 0x600000)) 0x600000"
  "paddr demo_process a = Some a"
  by (simp_all add: demo_process_def boot_kernel_def get_curr_pcb_def vmem_def paddr_def fun_eq_iff)

lemma demo_process_file:
  "num_inodes (fs demo_process) = 1" "file_size (vmem demo_process) (fs demo_process) 0 = 5"
  unfolding demo_process_simps by code_simp+

lemma demo_process_byte:
  "k < 5 \<Longrightarrow> file_byte (vmem demo_process) (fs demo_process) (inode_addr (fs demo_process) 0) k =
     of_char (''hello'' ! k)"
proof -
  assume "k < 5"
  then have "k = 0 \<or> k = 1 \<or> k = 2 \<or> k = 3 \<or> k = 4" by linarith
  then show ?thesis
    unfolding demo_process_simps
    by (elim disjE) (simp_all add: file_byte_def data_block_addr_def data_block_indices_def
        file_system_init_def u32_at_def le32_def demo_mem_def lit_def bb_num_inodes_def inode_addr_def)
qed

lemma demo_process_chunk:
  "next_chunk demo_process (zero_fdt_entry\<lparr>fot_ptr := file_fot, enabled := True, file_position := 1\<rparr>) 3 =
     map of_char ''ell''"
  by (simp add: next_chunk_def zero_fdt_entry_def file_contents_def demo_process_file demo_process_byte upt_rec)

theorem file_read_delivers_witness:
  "let k' = snd (file_read 2 0x700000 3 demo_process)
   in fst (file_read 2 0x700000 3 demo_process) = 3 \<and> vmem k' 0x700000 = of_char (CHR ''e'') \<and>
      unat (file_position (fdt (pcbs k' 0x7FE000) 2)) = 4"
proof -
  let ?e = "zero_fdt_entry\<lparr>fot_ptr := file_fot, enabled := True, file_position := 1\<rparr>"
  have "good_file demo_process ?e"
    by (simp add: good_file_def demo_process_file zero_fdt_entry_def)
  moreover have "maps_range demo_process 0x700000 0x700000 n" for n
    by (simp add: maps_range_def demo_process_simps)
  ultimately show ?thesis
    using file_read_delivers [of demo_process 2 3 "0x700000" "0x700000"]
    by (auto simp: demo_process_simps(1,2) demo_process_chunk Let_def split_beta dest: spec [of _ 0])
qed

text \<open>
  C30. A directory is listed by reading it: a program that reads a directory descriptor from its start, each time with a buffer
  of 32 bytes that does not overlap the directory, is given the names of the entries one after the other, each as the bytes of the
  buffer that the returned number counts; the read after the last entry returns 0 and changes nothing, and
  no memory outside the buffer changes.
\<close>

theorem dir_read_lists:
  fixes k :: kernel and fd :: int
  defines "n \<equiv> nat (sint (num_dir_entries (fs k)))"
  assumes "0 \<le> sint (num_dir_entries (fs k))" and "file_position (fdt (pcbs k (get_curr_pcb k)) fd) = 0"
    and "maps_range k buf pa 32" and "dir_apart k pa"
  shows "\<exists>k'. dir_reads n fd buf k = Some (map (dentry_name (vmem k) (fs k)) [0..<n], k') \<and>
    dir_read fd buf 32 k' = Some (0, k') \<and> (\<forall>q. \<not> unat (q - pa) < 32 \<longrightarrow> phys k' q = phys k q)"
proof -
  obtain k' where k': "dir_reads n fd buf k = Some (map (dentry_name (vmem k) (fs k)) [0..<n], k')" "fs k' = fs k"
    "get_curr_pcb k' = get_curr_pcb k" "file_position (fdt (pcbs k' (get_curr_pcb k)) fd) = of_nat n"
    "\<forall>q. \<not> unat (q - pa) < 32 \<longrightarrow> phys k' q = phys k q"
    using dir_reads_names [OF assms(4,5), of fd 0 n] assms(2,3) by (auto simp: n_def)
  have "int n < 2 ^ 31" using sint_lt [of "num_dir_entries (fs k)"] assms(2) by (simp add: n_def)
  then have "sint (of_nat n :: u32) = int n" by (simp add: sint_small wsimps)
  then have "dir_read fd buf 32 k' = Some (0, k')"
    using k'(2-4) assms(2) by (intro dir_read_end) (simp add: n_def)
  with k'(1,5) show ?thesis by blast
qed

theorem dir_read_lists_witness:
  "\<exists>k'. dir_reads 1 3 0x500000 demo_process = Some ([map of_char ''frame0''], k') \<and> dir_read 3 0x500000 32 k' = Some (0, k')"
proof -
  have n: "sint (num_dir_entries (fs demo_process)) = 1" "dir_entries (fs demo_process) = 0x600040"
    and nm: "dentry_name (vmem demo_process) (fs demo_process) 0 = map of_char ''frame0''"
    unfolding demo_process_simps by code_simp+
  have p: "file_position (fdt (pcbs demo_process (get_curr_pcb demo_process)) 3) = 0"
    by (simp add: demo_process_simps(1)) (simp add: demo_process_def zero_fdt_entry_def)
  have m: "maps_range demo_process 0x500000 0x500000 32"
    by (simp add: maps_range_def demo_process_simps)
  have "\<not> unat ((0x100040 :: u32) + of_nat j) < 32" if "j < 32" for j using that by (simp add: unat_word_ariths wsimps)
  then have "dir_apart demo_process 0x500000"
    using n by (simp add: dir_apart_def dentry_addr_def demo_process_simps(5))
  from dir_read_lists [OF _ p m this] n(1) nm show ?thesis by auto
qed

end
