(* ===== verification/Terminal.thy ===== *)
theory Terminal
  imports Keyboard Files
begin

section \<open>Terminal files\<close>

text \<open>
  \<open>src/student-distrib/terminal.c\<close>: the file operations of the standard input and output.
  A read waits until the keyboard handler has entered a line on the terminal of the reader.
\<close>

subsection \<open>Operations\<close>

definition terminal_open :: "view \<Rightarrow> int" where
  "terminal_open filename = 0"

definition terminal_close :: "int \<Rightarrow> int" where
  "terminal_close fd = 0"

text \<open>The loop that ends the line: the first NUL among the given places becomes a line end.\<close>

fun end_line :: "nat list \<Rightarrow> view \<Rightarrow> view" where
  "end_line [] v = v"
| "end_line (i # is) v = (if v (int i) = 0 then v(int i := 10) else end_line is v)"

text \<open>
  A negative length makes an array of negative size, which has no meaning in C: \<open>None\<close>. With a
  length of zero the store at \<open>nbytes - 1\<close> is outside the array, and the array has no
  other byte that matters.
\<close>

definition terminal_read ::
    "int \<Rightarrow> u32 \<Rightarrow> int \<Rightarrow> kernel \<Rightarrow> interrupt list \<Rightarrow> (int \<times> kernel \<times> interrupt list) option" where
  "terminal_read fd buf nbytes k hs =
     (if buf = 0 then Some (ERROR, k, hs)
      else let n = (if nbytes > BUF_SIZE then BUF_SIZE else nbytes) in
        if n < 0 then None
        else let k1 = sti k;
                 k2 = upd_terminal (curr_process k1) (\<lambda>t. t\<lparr>buffer_updated := 0\<rparr>) k1
          in case spin (\<lambda>k. buffer_updated (terminals k (curr_process k)) \<noteq> 0) k2 hs of
               None \<Rightarrow> None
             | Some (k3, hs') \<Rightarrow>
                 let copied = copy_upto n (typed (terminals k3 (curr_process k3))) (fresh k3);
                     final_buf = end_line [0..<nat n] (copied(n - 1 := 0));
                     k4 = clear_buffer k3;
                     k5 = vstore buf (bytes final_buf (nat n)) k4
                 in Some (written_bytes (terminals k5 (curr_process k5)), k5, hs'))"

definition prompt :: view where
  "prompt = lit ''391OS> ''"

definition BBprompt :: "u8 list" where
  "BBprompt = [0xF4] @ chars '' [BigBrainOS] '' @ [10, 0xF5] @ chars '' '' @ [0xAF] @ chars '' ''"

definition terminal_write :: "int \<Rightarrow> u32 \<Rightarrow> int \<Rightarrow> kernel \<Rightarrow> int \<times> kernel" where
  "terminal_write fd buf nbytes k =
     (if buf = 0 then (ERROR, k)
      else if strncmp (view_of (vmem k) buf) prompt 7 = 0
      then (int (length BBprompt), fold putc BBprompt k)
      else (nbytes, fold (\<lambda>i k. let c = vmem k (buf + of_nat i) in if c \<noteq> 0 then putc c k else k)
                      [0..<nat nbytes] k))"

definition KB_int :: "u8 \<Rightarrow> interrupt" where
  "KB_int scancode k = KB_handler scancode k"

subsection \<open>Writing\<close>

text \<open>The text that a write shows.\<close>

definition shown_text :: "u8 list \<Rightarrow> bool \<Rightarrow> u8 list" where
  "shown_text bs is_prompt = (if is_prompt then BBprompt else filter (\<lambda>b. b \<noteq> 0) bs)"

lemma prompt_cprefix: "cprefix 7 prompt = chars ''391OS> ''"
  by code_simp

lemma vmem_con_frame:
  assumes "con_frame F k k'" and "\<And>p. paddr k a = Some p \<Longrightarrow> \<not> p - F < 4000"
  shows "vmem k' a = vmem k a"
proof -
  have "paddr k' = paddr k" using con_frameD [OF assms(1)] by (intro paddr_cong) auto
  with assms con_frame_phys [OF assms(1)] show ?thesis
    by (simp add: vmem_def split: option.split)
qed

lemma write_loop:
  assumes "maps_page k VIDEO F" and "cursor_ok k"
    and "\<And>i p. i \<in> set is \<Longrightarrow> paddr k (buf + of_nat i) = Some p \<Longrightarrow> \<not> p - F < 4000"
  shows "fold (\<lambda>i k. let c = vmem k (buf + of_nat i) in if c \<noteq> 0 then putc c k else k) is k =
    fold putc (filter (\<lambda>b. b \<noteq> 0) (map (\<lambda>i. vmem k (buf + of_nat i)) is)) k"
  using assms
proof (induction "is" arbitrary: k)
  case (Cons i "is")
  let ?c = "vmem k (buf + of_nat i)"
  have later: "\<And>j p. j \<in> set is \<Longrightarrow> paddr k (buf + of_nat j) = Some p \<Longrightarrow> \<not> p - F < 4000"
    using Cons.prems(3) by (meson list.set_intros(2))
  show ?case
  proof (cases "?c = 0")
    case True
    then show ?thesis using Cons.IH [OF Cons.prems(1,2) later] by (simp add: Let_def)
  next
    case False
    note r = putc_refine [OF Cons.prems(1,2), of ?c]
    have p: "paddr (putc ?c k) = paddr k" using con_frameD [OF r(3)] by (intro paddr_cong) auto
    have "maps_page (putc ?c k) VIDEO F" using Cons.prems(1) con_frame_maps [OF r(3)] by simp
    note IH = Cons.IH [OF this r(2), unfolded p, OF later]
    have "vmem (putc ?c k) (buf + of_nat j) = vmem k (buf + of_nat j)" if "j \<in> set is" for j
      using that later by (intro vmem_con_frame [OF r(3)]) auto
    then have "map (\<lambda>i. vmem (putc ?c k) (buf + of_nat i)) is = map (\<lambda>i. vmem k (buf + of_nat i)) is"
      by simp
    with IH False show ?thesis by (simp add: Let_def)
  qed
qed simp

subsection \<open>Reading\<close>

lemma end_line_first:
  assumes "j < n" and "v (int j) = 0" and "\<And>i. i < j \<Longrightarrow> v (int i) \<noteq> 0"
  shows "end_line [0..<n] v = v(int j := 10)"
proof -
  have "end_line [m..<n] v = v(int j := 10)" if "m \<le> j" for m
    using that assms
  proof (induction "j - m" arbitrary: m)
    case 0
    then have "m = j" by simp
    with 0 show ?case by (simp add: upt_conv_Cons)
  next
    case (Suc d)
    then have m: "m < j" "d = j - Suc m" by simp_all
    then have "end_line [m..<n] v = end_line [Suc m..<n] v"
      using assms(1,3) by (subst upt_conv_Cons) simp_all
    also have "\<dots> = v(int j := 10)" using m Suc.hyps(1) [of "Suc m"] assms by simp
    finally show ?case .
  qed
  then show ?thesis by simp
qed

text \<open>The bytes a reader gets of an entered line.\<close>

definition read_text :: "u8 list \<Rightarrow> nat \<Rightarrow> u8 list" where
  "read_text l n = take (n - 1) l @ [10]"

lemma final_buf_text:
  assumes "0 < n" and "n \<le> 128" and "length (cprefix 128 v) < 128"
  shows "take (length (read_text (cprefix 128 v) n))
      (bytes (end_line [0..<n] ((copy_upto (int n) v w)(int n - 1 := 0))) n) = read_text (cprefix 128 v) n"
proof -
  let ?l = "cprefix 128 v"
  let ?j = "min (length ?l) (n - 1)"
  let ?v = "(copy_upto (int n) v w)(int n - 1 := 0)"
  have j: "?j < n" "?j \<le> length ?l" using assms(1) by auto
  have below: "?v (int i) = ?l ! i \<and> ?v (int i) \<noteq> 0" if "i < ?j" for i
    using that cprefix_nth [of i 128 v] cprefix_nonzero [of i 128 v] by auto
  have "?v (int ?j) = 0"
    using cprefix_end [OF assms(3)] assms(1) by (cases "length ?l < n - 1") (auto simp: min_def)
  from end_line_first [of ?j n ?v, OF j(1) this] below
  have e: "end_line [0..<n] ?v = ?v(int ?j := 10)" by blast
  have len: "length (read_text ?l n) = Suc ?j" by (simp add: read_text_def min.commute)
  show ?thesis unfolding e len
  proof (rule nth_equalityI)
    show "length (take (Suc ?j) (bytes (?v(int ?j := 10)) n)) = length (read_text ?l n)"
      using j(1) by (simp add: len)
  next
    fix i assume "i < length (take (Suc ?j) (bytes (?v(int ?j := 10)) n))"
    then have i: "i < Suc ?j" "i < n" using j(1) by auto
    show "take (Suc ?j) (bytes (?v(int ?j := 10)) n) ! i = read_text ?l n ! i"
    proof (cases "i = ?j")
      case True
      then show ?thesis using i by (simp add: read_text_def nth_append)
    next
      case False
      then have "i < ?j" using i by linarith
      then show ?thesis using i False below [of i] by (simp add: read_text_def nth_append)
    qed
  qed
qed

text \<open>
  The keys that a sequence of scan codes means. What a scan code means depends on the modifiers
  alone, and \<open>press\<close> is what it does to them.
\<close>

definition mods :: "kernel \<Rightarrow> bool \<times> bool \<times> bool \<times> bool" where
  "mods k = (shift_pressed k, control_pressed k, alt_pressed k, caps_lock_on k)"

definition press :: "u8 \<Rightarrow> kernel \<Rightarrow> kernel" where
  "press c k =
     (if c = 0x2A \<or> c = 0x36 then k\<lparr>shift_pressed := True\<rparr>
      else if c = 0xAA \<or> c = 0xB6 then k\<lparr>shift_pressed := False\<rparr>
      else if c = 0x1D then k\<lparr>control_pressed := True\<rparr>
      else if c = 0x9D then k\<lparr>control_pressed := False\<rparr>
      else if c = 0x38 then k\<lparr>alt_pressed := True\<rparr>
      else if c = 0xB8 then k\<lparr>alt_pressed := False\<rparr>
      else if c = 0x3A then k\<lparr>caps_lock_on := \<not> caps_lock_on k\<rparr> else k)"

fun keys_of :: "kernel \<Rightarrow> u8 list \<Rightarrow> key list" where
  "keys_of k [] = []"
| "keys_of k (c # cs) = key_of k c # keys_of (press c k) cs"

lemma key_of_cong: "mods k' = mods k \<Longrightarrow> key_of k' c = key_of k c"
  by (simp only: mods_def prod.inject key_of_def get_character_code_def)

lemma press_cong: "mods k' = mods k \<Longrightarrow> mods (press c k') = mods (press c k)"
  by (auto simp: mods_def press_def)

lemma keys_of_cong: "mods k' = mods k \<Longrightarrow> keys_of k' cs = keys_of k cs"
proof (induction cs arbitrary: k k')
  case (Cons c cs)
  show ?case using key_of_cong [OF Cons.prems] Cons.IH [OF press_cong [OF Cons.prems]] by simp
qed simp

lemma mods_out: "out_frame k k' \<Longrightarrow> mods k' = mods k"
  by (simp add: mods_def out_frameD)

lemma mods_upd [simp]:
  "mods (upd_terminal t f k) = mods k" "mods (k\<lparr>if_flag := b\<rparr>) = mods k" "mods (k\<lparr>outs := ws\<rparr>) = mods k"
  "mods (k\<lparr>curr_ter := n\<rparr>) = mods k" "mods (k\<lparr>phys := m\<rparr>) = mods k" "mods (k\<lparr>tabs := ts\<rparr>) = mods k"
  "mods (k\<lparr>active := a\<rparr>) = mods k"
  by (simp_all add: mods_def upd_terminal_def)

lemma mods_putc [simp]: "mods (putc c k) = mods k"
  by (rule mods_out [OF putc_self_out])

lemma mods_fold: "(\<And>x k. mods (f x k) = mods k) \<Longrightarrow> mods (fold f xs k) = mods k"
  by (induction xs arbitrary: k) simp_all

lemma mods_ops [simp]:
  "mods (retype_buffer k) = mods k" "mods (backspace k) = mods k" "mods (print_char c k) = mods k"
  "mods (enter_key k) = mods k" "mods (control_l k) = mods k"
proof -
  show r: "mods (retype_buffer k) = mods k" for k
    unfolding retype_buffer_def by (rule mods_fold) simp
  have "mods (screen_backspace k) = mods k" by (rule mods_out [OF screen_backspace_out [OF out_frame_refl]])
  then show "mods (backspace k) = mods k" by (simp add: backspace_def)
  show "mods (print_char c k) = mods k" "mods (enter_key k) = mods k"
    by (simp_all add: print_char_def enter_key_def)
  have "mods (set_cursor (reset_cursor (clear k))) = mods k" for k
    by (rule mods_out) (intro frame)
  then show "mods (control_l k) = mods k"
    by (simp add: control_l_def cli_and_save_def restore_flags_def r cli_def)
qed

lemma mods_recall: "recall_line k = Some k' \<Longrightarrow> mods k' = mods k"
  by (auto simp: recall_line_def Let_def mods_fold split: option.splits)

lemma mods_switch: "mods (snd (switch_ter old new k)) = mods k"
proof -
  have "mods (vwrite a b k) = mods k" for a b k
    by (rule mods_out) (intro frame)
  then have "mods (swap_vid_mem old new k) = mods k"
    unfolding swap_vid_mem_def vcopy_def Let_def by (simp add: mods_fold)
  moreover have "mods (change_vidmem n k) = mods k" for n k
    by (simp add: change_vidmem_def flush_TLB_def Let_def split: option.split)
  ultimately show ?thesis by (simp add: switch_ter_def update_cursor_def outb_def Let_def)
qed

lemma mods_key_down: "mods (key_down c k) = mods k"
  by (simp add: key_down_def switch_terminal_or_return_def send_eoi_kb mods_switch handle_char_def)

lemma mods_handler:
  assumes "KB_handler c k = Some k'"
  shows "mods k' = mods (press c k)"
proof (cases "c = 0x48")
  case True
  with assms obtain k1 where "recall_line k = Some k1" "k' = key_down c k1" by (auto simp: KB_handler_def)
  with True mods_recall show ?thesis by (simp add: mods_key_down press_def)
next
  case False
  then show ?thesis
    using assms unfolding KB_handler_def press_def
    by (simp split: if_splits) (auto simp: mods_key_down send_eoi_kb)
qed

text \<open>While only editing keys arrive the reader goes on waiting, and the line is edited.\<close>

lemma spin_edits:
  assumes "live F k" and "curr_process k = curr_ter k" and "\<not> ready (session_of F k)"
    and "\<And>q. q \<in> set (keys_of k cs) \<Longrightarrow> q \<noteq> Return \<and> (\<forall>n. q \<noteq> Show n)"
  defines "over \<equiv> \<lambda>k. buffer_updated (terminals k (curr_process k)) \<noteq> 0"
  shows "\<exists>k'. spin over k (map KB_int cs @ hs) = spin over k' hs \<and>
    edits F (fold session_step (keys_of k cs)) k k' \<and> \<not> ready (session_of F k') \<and>
    keys_of k (cs @ ds) = keys_of k cs @ keys_of k' ds"
  using assms(1-4)
proof (induction cs arbitrary: k)
  case Nil
  then show ?case using edits_id [of F k] by (auto simp: id_def intro!: exI [of _ k])
next
  case (Cons c cs)
  have q: "key_of k c \<noteq> Return" "\<And>n. key_of k c \<noteq> Show n" using Cons.prems(4) by auto
  then obtain k1 where h: "KB_handler c k = Some k1"
    and e: "edits F (session_step (key_of k c)) k k1"
    using edits_handler [OF Cons.prems(1), of c] by auto
  have "\<not> ready (session_step q s)" if "\<not> ready s" "q \<noteq> Return" for q s
    using that by (cases q) simp_all
  then have r: "\<not> ready (session_of F k1)" using e q(1) Cons.prems(3) by (simp add: edits_def)
  have cp: "curr_process k1 = curr_ter k1"
    using e Cons.prems(2) by (simp add: edits_def kb_frame_def)
  have ks: "keys_of k1 cs = keys_of (press c k) cs" for cs
    by (rule keys_of_cong [OF mods_handler [OF h]])
  have "\<And>q. q \<in> set (keys_of k1 cs) \<Longrightarrow> q \<noteq> Return \<and> (\<forall>n. q \<noteq> Show n)"
    using Cons.prems(4) unfolding ks by simp
  from Cons.IH [OF edits_live [OF e] cp r this]
  obtain k' where k': "spin over k1 (map KB_int cs @ hs) = spin over k' hs"
    "edits F (fold session_step (keys_of k1 cs)) k1 k'" "\<not> ready (session_of F k')"
    "keys_of k1 (cs @ ds) = keys_of k1 cs @ keys_of k' ds" by blast
  have "\<not> over k"
    using Cons.prems(2,3) by (simp add: over_def session_of_def text_of_def)
  then have "spin over k (map KB_int (c # cs) @ hs) = spin over k' hs"
    using k'(1) h by (simp add: KB_int_def)
  moreover have "edits F (fold session_step (keys_of k (c # cs))) k k'"
    using edits_trans [OF e k'(2)] by (simp add: comp_def ks)
  moreover have "keys_of k ((c # cs) @ ds) = keys_of k (c # cs) @ keys_of k' ds"
    using k'(4) by (simp add: ks)
  ultimately show ?case using k'(3) by blast
qed

lemma session_sel:
  "ready (session_of F k) \<longleftrightarrow> buffer_updated (shown k) \<noteq> 0"
  "entered (session_of F k) = cprefix 128 (typed (shown k))"
  "count (session_of F k) = written_bytes (shown k)"
  by (simp_all add: session_of_def text_of_def)

lemma spin_return:
  assumes "live F k" and "curr_process k = curr_ter k" and "\<not> ready (session_of F k)"
    and "keys_of k (cs @ [c]) = qs @ [Return]" and "\<And>q. q \<in> set qs \<Longrightarrow> q \<noteq> Return \<and> (\<forall>n. q \<noteq> Show n)"
  defines "over \<equiv> \<lambda>k. buffer_updated (terminals k (curr_process k)) \<noteq> 0"
  shows "\<exists>k3. spin over k (map KB_int (cs @ [c]) @ hs) = Some (k3, hs) \<and>
    edits F (\<lambda>s. session_step Return (fold session_step qs s)) k k3"
proof -
  have "keys_of k (cs @ ds) = keys_of k cs @ keys_of (fold press cs k) ds" for k cs ds
    by (induction cs arbitrary: k) simp_all
  then have ks: "keys_of k cs = qs" using assms(4) by simp
  from spin_edits [OF assms(1-3), of cs "KB_int c # hs" "[c]", folded over_def] assms(5)
  obtain k' where k': "spin over k (map KB_int cs @ KB_int c # hs) = spin over k' (KB_int c # hs)"
    "edits F (fold session_step qs) k k'" "\<not> ready (session_of F k')" "key_of k' c = Return"
    using assms(4) by (auto simp: ks)
  obtain k3 where k3: "KB_handler c k' = Some k3" "edits F (session_step Return) k' k3"
    using edits_handler [OF edits_live [OF k'(2)], of c] k'(4) by auto
  note e = edits_trans [OF k'(2) k3(2)]
  have "ready (session_of F k3)" using e by (simp add: edits_def)
  then have b: "buffer_updated (shown k3) \<noteq> 0" "buffer_updated (shown k') = 0"
    using k'(3) unfolding session_sel by simp_all
  have "\<not> over k'" "over k3"
    using b k'(2) e assms(2) by (simp_all add: over_def edits_def kb_frame_def)
  then have "spin over k (map KB_int (cs @ [c]) @ hs) = Some (k3, hs)"
    using k'(1) k3(1) by (simp add: KB_int_def)
  with e show ?thesis by blast
qed

text \<open>The reader first forgets an earlier line.\<close>

lemma edits_wait:
  assumes "live F k" and "curr_process k = curr_ter k"
  shows "edits F (ready_update (\<lambda>_. False)) k
    (upd_terminal (curr_process k) (\<lambda>t. t\<lparr>buffer_updated := 0\<rparr>) (sti k))"
proof -
  have "live F (sti k)" using assms(1) by (simp add: sti_def edits_flag)
  then have "edits F (ready_update (\<lambda>_. False)) (sti k)
      (upd_terminal (curr_ter (sti k)) (\<lambda>t. t\<lparr>buffer_updated := 0\<rparr>) (sti k))"
    by (rule edits_text) (use assms(1) in \<open>simp_all add: text_of_def live_def term_ok_def sti_def\<close>)
  then show ?thesis using assms(2) by (simp add: sti_def edits_flag)
qed

lemma fold_ready: "\<exists>b'. fold session_step qs (s\<lparr>ready := b\<rparr>) = (fold session_step qs s)\<lparr>ready := b'\<rparr>"
proof (induction qs arbitrary: s b)
  case (Cons q qs)
  have "\<exists>b'. session_step q (s\<lparr>ready := b\<rparr>) = (session_step q s)\<lparr>ready := b'\<rparr>" by (cases s; cases q) auto
  with Cons.IH show ?case by fastforce
qed auto

lemma stored_line:
  assumes "0 < n" and "n \<le> 128" and "term_ok t" and "maps_range k buf pa n" and "cprefix 128 (typed t) = l"
    and "i < length (read_text l n)"
  shows "vmem (vstore buf (bytes (end_line [0..<n] ((copy_upto (int n) (typed t) w)(int n - 1 := 0))) n) k)
    (buf + of_nat i) = read_text l n ! i"
proof -
  let ?bs = "bytes (end_line [0..<n] ((copy_upto (int n) (typed t) w)(int n - 1 := 0))) n"
  have "take (length (read_text l n)) ?bs = read_text l n"
    using final_buf_text [OF assms(1,2), of "typed t" w] assms(3,5) by (simp add: term_ok_def)
  moreover have "length (read_text l n) \<le> n" using assms(1) by (simp add: read_text_def)
  then have "vmem (vstore buf ?bs k) (buf + of_nat i) = ?bs ! i"
    using assms(2,4,6) by (intro vmem_vstore [where pa = pa]) simp_all
  ultimately show ?thesis using assms(6) by (metis nth_take)
qed

lemma terminal_read_eq:
  fixes k3 :: kernel and n :: int
  assumes "buf \<noteq> 0" and n: "n = (if nbytes > 128 then 128 else nbytes)" and "0 \<le> n"
    and "spin (\<lambda>k. buffer_updated (terminals k (curr_process k)) \<noteq> 0)
      (upd_terminal (curr_process k) (\<lambda>t. t\<lparr>buffer_updated := 0\<rparr>) (sti k)) hs = Some (k3, hs')"
    and "curr_process k3 = curr_ter k3"
  defines "bs \<equiv> bytes (end_line [0..<nat n]
      ((copy_upto n (typed (shown k3)) (fresh k3))(n - 1 := 0))) (nat n)"
  shows "terminal_read fd buf nbytes k hs =
    Some (written_bytes (shown k3), vstore buf bs (clear_buffer k3), hs')"
proof -
  have "terminals (vstore a b k) = terminals k \<and> curr_process (vstore a b k) = curr_process k" for a b k
    by (induction b arbitrary: a k) simp_all
  then show ?thesis
    using assms(1,3,4,5) unfolding terminal_read_def n [symmetric] bs_def
    by (simp add: Let_def sti_def clear_buffer_def del: copy_upto_def)
qed

subsection \<open>Properties\<close>

text \<open>
  C33. \<open>terminal_write\<close> puts the bytes of the buffer on the screen, leaving out NULs, and
  returns their number; a buffer that starts with the old shell prompt is shown as the new
  prompt instead, and the length of that is returned. The buffer must not be the screen itself.
\<close>

theorem terminal_write_prints:
  assumes "maps_page k 0xB8000 F" and "cursor_ok k" and "buf \<noteq> 0"
    and "\<forall>i p. i < nat nbytes \<and> paddr k (buf + of_nat i) = Some p \<longrightarrow> \<not> p - F < 4000"
  shows "let (r, k') = terminal_write fd buf nbytes k;
             is_prompt = (cprefix 7 (view_of (vmem k) buf) = chars ''391OS> '') in
    tty_of F k' = fold tty_putc (shown_text (bytes (view_of (vmem k) buf) (nat nbytes)) is_prompt) (tty_of F k) \<and>
    r = (if is_prompt then 20 else nbytes) \<and> cursor_ok k' \<and>
    (\<forall>p. \<not> p - F < 4000 \<longrightarrow> phys k' p = phys k p)"
proof -
  let ?s = "view_of (vmem k) buf"
  have "map (\<lambda>i. vmem k (buf + of_nat i)) [0..<nat nbytes] = bytes ?s (nat nbytes)"
    by (simp add: bytes_def view_of_def)
  with write_loop [OF assms(1,2), of "[0..<nat nbytes]" buf] assms(4)
  have "fold (\<lambda>i k. let c = vmem k (buf + of_nat i) in if c \<noteq> 0 then putc c k else k) [0..<nat nbytes] k =
      fold putc (filter (\<lambda>b. b \<noteq> 0) (bytes ?s (nat nbytes))) k" by simp
  moreover have "strncmp ?s prompt 7 = 0 \<longleftrightarrow> cprefix 7 ?s = chars ''391OS> ''"
    by (simp add: strncmp_eq_0_iff prompt_cprefix)
  moreover have "int (length BBprompt) = 20" by code_simp
  moreover note fold_putc_refine [OF assms(1,2), of BBprompt]
    fold_putc_refine [OF assms(1,2), of "filter (\<lambda>b. b \<noteq> 0) (bytes ?s (nat nbytes))"]
  ultimately show ?thesis
    using assms(3) con_frame_phys
    by (cases "cprefix 7 ?s = chars ''391OS> ''") (simp_all add: terminal_write_def shown_text_def, blast+)
qed

text \<open>A state with the text \<open>hi\<close> at 7 MB.\<close>

definition demo_text :: kernel where
  "demo_text = boot_kernel\<lparr>phys := (\<lambda>_. 0)(0x700000 := 104, 0x700001 := 105)\<rparr>"

lemma demo_text_simps:
  "maps_page demo_text 0xB8000 0xB8000" "cursor_ok demo_text" "paddr demo_text a = Some a"
  "vmem demo_text a = phys demo_text a" "term_ok (terminals demo_text t)"
  "curr_process demo_text = 0" "curr_ter demo_text = 0"
  using boot_term_ok [of t]
  by (simp_all add: maps_page_def paddr_def cursor_ok_def demo_text_def boot_kernel_def vmem_def)

theorem terminal_write_prints_witness:
  "fst (terminal_write 1 0x700000 2 demo_text) = 2 \<and>
   cell (tty_of 0xB8000 (snd (terminal_write 1 0x700000 2 demo_text))) 1 = (105, 7)"
proof -
  have "i = 0 \<or> i = 1" if "i < nat 2" for i using that by auto
  then have i: "\<forall>i p. i < nat 2 \<and> paddr demo_text (0x700000 + of_nat i) = Some p \<longrightarrow> \<not> p - 0xB8000 < 4000"
    by (fastforce simp: demo_text_simps(3))
  have b: "bytes (view_of (vmem demo_text) 0x700000) (nat 2) = [104, 105]"
    by (simp add: bytes_def view_of_def demo_text_simps upt_rec) (simp add: demo_text_def)
  have "cprefix 7 (view_of (vmem demo_text) 0x700000) = [104, 105]"
    by (simp add: cprefix_def bytes_def view_of_def demo_text_simps upt_rec) (simp add: demo_text_def)
  moreover have "chars ''391OS> '' \<noteq> [104, 105]" by code_simp
  ultimately have "cprefix 7 (view_of (vmem demo_text) 0x700000) \<noteq> chars ''391OS> ''" by simp
  with terminal_write_prints [OF demo_text_simps(1,2), of "0x700000" 2 1, OF _ i] b
  have "fst (terminal_write 1 0x700000 2 demo_text) = 2"
    "tty_of 0xB8000 (snd (terminal_write 1 0x700000 2 demo_text)) =
       fold tty_putc [104, 105] (tty_of 0xB8000 demo_text)"
    by (auto simp: shown_text_def split: prod.splits)
  moreover have "cx (tty_of 0xB8000 demo_text) = 0" "cy (tty_of 0xB8000 demo_text) = 0"
    by (simp_all add: tty_of_def demo_text_def boot_kernel_def)
  ultimately show ?thesis by (simp add: tty_putc_def Let_def)
qed

text \<open>
  C10. A line typed at the keyboard is read by the program: when the keys that arrive while the
  program waits edit the line and end with Enter, \<open>terminal_read\<close> returns at that key with the
  length of the edited line plus one for the line end, and its buffer holds the line, cut to
  the room there is, and the line end.
\<close>

theorem typed_line_is_read:
  fixes nbytes :: int
  defines "n \<equiv> nat (min nbytes 128)"
  assumes "maps_page k 0xB8000 F" and "cursor_ok k" and "term_ok (terminals k (curr_ter k))"
    and "curr_process k = curr_ter k" and "buf \<noteq> 0" and "0 < nbytes" and "maps_range k buf pa n"
    and "keys_of k (cs @ [c]) = qs @ [Return]" and "\<forall>q \<in> set qs. q \<noteq> Return \<and> (\<forall>n. q \<noteq> Show n)"
  shows "let l = line (fold session_step qs (session_of F k)) in
    \<exists>k'. terminal_read fd buf nbytes k (map KB_int (cs @ [c]) @ hs) = Some (int (length l) + 1, k', hs) \<and>
      (\<forall>i < length (read_text l n). vmem k' (buf + of_nat i) = read_text l n ! i)"
proof -
  let ?over = "\<lambda>k. buffer_updated (terminals k (curr_process k)) \<noteq> 0"
  define k2 where "k2 = upd_terminal (curr_process k) (\<lambda>t. t\<lparr>buffer_updated := 0\<rparr>) (sti k)"
  have e2: "edits F (ready_update (\<lambda>_. False)) k k2"
    using edits_wait [of F k] assms(2-5) by (simp add: k2_def live_def)
  have cp: "curr_process k2 = curr_ter k2" using assms(5) by (simp add: k2_def sti_def)
  have "keys_of k2 (cs @ [c]) = qs @ [Return]"
    using keys_of_cong [of k2 k] assms(9) by (simp add: k2_def sti_def)
  from spin_return [OF edits_live [OF e2] cp _ this] assms(10) e2
  obtain k3 where sp: "spin ?over k2 (map KB_int (cs @ [c]) @ hs) = Some (k3, hs)"
    and e3: "edits F (\<lambda>s. session_step Return (fold session_step qs s)) k2 k3"
    by (auto simp: edits_def)
  note e = edits_trans [OF e2 e3]
  define l where "l = line (fold session_step qs (session_of F k))"
  have l: "cprefix 128 (typed (shown k3)) = l" and w: "written_bytes (shown k3) = int (length l) + 1"
    using e fold_ready [where s = "session_of F k" and b = False and qs = qs] session_sel(2,3) [of F k3]
    by (auto simp: edits_def l_def)
  have cp3: "curr_process k3 = curr_ter k3" using e assms(5) by (simp add: edits_def kb_frame_def)
  have "paddr (clear_buffer k3) = paddr k"
    using e by (intro paddr_cong) (simp_all add: edits_def kb_frame_def clear_buffer_def)
  then have m: "maps_range (clear_buffer k3) buf pa n" using assms(8) by (simp add: maps_range_def)
  have t: "term_ok (shown k3)" using edits_live [OF e] by (simp add: live_def)
  have n: "int n = (if nbytes > 128 then 128 else nbytes)" "0 < n" "n \<le> 128"
    using assms(7) by (auto simp: n_def)
  note terminal_read_eq [OF assms(6) n(1) _ sp [unfolded k2_def] cp3, of fd, unfolded w nat_int]
  then show ?thesis
    using stored_line [OF n(2,3) t m l] unfolding l_def [symmetric] Let_def by auto
qed

theorem typed_line_is_read_witness:
  "\<exists>k'. terminal_read 0 0x700000 128 demo_text (map KB_int [0x1E, 0x2A, 0x30, 0x1C]) = Some (3, k', []) \<and>
     vmem k' 0x700000 = 97 \<and> vmem k' 0x700001 = 66 \<and> vmem k' 0x700002 = 10"
proof -
  have "kbdus ! 30 = 97" "shift_kbdus ! 48 = 66" "shift_kbdus ! 28 = 10" by code_simp+
  then have keys: "keys_of demo_text ([0x1E, 0x2A, 0x30] @ [0x1C]) = [Insert 97, Silent, Insert 66] @ [Return]"
    by (simp add: press_def key_of_def get_character_code_def demo_text_def boot_kernel_def Let_def)
  have cp: "curr_process demo_text = curr_ter demo_text" by (simp add: demo_text_simps)
  have mr: "maps_range demo_text 0x700000 0x700000 (nat (min 128 128))"
    by (simp add: maps_range_def demo_text_simps)
  have l: "line (fold session_step [Insert 97, Silent, Insert 66] (session_of 0xB8000 demo_text)) = [97, 66]"
    by (simp add: session_of_def text_of_def demo_text_def boot_kernel_def zero_terminal_def)
  from typed_line_is_read [OF demo_text_simps(1,2,5) cp _ _ mr keys, of 0 "[]"] l
  obtain k' where k': "terminal_read 0 0x700000 128 demo_text (map KB_int [0x1E, 0x2A, 0x30, 0x1C]) = Some (3, k', [])"
    "\<forall>i < 3. vmem k' (0x700000 + of_nat i) = [97, 66, 10] ! i"
    by (auto simp: read_text_def)
  have "vmem k' (0x700000 + of_nat i) = [97, 66, 10] ! i" if "i < 3" for i using k'(2) that by blast
  from this [of 0] this [of 1] this [of 2] k'(1) show ?thesis by simp
qed

end
