(* ===== verification/Rtc.thy ===== *)
theory Rtc
  imports Pic Pcb
begin

section \<open>The real-time clock\<close>

text \<open>
  \<open>src/student-distrib/rtc.c\<close>: one periodic interrupt, shared by all programs. The clock runs
  at the highest frequency any program asked for, and each program waits for its own number of
  ticks. A byte read from a port is an argument. A busy wait takes the interrupts
  that arrive while it spins.
\<close>

subsection \<open>Operations\<close>

abbreviation (input) RTC_CMD :: u16 where "RTC_CMD \<equiv> 0x70"
abbreviation (input) RTC_DATA :: u16 where "RTC_DATA \<equiv> 0x71"
abbreviation (input) RTC_START_FREQ :: u32 where "RTC_START_FREQ \<equiv> 2"
abbreviation (input) RTC_REG_A :: u8 where "RTC_REG_A \<equiv> 0x0A"
abbreviation (input) RTC_REG_B :: u8 where "RTC_REG_B \<equiv> 0x0B"
abbreviation (input) RTC_REG_C :: u8 where "RTC_REG_C \<equiv> 0x0C"
abbreviation (input) RTC_DISABLE_NMI :: u8 where "RTC_DISABLE_NMI \<equiv> 0x80"
abbreviation (input) RTC_ENABLE_PI :: u8 where "RTC_ENABLE_PI \<equiv> 0x40"
abbreviation (input) RTC_IRQ_NUM :: u32 where "RTC_IRQ_NUM \<equiv> 8"
abbreviation (input) RTC_MAX_FREQ :: int where "RTC_MAX_FREQ \<equiv> 1024"
abbreviation (input) RTC_MIN_FREQ :: int where "RTC_MIN_FREQ \<equiv> 2"
abbreviation (input) RTC_POW_START :: u8 where "RTC_POW_START \<equiv> 15"
abbreviation (input) HIGH_4_BITMASK :: u8 where "HIGH_4_BITMASK \<equiv> 0xF0"

text \<open>The loop of \<open>rtc_set_frequency\<close>: the first power above the frequency gives the rate.\<close>

fun rtc_rate :: "u32 \<Rightarrow> nat list \<Rightarrow> u8" where
  "rtc_rate freq [] = RTC_POW_START"
| "rtc_rate freq (i # is) = (if drop_bit i freq = 0 then RTC_POW_START - of_nat i + 2 else rtc_rate freq is)"

definition rtc_set_frequency :: "u8 \<Rightarrow> u32 \<Rightarrow> kernel \<Rightarrow> kernel" where
  "rtc_set_frequency prevA freq k =
     (let masked_rate = rtc_rate freq [2..<12] AND 0x0F;
          k1 = outb (RTC_REG_A OR RTC_DISABLE_NMI) RTC_CMD k;
          k2 = outb (RTC_REG_A OR RTC_DISABLE_NMI) RTC_CMD k1
      in outb ((prevA AND HIGH_4_BITMASK) OR masked_rate) RTC_DATA k2)"

definition init_rtc :: "u8 \<Rightarrow> u8 \<Rightarrow> kernel \<Rightarrow> kernel" where
  "init_rtc prevB prevA k =
     (let (flags, k0) = cli_and_save k;
          k1 = outb (RTC_REG_B OR RTC_DISABLE_NMI) RTC_CMD k0;
          k2 = outb (RTC_REG_B OR RTC_DISABLE_NMI) RTC_CMD k1;
          k3 = outb (prevB OR RTC_ENABLE_PI) RTC_DATA k2;
          k4 = k3\<lparr>rtc_interrupt_flags := (rtc_interrupt_flags k3)(0 := 0, 1 := 0, 2 := 0)\<rparr>
      in restore_flags flags (rtc_set_frequency prevA RTC_START_FREQ k4))"

definition RT_handler :: "kernel \<Rightarrow> kernel" where
  "RT_handler k =
     (let k1 = outb RTC_REG_C RTC_CMD k;
          k2 = k1\<lparr>rtc_interrupt_flags := (rtc_interrupt_flags k1)(0 := 1, 1 := 1, 2 := 1)\<rparr>
      in send_eoi RTC_IRQ_NUM k2)"

text \<open>The interrupt, as a program that it breaks into sees it.\<close>

definition RT_int :: interrupt where
  "RT_int k = Some (RT_handler k)"

definition rtc_open :: "u8 \<Rightarrow> view \<Rightarrow> kernel \<Rightarrow> int \<times> kernel" where
  "rtc_open prevA filename k =
     (let pid = prog_curr_pid (terminals k (curr_process k)) in
      if pid = -1 then (0, k)
      else let k1 = upd_pcb (get_pcb_by_pid pid) (\<lambda>p. p\<lparr>prog_freq := 0\<rparr>) k
           in (0, rtc_set_frequency prevA (higher_freq k1) k1))"

definition max_requested :: "kernel \<Rightarrow> u32" where
  "max_requested k =
     fold (\<lambda>i mx. if used_pids k i \<noteq> 0 \<and> prog_freq (pcbs k (get_pcb_by_pid i)) > mx
                  then prog_freq (pcbs k (get_pcb_by_pid i)) else mx)
       [0, 1, 2, 3, 4, 5] RTC_START_FREQ"

definition update_divisor :: "int \<Rightarrow> kernel \<Rightarrow> kernel" where
  "update_divisor i k =
     (if used_pids k i \<noteq> 0 \<and> prog_freq (pcbs k (get_pcb_by_pid i)) > 0
      then upd_pcb (get_pcb_by_pid i) (\<lambda>p. p\<lparr>divisor := higher_freq k div prog_freq p\<rparr>) k
      else k)"

definition rtc_close :: "u8 \<Rightarrow> int \<Rightarrow> kernel \<Rightarrow> int \<times> kernel" where
  "rtc_close prevA fd k =
     (let k1 = k\<lparr>higher_freq := max_requested k\<rparr>;
          k2 = rtc_set_frequency prevA (higher_freq k1) k1
      in (0, fold update_divisor [0, 1, 2, 3, 4, 5] k2))"

text \<open>\<open>while (rtc_interrupt_flags[curr_process] != 1);\<close>\<close>

definition wait_flag :: "kernel \<Rightarrow> interrupt list \<Rightarrow> (kernel \<times> interrupt list) option" where
  "wait_flag = spin (\<lambda>k. rtc_interrupt_flags k (curr_process k) = 1)"

lemma wait_flag_strict:
  "rtc_interrupt_flags k (curr_process k) \<noteq> 1 \<Longrightarrow> wait_flag k hs = Some (k', hs') \<Longrightarrow> length hs' < length hs"
  unfolding wait_flag_def by (rule spin_strict)

function rtc_read_loop ::
    "u32 \<Rightarrow> kernel \<Rightarrow> interrupt list \<Rightarrow> (kernel \<times> interrupt list) option" where
  "rtc_read_loop p k hs =
     (case wait_flag (k\<lparr>rtc_interrupt_flags := (rtc_interrupt_flags k)(curr_process k := 0)\<rparr>) hs of
        None \<Rightarrow> None
      | Some (k1, hs1) \<Rightarrow>
          let k2 = upd_pcb p (\<lambda>q. q\<lparr>pcb_count := pcb_count q - 1\<rparr>) k1
          in if pcb_count (pcbs k2 p) > 0 then rtc_read_loop p k2 hs1 else Some (k2, hs1))"
  by pat_completeness auto
termination
  by (relation "measure (\<lambda>(p, k, hs). length hs)") (auto dest!: wait_flag_strict [rotated])

definition rtc_read ::
    "int \<Rightarrow> u32 \<Rightarrow> int \<Rightarrow> kernel \<Rightarrow> interrupt list \<Rightarrow> (int \<times> kernel \<times> interrupt list) option" where
  "rtc_read fd buf nbytes k hs =
     (let pid = prog_curr_pid (terminals k (curr_process k)) in
      if pid = -1 then Some (0, k, hs)
      else let p = get_pcb_by_pid pid in
        if prog_freq (pcbs k p) = 0 then Some (0, k, hs)
        else let k1 = sti (upd_pcb p (\<lambda>q. q\<lparr>pcb_count := divisor q\<rparr>) k)
             in map_option (\<lambda>(k2, hs'). (0, k2, hs')) (rtc_read_loop p k1 hs))"

definition rtc_write :: "u8 \<Rightarrow> int \<Rightarrow> u32 \<Rightarrow> int \<Rightarrow> kernel \<Rightarrow> int \<times> kernel" where
  "rtc_write prevA fd buf nbytes k =
     (if buf = 0 then (ERROR, k)
      else if nbytes \<noteq> 4 then (ERROR, k)
      else let freq = u32_at (vmem k) buf in
        if sint freq > RTC_MAX_FREQ \<or> sint freq < RTC_MIN_FREQ then (ERROR, k)
        else if freq AND (freq - 1) \<noteq> 0 then (ERROR, k)
        else let pid = prog_curr_pid (terminals k (curr_process k)) in
          if pid = -1 then (0, k)
          else let p = get_pcb_by_pid pid;
                   k1 = upd_pcb p (\<lambda>q. q\<lparr>prog_freq := freq\<rparr>) k;
                   k2 = (if freq > higher_freq k1
                         then fold update_divisor [0, 1, 2, 3, 4, 5] (k1\<lparr>higher_freq := freq\<rparr>)
                         else upd_pcb p (\<lambda>q. q\<lparr>divisor := higher_freq k1 div freq\<rparr>) k1)
               in (0, rtc_set_frequency prevA (higher_freq k2) k2))"

declare rtc_read_loop.simps [simp del]

subsection \<open>The frequencies of the clock\<close>

definition rtc_freqs :: "u32 set" where
  "rtc_freqs = {2, 4, 8, 16, 32, 64, 128, 256, 512, 1024}"

lemma rtc_freqs_powerI:
  assumes "1 \<le> n" and "n \<le> 10" and "unat v = 2 ^ n"
  shows "v \<in> rtc_freqs"
proof -
  have "n \<in> set [1..<11]" using assms(1,2) by simp
  moreover have "of_nat (unat v) = (2 ^ n :: u32)" by (simp only: assms(3) of_nat_power of_nat_numeral)
  ultimately have "v \<in> set (map (\<lambda>i. 2 ^ i) [1..<11])" by auto
  then show ?thesis by (simp add: rtc_freqs_def upt_rec)
qed

text \<open>The guard of \<open>rtc_write\<close> lets exactly these frequencies through.\<close>

lemma bit_top:
  assumes "2 ^ n \<le> unat (w :: u32)" and "unat w < 2 ^ Suc n"
  shows "bit w n"
proof -
  have "unat w div 2 ^ n = 1" using assms by (intro div_nat_eqI) auto
  then have "bit (unat w) n" by (simp add: bit_iff_odd)
  then show ?thesis by (simp add: bit_unsigned_iff)
qed

lemma rtc_guard:
  "\<not> (sint f > 1024 \<or> sint f < 2) \<and> f AND (f - 1) = 0 \<longleftrightarrow> f \<in> rtc_freqs"
proof
  assume "f \<in> rtc_freqs"
  then show "\<not> (sint f > 1024 \<or> sint f < 2) \<and> f AND (f - 1) = 0"
    by (auto simp: rtc_freqs_def)
next
  assume g: "\<not> (sint f > 1024 \<or> sint f < 2) \<and> f AND (f - 1) = 0"
  then have "sint f = int (unat f)" by (intro sint_nonneg) auto
  with g have v: "2 \<le> unat f" "unat f \<le> 1024" by linarith+
  obtain n where n: "2 ^ n \<le> unat f" "unat f < 2 ^ (n + 1)" using ex_power_ivl1 [of 2 "unat f"] v by auto
  have "unat f = 2 ^ n"
  proof (rule ccontr)
    assume "unat f \<noteq> 2 ^ n"
    moreover have "f \<noteq> 0" using v by auto
    ultimately have "2 ^ n \<le> unat (f - 1)" "unat (f - 1) < 2 ^ (n + 1)"
      using n by (simp_all add: wsimps)
    then have "bit (f - 1) n" "bit f n" using n by (auto intro!: bit_top)
    then have "bit (f AND (f - 1)) n" by (simp add: bit_and_iff)
    with g show False by simp
  qed
  moreover have "1 \<le> n" using v(1) \<open>unat f = 2 ^ n\<close> by (cases n) auto
  moreover have "n \<le> 10"
  proof (rule ccontr)
    assume "\<not> n \<le> 10"
    then have "(2 :: nat) ^ 11 \<le> 2 ^ n" by (intro power_increasing) auto
    with v(2) n(1) show False by simp
  qed
  ultimately show "f \<in> rtc_freqs" by (intro rtc_freqs_powerI)
qed

subsection \<open>The clock chip\<close>

text \<open>
  A byte on port 0x70 selects a register (bit 7 is the NMI mask), a byte on port 0x71 sets it. The
  low four bits of register A are the rate: a rate of \<open>r\<close> ticks at 32768 divided by
  \<open>2 ^ (r - 1)\<close> per second.
\<close>

fun rtc_replay :: "(u16 \<times> u8) list \<Rightarrow> u8 \<times> (u8 \<Rightarrow> u8)" where
  "rtc_replay [] = (0, \<lambda>_. 0)"
| "rtc_replay ((port, d) # ws) =
     (let (sel, regs) = rtc_replay ws
      in if port = 0x70 then (d AND 0x7F, regs)
         else if port = 0x71 then (sel, regs(sel := d)) else (sel, regs))"

definition rtc_hw_freq :: "(u16 \<times> u8) list \<Rightarrow> nat" where
  "rtc_hw_freq ws = 32768 div 2 ^ (unat (snd (rtc_replay ws) 0x0A AND 0x0F) - 1)"

lemma low_nibble: "((a AND 0xF0) OR r) AND 0x0F = (r AND 0x0F :: u8)"
proof -
  have "(a AND 0xF0) AND 0x0F = (0 :: u8)" unfolding and.assoc by simp
  then show ?thesis by (simp only: bit.conj_disj_distrib2 or.left_neutral)
qed

lemma rtc_rate_freqs:
  "f \<in> rtc_freqs \<Longrightarrow> 32768 div 2 ^ (unat (rtc_rate f [2..<12] AND 0x0F) - 1) = unat f"
proof -
  have "[2..<12] = [2, 3, 4, 5, 6, 7, 8, 9, 10, 11 :: nat]" by code_simp
  then show "f \<in> rtc_freqs \<Longrightarrow> ?thesis"
    unfolding rtc_freqs_def by (elim insertE emptyE) (simp_all add: drop_bit_eq_div)
qed

lemma set_frequency_hw:
  assumes "f \<in> rtc_freqs"
  shows "rtc_hw_freq (outs (rtc_set_frequency prevA f k)) = unat f"
proof -
  define r where "r = rtc_rate f [2..<12]"
  have "rtc_hw_freq (outs (rtc_set_frequency prevA f k)) =
      32768 div 2 ^ (unat (((prevA AND 0xF0) OR (r AND 0x0F)) AND 0x0F) - 1)"
    unfolding rtc_hw_freq_def rtc_set_frequency_def outb_def Let_def r_def [symmetric]
    by (cases "rtc_replay (outs k)") simp
  moreover have "32768 div 2 ^ (unat (r AND 0x0F) - 1) = unat f"
    unfolding r_def by (rule rtc_rate_freqs [OF assms])
  ultimately show ?thesis by (simp only: low_nibble and.assoc and.idem)
qed

lemma set_frequency_sel [simp]:
  "pcbs (rtc_set_frequency a f k) = pcbs k" "higher_freq (rtc_set_frequency a f k) = higher_freq k"
  "used_pids (rtc_set_frequency a f k) = used_pids k" "terminals (rtc_set_frequency a f k) = terminals k"
  "curr_process (rtc_set_frequency a f k) = curr_process k"
  by (simp_all add: rtc_set_frequency_def outb_def Let_def)

subsection \<open>Sharing the clock\<close>

text \<open>
  Every program that asked for a frequency asked for a legal one, not above that of the clock,
  and its divisor is the number of ticks of the clock in one of its own.
\<close>

definition rtc_share :: "u32 \<Rightarrow> pcb \<Rightarrow> bool" where
  "rtc_share h q \<longleftrightarrow> prog_freq q = 0 \<or>
     prog_freq q \<in> rtc_freqs \<and> prog_freq q \<le> h \<and> divisor q = h div prog_freq q"

definition rtc_inv :: "kernel \<Rightarrow> bool" where
  "rtc_inv k \<longleftrightarrow> higher_freq k \<in> rtc_freqs \<and>
     (\<forall>i. 0 \<le> i \<and> i < 6 \<and> used_pids k i \<noteq> 0 \<longrightarrow> rtc_share (higher_freq k) (pcbs k (get_pcb_by_pid i)))"

lemma freqs_dvd:
  assumes "f \<in> rtc_freqs" and "h \<in> rtc_freqs" and "f \<le> h"
  shows "unat (h div f) * unat f = unat h" and "0 < h div f"
proof -
  have "unat f dvd unat h"
    using assms unfolding rtc_freqs_def
    by (elim insertE emptyE) (simp_all add: word_le_nat_alt)
  then show m: "unat (h div f) * unat f = unat h" by (simp add: unat_div_distrib)
  have "unat h \<noteq> 0" using assms(2) by (auto simp: rtc_freqs_def)
  with m show "0 < h div f" by (metis mult_0 unat_0 word_gt_0)
qed

lemma update_divisor_sel [simp]:
  "used_pids (update_divisor i k) = used_pids k" "higher_freq (update_divisor i k) = higher_freq k"
  "terminals (update_divisor i k) = terminals k" "curr_process (update_divisor i k) = curr_process k"
  by (simp_all add: update_divisor_def upd_pcb_def)

lemma update_divisor_pcb:
  "pcbs (update_divisor i k) p =
     (if p = get_pcb_by_pid i \<and> used_pids k i \<noteq> 0 \<and> prog_freq (pcbs k p) > 0
      then (pcbs k p)\<lparr>divisor := higher_freq k div prog_freq (pcbs k p)\<rparr> else pcbs k p)"
  by (cases "p = get_pcb_by_pid i") (simp_all add: update_divisor_def)

lemma update_divisor_freq [simp]: "prog_freq (pcbs (update_divisor i k) p) = prog_freq (pcbs k p)"
  by (simp add: update_divisor_pcb)

lemma fold_update_divisor_sel [simp]:
  "used_pids (fold update_divisor is k) = used_pids k" "higher_freq (fold update_divisor is k) = higher_freq k"
  "terminals (fold update_divisor is k) = terminals k" "curr_process (fold update_divisor is k) = curr_process k"
  by (induction "is" arbitrary: k) simp_all

lemma fold_update_divisor:
  "pcbs (fold update_divisor is k) p =
     (if (\<exists>i \<in> set is. p = get_pcb_by_pid i \<and> used_pids k i \<noteq> 0) \<and> prog_freq (pcbs k p) > 0
      then (pcbs k p)\<lparr>divisor := higher_freq k div prog_freq (pcbs k p)\<rparr> else pcbs k p)"
proof (induction "is" arbitrary: k)
  case (Cons i "is")
  show ?case
  proof (cases "p = get_pcb_by_pid i \<and> used_pids k i \<noteq> 0 \<and> prog_freq (pcbs k p) > 0")
    case True
    then have "pcbs (update_divisor i k) p = (pcbs k p)\<lparr>divisor := higher_freq k div prog_freq (pcbs k p)\<rparr>"
      unfolding update_divisor_pcb by (rule if_P)
    moreover from True have "get_pcb_by_pid i = p" "used_pids k i \<noteq> 0" "prog_freq (pcbs k p) > 0" by auto
    ultimately show ?thesis using Cons.IH [of "update_divisor i k"] by simp
  next
    case False
    then have "pcbs (update_divisor i k) p = pcbs k p"
      unfolding update_divisor_pcb by (rule if_not_P)
    with Cons.IH [of "update_divisor i k"] False show ?thesis
      by (cases "prog_freq (pcbs k p) > 0") auto
  qed
qed simp

lemma slot_list: "set [0, 1, 2, 3, 4, 5] = {0..<6 :: int}"
proof (rule set_eqI)
  fix x :: int
  have "x = 0 \<or> x = 1 \<or> x = 2 \<or> x = 3 \<or> x = 4 \<or> x = 5 \<longleftrightarrow> 0 \<le> x \<and> x < 6" by presburger
  then show "x \<in> set [0, 1, 2, 3, 4, 5] \<longleftrightarrow> x \<in> {0..<6}" by simp
qed

lemma rtc_inv_raise:
  assumes "higher_freq k \<in> rtc_freqs"
    and "\<And>i. 0 \<le> i \<Longrightarrow> i < 6 \<Longrightarrow> used_pids k i \<noteq> 0 \<Longrightarrow> prog_freq (pcbs k (get_pcb_by_pid i)) = 0 \<or>
      prog_freq (pcbs k (get_pcb_by_pid i)) \<in> rtc_freqs \<and>
      prog_freq (pcbs k (get_pcb_by_pid i)) \<le> higher_freq k"
  shows "rtc_inv (fold update_divisor [0, 1, 2, 3, 4, 5] k)"
proof -
  have "rtc_share (higher_freq k) (pcbs (fold update_divisor [0, 1, 2, 3, 4, 5] k) (get_pcb_by_pid i))"
    if i: "0 \<le> i" "i < 6" "used_pids k i \<noteq> 0" for i
  proof -
    have "\<exists>j \<in> set [0, 1, 2, 3, 4, 5]. get_pcb_by_pid i = get_pcb_by_pid j \<and> used_pids k j \<noteq> 0"
      using i unfolding slot_list by (intro bexI [of _ i]) auto
    with assms(2) [OF i] show ?thesis
      unfolding fold_update_divisor by (auto simp: rtc_share_def word_gt_0)
  qed
  then show ?thesis
    using assms(1) unfolding rtc_inv_def fold_update_divisor_sel by simp
qed

lemma rtc_write_cases:
  "rtc_write a fd buf nbytes k =
     (if buf = 0 \<or> nbytes \<noteq> 4 \<or> u32_at (vmem k) buf \<notin> rtc_freqs then (ERROR, k)
      else let freq = u32_at (vmem k) buf; pid = prog_curr_pid (terminals k (curr_process k)) in
        if pid = -1 then (0, k)
        else let p = get_pcb_by_pid pid;
                 k1 = upd_pcb p (\<lambda>q. q\<lparr>prog_freq := freq\<rparr>) k;
                 k2 = (if freq > higher_freq k1
                       then fold update_divisor [0, 1, 2, 3, 4, 5] (k1\<lparr>higher_freq := freq\<rparr>)
                       else upd_pcb p (\<lambda>q. q\<lparr>divisor := higher_freq k1 div freq\<rparr>) k1)
             in (0, rtc_set_frequency a (higher_freq k2) k2))"
proof (cases "u32_at (vmem k) buf \<in> rtc_freqs")
  case True
  then have "\<not> (sint (u32_at (vmem k) buf) > 1024 \<or> sint (u32_at (vmem k) buf) < 2)"
    "u32_at (vmem k) buf AND (u32_at (vmem k) buf - 1) = 0"
    using rtc_guard [of "u32_at (vmem k) buf"] by blast+
  with True show ?thesis unfolding rtc_write_def Let_def by simp
next
  case False
  then have "sint (u32_at (vmem k) buf) > 1024 \<or> sint (u32_at (vmem k) buf) < 2 \<or>
      u32_at (vmem k) buf AND (u32_at (vmem k) buf - 1) \<noteq> 0"
    using rtc_guard [of "u32_at (vmem k) buf"] by blast
  with False show ?thesis unfolding rtc_write_def Let_def by auto
qed

lemma higher_freq_upd_pcb [simp]: "higher_freq (upd_pcb p f k) = higher_freq k"
  by (simp add: upd_pcb_def)

lemma divisor_idem: "\<exists>d. (q :: pcb) = q\<lparr>divisor := d\<rparr>"
  by (rule exI [of _ "divisor q"]) simp

lemma divisor_only_fold: "\<exists>d. pcbs (fold update_divisor is k) q = (pcbs k q)\<lparr>divisor := d\<rparr>"
proof (induction "is" arbitrary: k)
  case (Cons i js)
  obtain d where d: "pcbs (fold update_divisor js (update_divisor i k)) q = (pcbs (update_divisor i k) q)\<lparr>divisor := d\<rparr>"
    using Cons by blast
  have "(pcbs (update_divisor i k) q)\<lparr>divisor := d\<rparr> = (pcbs k q)\<lparr>divisor := d\<rparr>"
    by (simp add: update_divisor_def upd_pcb_def)
  with d show ?case by auto
qed (simp add: divisor_idem)

lemma rtc_write_inv:
  fixes k :: kernel and a :: u8 and fd :: int
  assumes inv: "rtc_inv k" and "buf \<noteq> 0" and f: "u32_at (vmem k) buf \<in> rtc_freqs"
    and pid: "0 \<le> pid" "pid < 6" "used_pids k pid \<noteq> 0"
    and cur: "pid = prog_curr_pid (terminals k (curr_process k))"
  defines "k' \<equiv> snd (rtc_write a fd buf 4 k)"
  shows "rtc_inv k'" and "higher_freq k' = max (higher_freq k) (u32_at (vmem k) buf)"
    and "prog_freq (pcbs k' (get_pcb_by_pid pid)) = u32_at (vmem k) buf"
    and "rtc_hw_freq (outs k') = unat (higher_freq k')" and "used_pids k' = used_pids k"
    and "q \<noteq> get_pcb_by_pid pid \<Longrightarrow> \<exists>d. pcbs k' q = (pcbs k q)\<lparr>divisor := d\<rparr>"
proof -
  define f where "f = u32_at (vmem k) buf"
  let ?p = "get_pcb_by_pid pid"
  let ?k1 = "upd_pcb ?p (\<lambda>q. q\<lparr>prog_freq := f\<rparr>) k"
  define k2 where "k2 = (if f > higher_freq k
    then fold update_divisor [0, 1, 2, 3, 4, 5] (?k1\<lparr>higher_freq := f\<rparr>)
    else upd_pcb ?p (\<lambda>q. q\<lparr>divisor := higher_freq k div f\<rparr>) ?k1)"
  have f: "f \<in> rtc_freqs" using assms(3) by (simp add: f_def)
  have k': "k' = rtc_set_frequency a (higher_freq k2) k2"
    using assms(2) f pid(1) unfolding k'_def rtc_write_cases
    by (simp add: f_def [symmetric] cur [symmetric] k2_def Let_def)
  have old: "prog_freq (pcbs k (get_pcb_by_pid i)) = 0 \<or>
      prog_freq (pcbs k (get_pcb_by_pid i)) \<in> rtc_freqs \<and> prog_freq (pcbs k (get_pcb_by_pid i)) \<le> higher_freq k"
    if "0 \<le> i" "i < 6" "used_pids k i \<noteq> 0" for i
    using inv that by (auto simp: rtc_inv_def rtc_share_def)
  have inv2: "rtc_inv k2"
  proof (cases "f > higher_freq k")
    case True
    then have "rtc_inv (fold update_divisor [0, 1, 2, 3, 4, 5] (?k1\<lparr>higher_freq := f\<rparr>))"
      using f old by (intro rtc_inv_raise) (auto intro: order.trans [OF _ less_imp_le [OF True]])
    with True show ?thesis by (simp add: k2_def)
  next
    case False
    then show ?thesis
      using inv f by (auto simp: k2_def rtc_inv_def rtc_share_def not_less)
  qed
  have h: "higher_freq k2 = max (higher_freq k) f" by (auto simp: k2_def max_def)
  have sel: "higher_freq k' = higher_freq k2" "pcbs k' = pcbs k2" "used_pids k' = used_pids k2"
    by (simp_all add: k')
  show "rtc_inv k'" using inv2 by (simp add: rtc_inv_def sel)
  show "higher_freq k' = max (higher_freq k) (u32_at (vmem k) buf)" using h by (simp add: sel f_def)
  show "prog_freq (pcbs k' (get_pcb_by_pid pid)) = u32_at (vmem k) buf"
    by (simp add: sel k2_def f_def)
  show "rtc_hw_freq (outs k') = unat (higher_freq k')"
    using inv2 unfolding k' by (simp add: set_frequency_hw rtc_inv_def)
  show "used_pids k' = used_pids k" by (simp add: sel k2_def)
  show "\<exists>d. pcbs k' q = (pcbs k q)\<lparr>divisor := d\<rparr>" if "q \<noteq> ?p"
    using that divisor_only_fold [of "[0, 1, 2, 3, 4, 5]" "?k1\<lparr>higher_freq := f\<rparr>" q] divisor_idem
    by (cases "f > higher_freq k") (auto simp: sel k2_def)
qed

lemma max_requested_fold:
  fixes g :: "int \<Rightarrow> u32" and used :: "int \<Rightarrow> int" and mx :: u32 and xs :: "int list"
  defines "m \<equiv> fold (\<lambda>i mx. if used i \<noteq> 0 \<and> g i > mx then g i else mx) xs mx"
  shows "mx \<le> m" and "i \<in> set xs \<Longrightarrow> used i \<noteq> 0 \<Longrightarrow> g i \<le> m"
    and "m = mx \<or> (\<exists>i \<in> set xs. used i \<noteq> 0 \<and> m = g i)"
proof -
  have "mx \<le> fold (\<lambda>i mx. if used i \<noteq> 0 \<and> g i > mx then g i else mx) xs mx \<and>
      (\<forall>i \<in> set xs. used i \<noteq> 0 \<longrightarrow> g i \<le> fold (\<lambda>i mx. if used i \<noteq> 0 \<and> g i > mx then g i else mx) xs mx) \<and>
      (fold (\<lambda>i mx. if used i \<noteq> 0 \<and> g i > mx then g i else mx) xs mx = mx \<or>
       (\<exists>i \<in> set xs. used i \<noteq> 0 \<and> fold (\<lambda>i mx. if used i \<noteq> 0 \<and> g i > mx then g i else mx) xs mx = g i))"
  proof (induction xs arbitrary: mx)
    case (Cons j xs)
    show ?case
    proof (cases "used j \<noteq> 0 \<and> g j > mx")
      case True
      then show ?thesis using Cons.IH [of "g j"] by auto
    next
      case False
      then show ?thesis using Cons.IH [of mx] by (auto simp: not_less)
    qed
  qed simp
  then show "mx \<le> m" and "i \<in> set xs \<Longrightarrow> used i \<noteq> 0 \<Longrightarrow> g i \<le> m"
    and "m = mx \<or> (\<exists>i \<in> set xs. used i \<noteq> 0 \<and> m = g i)"
    unfolding m_def by blast+
qed

lemma rtc_close_inv:
  fixes k :: kernel and a :: u8 and fd :: int
  assumes "rtc_inv k"
  defines "k' \<equiv> snd (rtc_close a fd k)"
  shows "rtc_inv k'" and "rtc_hw_freq (outs (rtc_set_frequency a (max_requested k) k)) = unat (higher_freq k')"
proof -
  let ?g = "\<lambda>i. prog_freq (pcbs k (get_pcb_by_pid i))"
  note m = max_requested_fold [where mx = 2 and used = "used_pids k" and g = ?g and xs = "[0, 1, 2, 3, 4, 5]",
      folded max_requested_def]
  have old: "?g i = 0 \<or> ?g i \<in> rtc_freqs" if "0 \<le> i" "i < 6" "used_pids k i \<noteq> 0" for i
    using assms(1) that by (auto simp: rtc_inv_def rtc_share_def)
  have mx: "max_requested k \<in> rtc_freqs"
  proof -
    have "max_requested k \<noteq> 0" using m(1) by auto
    moreover have "max_requested k = 2 \<or> (\<exists>i. 0 \<le> i \<and> i < 6 \<and> used_pids k i \<noteq> 0 \<and> max_requested k = ?g i)"
      using m(3) unfolding slot_list by auto
    moreover have "(2 :: u32) \<in> rtc_freqs" by (simp add: rtc_freqs_def)
    ultimately show ?thesis using old by metis
  qed
  let ?k1 = "rtc_set_frequency a (max_requested k) (k\<lparr>higher_freq := max_requested k\<rparr>)"
  have k': "k' = fold update_divisor [0, 1, 2, 3, 4, 5] ?k1"
    by (simp add: k'_def rtc_close_def Let_def)
  have "?g i \<le> max_requested k" if "0 \<le> i" "i < 6" "used_pids k i \<noteq> 0" for i
    using m(2) [of i] that unfolding slot_list by simp
  then show "rtc_inv k'" unfolding k' using mx old by (intro rtc_inv_raise) auto
  have "higher_freq k' = max_requested k" by (simp add: k')
  then show "rtc_hw_freq (outs (rtc_set_frequency a (max_requested k) k)) = unat (higher_freq k')"
    using mx by (simp add: set_frequency_hw)
qed

subsection \<open>Waiting\<close>

lemma RT_handler_sel [simp]:
  "curr_process (RT_handler k) = curr_process k" "pcbs (RT_handler k) = pcbs k"
  "terminals (RT_handler k) = terminals k" "curr_ter (RT_handler k) = curr_ter k"
  "rtc_interrupt_flags (RT_handler k) = (rtc_interrupt_flags k)(0 := 1, 1 := 1, 2 := 1)"
  by (simp_all add: RT_handler_def send_eoi_def outb_def Let_def)

lemma wait_tick:
  assumes "0 \<le> curr_process k" "curr_process k < 3" "rtc_interrupt_flags k (curr_process k) = 0"
  shows "wait_flag k (RT_int # hs) = Some (RT_handler k, hs)" and "wait_flag k [] = None"
proof -
  have "rtc_interrupt_flags (RT_handler k) (curr_process (RT_handler k)) = 1"
    using assms(1,2) by (elim terminal_cases) simp_all
  then have "wait_flag (RT_handler k) hs = Some (RT_handler k, hs)" by (simp add: wait_flag_def)
  then show "wait_flag k (RT_int # hs) = Some (RT_handler k, hs)" "wait_flag k [] = None"
    using assms(3) by (simp_all add: wait_flag_def RT_int_def)
qed

lemma rtc_read_loop_ticks:
  assumes "0 \<le> curr_process k" "curr_process k < 3" "unat (pcb_count (pcbs k p)) = Suc n"
  shows "\<exists>k'. rtc_read_loop p k (replicate (Suc n) RT_int @ hs) = Some (k', hs)"
    and "j \<le> n \<Longrightarrow> rtc_read_loop p k (replicate j RT_int) = None"
proof -
  have "(\<exists>k'. rtc_read_loop p k (replicate (Suc n) RT_int @ hs) = Some (k', hs)) \<and>
      (\<forall>j\<le>n. rtc_read_loop p k (replicate j RT_int) = None)"
    using assms
  proof (induction n arbitrary: k)
    case 0
    let ?k0 = "k\<lparr>rtc_interrupt_flags := (rtc_interrupt_flags k)(curr_process k := 0)\<rparr>"
    have "pcb_count (pcbs k p) - 1 = 0" using 0 by (simp add: word_unat_eq_iff wsimps)
    then show ?case
      using 0 wait_tick [of ?k0] by (simp add: rtc_read_loop.simps Let_def)
  next
    case (Suc n)
    let ?k0 = "k\<lparr>rtc_interrupt_flags := (rtc_interrupt_flags k)(curr_process k := 0)\<rparr>"
    let ?k2 = "upd_pcb p (\<lambda>q. q\<lparr>pcb_count := pcb_count q - 1\<rparr>) (RT_handler ?k0)"
    have nz: "pcb_count (pcbs k p) \<noteq> 0" using Suc.prems(3) by auto
    then have c: "unat (pcb_count (pcbs ?k2 p)) = Suc n"
      using Suc.prems(3) by (simp add: wsimps)
    have cp: "curr_process ?k2 = curr_process k" by simp
    have step: "rtc_read_loop p k (RT_int # rest) = rtc_read_loop p ?k2 rest" for rest
      using wait_tick(1) [of ?k0 rest] Suc.prems(1,2) c
      by (subst rtc_read_loop.simps) (auto simp: Let_def word_gt_0)
    have none: "rtc_read_loop p k [] = None"
      using wait_tick(2) [of ?k0] Suc.prems(1,2) by (subst rtc_read_loop.simps) simp
    have IH: "(\<exists>k'. rtc_read_loop p ?k2 (replicate (Suc n) RT_int @ hs) = Some (k', hs)) \<and>
        (\<forall>j\<le>n. rtc_read_loop p ?k2 (replicate j RT_int) = None)"
      using Suc.IH [of ?k2] Suc.prems(1,2) c cp by simp
    have "rtc_read_loop p k (replicate j RT_int) = None" if "j \<le> Suc n" for j
      using that IH none step by (cases j) auto
    then show ?case using IH step by simp
  qed
  then show "\<exists>k'. rtc_read_loop p k (replicate (Suc n) RT_int @ hs) = Some (k', hs)"
    and "j \<le> n \<Longrightarrow> rtc_read_loop p k (replicate j RT_int) = None" by blast+
qed

subsection \<open>Properties\<close>

text \<open>
  C25. A frequency that \<open>rtc_write\<close> accepts is granted without taking any other program's away:
  the program then has the frequency it asked for, the clock runs at the higher of it and the
  frequency it had, the chip is programmed to that, every other program still has the frequency it had and at most the
  divisor of its block has changed, and for every running program with a frequency the divisor times
  its frequency is the frequency of the clock.
\<close>

theorem rtc_write_grants:
  assumes "rtc_inv k" and "buf \<noteq> 0" and "u32_at (vmem k) buf \<in> rtc_freqs"
    and "0 \<le> pid" and "pid < 6" and "used_pids k pid \<noteq> 0"
    and "pid = prog_curr_pid (terminals k (curr_process k))"
  shows "let k' = snd (rtc_write a fd buf 4 k) in rtc_inv k' \<and>
    prog_freq (pcbs k' (get_pcb_by_pid pid)) = u32_at (vmem k) buf \<and>
    higher_freq k' = max (higher_freq k) (u32_at (vmem k) buf) \<and>
    rtc_hw_freq (outs k') = unat (higher_freq k') \<and> used_pids k' = used_pids k \<and>
    (\<forall>q. q \<noteq> get_pcb_by_pid pid \<longrightarrow> prog_freq (pcbs k' q) = prog_freq (pcbs k q) \<and>
       (\<exists>d. pcbs k' q = (pcbs k q)\<lparr>divisor := d\<rparr>)) \<and>
    (\<forall>i. 0 \<le> i \<and> i < 6 \<and> used_pids k' i \<noteq> 0 \<and> prog_freq (pcbs k' (get_pcb_by_pid i)) \<noteq> 0 \<longrightarrow>
       unat (divisor (pcbs k' (get_pcb_by_pid i))) * unat (prog_freq (pcbs k' (get_pcb_by_pid i))) =
       unat (higher_freq k'))"
proof -
  have "unat (divisor q) * unat (prog_freq q) = unat h" if "rtc_share h q" "h \<in> rtc_freqs" "prog_freq q \<noteq> 0" for q h
    using that freqs_dvd(1) [of "prog_freq q" h] by (auto simp: rtc_share_def)
  note share = this
  note w = rtc_write_inv [OF assms, where a = a and fd = fd]
  have "prog_freq (pcbs (snd (rtc_write a fd buf 4 k)) q) = prog_freq (pcbs k q)" if "q \<noteq> get_pcb_by_pid pid" for q
    using w(6) [OF that] by auto
  then show ?thesis
    using w share unfolding Let_def rtc_inv_def by blast
qed

text \<open>A state in which process 0 runs and a buffer at 7 MB holds the number 8.\<close>

definition demo_clock :: kernel where
  "demo_clock = boot_kernel\<lparr>phys := (\<lambda>_. 0)(0x700000 := 8), used_pids := (\<lambda>_. 0)(0 := 1)\<rparr>"

lemma demo_clock_simps:
  "rtc_inv demo_clock" "u32_at (vmem demo_clock) 0x700000 = 8" "used_pids demo_clock 0 = 1"
  "prog_curr_pid (terminals demo_clock (curr_process demo_clock)) = 0" "higher_freq demo_clock = 2"
  by (simp_all add: demo_clock_def boot_kernel_def rtc_inv_def rtc_share_def rtc_freqs_def zero_pcb_def
      zero_terminal_def u32_at_def le32_def vmem_def paddr_def)

theorem rtc_write_grants_witness:
  "let k' = snd (rtc_write 0x26 2 0x700000 4 demo_clock) in
     higher_freq k' = 8 \<and> rtc_hw_freq (outs k') = 8"
  using rtc_write_grants [of demo_clock "0x700000" 0 "0x26" 2] demo_clock_simps
  by (simp add: Let_def rtc_freqs_def)

text \<open>
  C39. \<open>rtc_write\<close> fails exactly for a null buffer, a length other than 4 and a frequency that is
  not a power of two from 2 to 1024, and a call that fails changes nothing.
\<close>

theorem rtc_write_errors:
  "fst (rtc_write a fd buf nbytes k) =
     (if buf = 0 \<or> nbytes \<noteq> 4 \<or> u32_at (vmem k) buf \<notin> rtc_freqs then ERROR else 0) \<and>
   (fst (rtc_write a fd buf nbytes k) = ERROR \<longrightarrow> snd (rtc_write a fd buf nbytes k) = k)"
  unfolding rtc_write_cases Let_def by simp

theorem rtc_write_errors_witness:
  "fst (rtc_write 0 2 0x700000 8 demo_clock) = ERROR \<and> snd (rtc_write 0 2 0x700000 8 demo_clock) = demo_clock"
  using rtc_write_errors [of 0 2 "0x700000" 8 demo_clock] by simp

text \<open>
  C31. \<open>rtc_read\<close> waits for one virtual tick: a program whose divisor is \<open>d\<close> returns from the
  call after exactly \<open>d\<close> clock interrupts, and is still waiting after fewer.
\<close>

theorem rtc_read_waits_divisor:
  fixes k :: kernel and hs :: "interrupt list"
  defines "q \<equiv> pcbs k (get_pcb_by_pid (prog_curr_pid (terminals k (curr_process k))))"
  assumes "0 \<le> curr_process k" and "curr_process k < 3"
    and "prog_curr_pid (terminals k (curr_process k)) \<noteq> -1" and "prog_freq q \<noteq> 0" and "divisor q \<noteq> 0"
  shows "(\<exists>k'. rtc_read fd buf nbytes k (replicate (unat (divisor q)) RT_int @ hs) = Some (0, k', hs)) \<and>
    (\<forall>n. n < unat (divisor q) \<longrightarrow> rtc_read fd buf nbytes k (replicate n RT_int) = None)"
proof -
  let ?p = "get_pcb_by_pid (prog_curr_pid (terminals k (curr_process k)))"
  let ?k1 = "sti (upd_pcb ?p (\<lambda>q. q\<lparr>pcb_count := divisor q\<rparr>) k)"
  obtain n where n: "unat (divisor q) = Suc n"
    using assms(6) by (metis not0_implies_Suc unat_eq_0)
  have "curr_process ?k1 = curr_process k" "unat (pcb_count (pcbs ?k1 ?p)) = Suc n"
    using n by (simp_all add: sti_def q_def)
  with rtc_read_loop_ticks [of ?k1 ?p n] assms(2,3)
  have "\<exists>k'. rtc_read_loop ?p ?k1 (replicate (Suc n) RT_int @ hs) = Some (k', hs)"
    "j < Suc n \<Longrightarrow> rtc_read_loop ?p ?k1 (replicate j RT_int) = None" for j
    by auto
  then show ?thesis
    using assms(4,5) by (auto simp: rtc_read_def n Let_def q_def [symmetric])
qed

theorem rtc_read_waits_divisor_witness:
  "let k = upd_pcb (get_pcb_by_pid 0) (\<lambda>q. q\<lparr>prog_freq := 2, divisor := 4\<rparr>) demo_clock
   in (\<exists>k'. rtc_read 2 0 4 k (replicate 4 RT_int) = Some (0, k', [])) \<and>
      rtc_read 2 0 4 k (replicate 3 RT_int) = None"
proof -
  have "curr_process demo_clock = 0" by (simp add: demo_clock_def boot_kernel_def)
  then show ?thesis
    using rtc_read_waits_divisor
      [of "upd_pcb (get_pcb_by_pid 0) (\<lambda>q. q\<lparr>prog_freq := 2, divisor := 4\<rparr>) demo_clock" 2 0 4 "[]"]
      demo_clock_simps(4)
    by (simp add: Let_def)
qed

end
