(* ===== verification/Descriptors.thy ===== *)
theory Descriptors
  imports Terminal Rtc
begin

section \<open>File descriptors\<close>

text \<open>
  The descriptor calls of \<open>src/student-distrib/system_calls.c\<close>: \<open>sys_open\<close>,
  \<open>sys_read\<close>, \<open>sys_write\<close>, \<open>sys_close\<close> and the search for a free descriptor, with
  the calls through the file operation tables. \<open>regA\<close> is the byte that reading register A of
  the clock gives: the kernel keeps its upper half, which it never changes. A call through a null
  table has no function and does not return (\<open>None\<close>).
\<close>

subsection \<open>Calls through a table\<close>

fun call_read :: "read_fn \<Rightarrow> int \<Rightarrow> u32 \<Rightarrow> int \<Rightarrow> kernel \<Rightarrow> interrupt list \<Rightarrow>
    (int \<times> kernel \<times> interrupt list) option" where
  "call_read rtc_read_fn fd buf nbytes k hs = rtc_read fd buf nbytes k hs"
| "call_read file_read_fn fd buf nbytes k hs = (let (r, k') = file_read fd buf nbytes k in Some (r, k', hs))"
| "call_read dir_read_fn fd buf nbytes k hs = map_option (\<lambda>(r, k'). (r, k', hs)) (dir_read fd buf nbytes k)"
| "call_read terminal_read_fn fd buf nbytes k hs = terminal_read fd buf nbytes k hs"
| "call_read not_allowed_rd fd buf nbytes k hs = Some (not_allowed, k, hs)"

fun call_write :: "u8 \<Rightarrow> write_fn \<Rightarrow> int \<Rightarrow> u32 \<Rightarrow> int \<Rightarrow> kernel \<Rightarrow> int \<times> kernel" where
  "call_write regA rtc_write_fn fd buf nbytes k = rtc_write regA fd buf nbytes k"
| "call_write regA file_write_fn fd buf nbytes k = (file_write fd buf nbytes, k)"
| "call_write regA dir_write_fn fd buf nbytes k = (dir_write fd buf nbytes, k)"
| "call_write regA terminal_write_fn fd buf nbytes k = terminal_write fd buf nbytes k"
| "call_write regA not_allowed_wr fd buf nbytes k = (not_allowed, k)"

fun call_open :: "u8 \<Rightarrow> open_fn \<Rightarrow> view \<Rightarrow> kernel \<Rightarrow> int \<times> kernel" where
  "call_open regA rtc_open_fn filename k = rtc_open regA filename k"
| "call_open regA file_open_fn filename k = (file_open filename, k)"
| "call_open regA dir_open_fn filename k = (dir_open filename, k)"
| "call_open regA terminal_open_fn filename k = (terminal_open filename, k)"

fun call_close :: "u8 \<Rightarrow> close_fn \<Rightarrow> int \<Rightarrow> kernel \<Rightarrow> int \<times> kernel" where
  "call_close regA rtc_close_fn fd k = rtc_close regA fd k"
| "call_close regA file_close_fn fd k = (file_close fd, k)"
| "call_close regA dir_close_fn fd k = (dir_close fd, k)"
| "call_close regA terminal_close_fn fd k = (terminal_close fd, k)"

subsection \<open>The calls\<close>

abbreviation (input) curr_fdt :: "kernel \<Rightarrow> int \<Rightarrow> fdt_entry" where
  "curr_fdt k \<equiv> fdt (pcbs k (get_curr_pcb k))"

text \<open>The search loop of \<open>get_new_fd\<close> and \<open>get_new_pid\<close>.\<close>

fun first_free :: "(int \<Rightarrow> bool) \<Rightarrow> int list \<Rightarrow> int" where
  "first_free used [] = ERROR"
| "first_free used (i # is) = (if \<not> used i then i else first_free used is)"

definition get_new_fd :: "kernel \<Rightarrow> int" where
  "get_new_fd k = int8 (first_free (\<lambda>i. enabled (curr_fdt k i)) [2, 3, 4, 5, 6, 7])"

text \<open>
  The calls check that a descriptor is not negative and no more. The eight entries behind the table are the
  128 bytes of the arguments (\<open>pcb.h\<close>), so the flag of such a descriptor is a bit of the
  text that the program was started with, and its table pointer four bytes of it: no table of the kernel, so a call through it goes
  nowhere that is known (\<open>None\<close>). What lies behind the arguments is not known at all.
\<close>

abbreviation (input) FDT_SIZE :: int where "FDT_SIZE \<equiv> 8"

definition fdt_flag :: "pcb \<Rightarrow> int \<Rightarrow> bool option" where
  "fdt_flag q fd =
     (if fd < FDT_SIZE then Some (enabled (fdt q fd))
      else if fd < 2 * FDT_SIZE then Some (bit (pcb_args q (16 * (fd - FDT_SIZE) + 12)) 0)
      else None)"

definition fdt_table :: "pcb \<Rightarrow> int \<Rightarrow> fot option" where
  "fdt_table q fd = (if fd < FDT_SIZE then fot_of (fot_ptr (fdt q fd)) else None)"

definition sys_read ::
    "int \<Rightarrow> u32 \<Rightarrow> int \<Rightarrow> kernel \<Rightarrow> interrupt list \<Rightarrow> (int \<times> kernel \<times> interrupt list) option" where
  "sys_read fd buf nbytes k hs =
     (if buf = 0 then Some (ERROR, k, hs)
      else if fd < 0 then Some (ERROR, k, hs)
      else let q = pcbs k (get_curr_pcb k) in
        case fdt_flag q fd of
          None \<Rightarrow> None
        | Some on \<Rightarrow>
            if \<not> on then Some (ERROR, k, hs)
            else case fdt_table q fd of
                   None \<Rightarrow> None
                 | Some f \<Rightarrow> call_read (fot_read f) fd buf nbytes k hs)"

definition sys_write :: "u8 \<Rightarrow> int \<Rightarrow> u32 \<Rightarrow> int \<Rightarrow> kernel \<Rightarrow> (int \<times> kernel) option" where
  "sys_write regA fd buf nbytes k =
     (if fd < 0 then Some (ERROR, k)
      else if buf = 0 then Some (ERROR, k)
      else let q = pcbs k (get_curr_pcb k) in
        case fdt_flag q fd of
          None \<Rightarrow> None
        | Some on \<Rightarrow>
            if \<not> on then Some (ERROR, k)
            else map_option (\<lambda>f. call_write regA (fot_write f) fd buf nbytes k) (fdt_table q fd))"

text \<open>The entry of the standard input or output, as \<open>sys_open\<close> and \<open>sys_execute\<close> set it.\<close>

definition std_entry :: "int \<Rightarrow> fdt_entry \<Rightarrow> fdt_entry" where
  "std_entry i e = e\<lparr>fot_ptr := (if i \<noteq> 0 then stdout_fot else stdin_fot), inode_idx := 0,
     file_position := 0, enabled := True, is_data_file := False\<rparr>"

definition sys_open :: "u8 \<Rightarrow> view \<Rightarrow> kernel \<Rightarrow> (int \<times> kernel) option" where
  "sys_open regA filename k =
     (case read_dentry_by_name (vmem k) (fs k) filename (fresh k) of
        None \<Rightarrow> None
      | Some (r, file) \<Rightarrow>
          if r = ERROR then Some (ERROR, k)
          else let fd = get_new_fd k in
            if fd = ERROR then Some (ERROR, k)
            else let curr_pcb = get_curr_pcb k;
                     k1 = upd_pcb curr_pcb (upd_fdt fd (\<lambda>e. e\<lparr>enabled := True\<rparr>)) k
              in case strlen filename of
                   None \<Rightarrow> None
                 | Some n \<Rightarrow>
                     let isRTC = (strncmp filename (lit ''rtc'') n = 0);
                         k2 = upd_pcb curr_pcb (upd_fdt 1 (std_entry 1) \<circ> upd_fdt 0 (std_entry 0)) k1;
                         k3 = upd_pcb curr_pcb (upd_fdt fd (\<lambda>e. e\<lparr>
                                fot_ptr := (if isRTC then rtc_fot else file_fot),
                                inode_idx := de_inode_num file, file_position := 0, enabled := True,
                                is_data_file := (de_file_type file = 2)\<rparr>)) k2;
                         k4 = (if de_file_type file = 1
                               then upd_pcb curr_pcb (upd_fdt fd (\<lambda>e. e\<lparr>fot_ptr := dir_fot\<rparr>)) k3 else k3)
                     in map_option (\<lambda>f.
                          let (r, k5) = call_open regA (fot_open f) filename k4
                          in if r \<noteq> 0 then (ERROR, k5) else (fd, k5))
                          (fot_of (fot_ptr (fdt (pcbs k4 curr_pcb) fd))))"

definition sys_close :: "u8 \<Rightarrow> int \<Rightarrow> kernel \<Rightarrow> (int \<times> kernel) option" where
  "sys_close regA fd k =
     (if fd < 2 then Some (ERROR, k)
      else case fdt_flag (pcbs k (get_curr_pcb k)) fd of
             None \<Rightarrow> None
           | Some on \<Rightarrow>
               if \<not> on then Some (ERROR, k)
               else let k1 = upd_pcb (get_curr_pcb k) (upd_fdt fd (\<lambda>e. e\<lparr>enabled := False\<rparr>)) k
                    in map_option (\<lambda>f. call_close regA (fot_close f) fd k1) (fdt_table (pcbs k1 (get_curr_pcb k1)) fd))"

subsection \<open>Slots\<close>

text \<open>
  The contract of a search for a free slot, which both descriptors and process numbers have: it
  gives the first free slot, or the error when there is none.
\<close>

locale slot_search =
  fixes used :: "'s \<Rightarrow> int \<Rightarrow> bool" and slots :: "int list" and search :: "'s \<Rightarrow> int"
  assumes search_find: "search s = (case find (\<lambda>i. \<not> used s i) slots of None \<Rightarrow> ERROR | Some i \<Rightarrow> i)"
    and slots_nonneg: "i \<in> set slots \<Longrightarrow> 0 \<le> i"
    and slots_sorted: "sorted slots"
begin

lemma search_full: "search s = ERROR \<longleftrightarrow> (\<forall>i \<in> set slots. used s i)"
proof (cases "find (\<lambda>i. \<not> used s i) slots")
  case None
  then have "search s = ERROR" by (simp add: search_find)
  with None show ?thesis by (auto simp: find_None_iff)
next
  case (Some i)
  then have "i \<in> set slots" "\<not> used s i" by (auto simp: find_Some_iff)
  then show ?thesis using slots_nonneg [of i] Some by (auto simp: search_find ERROR_def)
qed

lemma search_free:
  assumes "search s \<noteq> ERROR"
  shows "search s \<in> set slots" and "\<not> used s (search s)" and "0 \<le> search s"
proof -
  obtain i where i: "find (\<lambda>i. \<not> used s i) slots = Some i"
    using assms by (cases "find (\<lambda>i. \<not> used s i) slots") (auto simp: search_find)
  then have "search s = i" by (simp add: search_find)
  with i show "search s \<in> set slots" "\<not> used s (search s)" by (auto simp: find_Some_iff)
  then show "0 \<le> search s" by (simp add: slots_nonneg)
qed

lemma search_lowest:
  assumes "search s \<noteq> ERROR" and "i \<in> set slots" and "i < search s"
  shows "used s i"
proof -
  obtain j where "j < length slots" "search s = slots ! j" and below: "\<forall>l<j. used s (slots ! l)"
    using assms(1) by (auto simp: search_find find_Some_iff split: option.splits)
  moreover obtain l where "l < length slots" "i = slots ! l" using assms(2) by (metis in_set_conv_nth)
  moreover have "l < j"
  proof (rule ccontr)
    assume "\<not> l < j"
    then have "slots ! j \<le> slots ! l" using slots_sorted calculation by (intro sorted_nth_mono) auto
    with assms(3) calculation show False by simp
  qed
  ultimately show ?thesis by simp
qed

end

lemma first_free_find: "first_free used is = (case find (\<lambda>i. \<not> used i) is of None \<Rightarrow> ERROR | Some i \<Rightarrow> i)"
  by (induction "is") auto

lemma first_free_small:
  assumes "\<And>i. i \<in> set is \<Longrightarrow> 0 \<le> i \<and> i < 128"
  shows "int8 (first_free used is) = first_free used is"
proof -
  have "first_free used is = ERROR \<or> first_free used is \<in> set is" by (induction "is") auto
  then show ?thesis using assms [of "first_free used is"] by (auto simp: ERROR_def)
qed

interpretation fds: slot_search "\<lambda>k i. enabled (curr_fdt k i)" "[2, 3, 4, 5, 6, 7]" get_new_fd
proof unfold_locales
  show "get_new_fd k = (case find (\<lambda>i. \<not> enabled (curr_fdt k i)) [2, 3, 4, 5, 6, 7] of None \<Rightarrow> ERROR | Some i \<Rightarrow> i)"
    for k unfolding get_new_fd_def first_free_find [symmetric] by (rule first_free_small) auto
qed auto

lemma slots_2_7: "set [2, 3, 4, 5, 6, 7] = {i :: int. 2 \<le> i \<and> i < 8}"
proof (rule set_eqI)
  fix i :: int
  show "i \<in> set [2, 3, 4, 5, 6, 7] \<longleftrightarrow> i \<in> {i. 2 \<le> i \<and> i < 8}"
    unfolding list.set insert_iff empty_iff mem_Collect_eq by presburger
qed

lemma get_new_fd_range: "get_new_fd k \<noteq> ERROR \<Longrightarrow> 2 \<le> get_new_fd k \<and> get_new_fd k < 8 \<and> \<not> enabled (curr_fdt k (get_new_fd k))"
  using fds.search_free(1,2) [of k] unfolding slots_2_7 by blast

subsection \<open>Opening\<close>

text \<open>The entry that opening the file of the directory entry \<open>d\<close> gives.\<close>

definition opened :: "view \<Rightarrow> bool \<Rightarrow> fdt_entry \<Rightarrow> fdt_entry" where
  "opened d is_rtc e = e\<lparr>fot_ptr := (if de_file_type d = 1 then dir_fot else if is_rtc then rtc_fot else file_fot),
     inode_idx := de_inode_num d, file_position := 0, enabled := True, is_data_file := (de_file_type d = 2)\<rparr>"

lemma rtc_open_fst: "fst (rtc_open a v k) = 0"
  by (simp add: rtc_open_def Let_def)

lemma rtc_open_fdt: "fdt (pcbs (snd (rtc_open a v k)) p) = fdt (pcbs k p)"
  by (simp add: rtc_open_def rtc_set_frequency_def outb_def Let_def upd_pcb_def)

lemma rtc_open_frame:
  fixes k :: kernel and a :: u8 and v :: view
  defines "k' \<equiv> snd (rtc_open a v k)"
  shows "phys k' = phys k" "active k' = active k" "addr_of k' = addr_of k" "esp k' = esp k" "fs k' = fs k"
  by (simp_all add: k'_def rtc_open_def rtc_set_frequency_def outb_def Let_def upd_pcb_def)

lemma call_open_eq:
  assumes "fot_of q = Some f"
  shows "fst (call_open a (fot_open f) v k) = 0"
    and "fdt (pcbs (snd (call_open a (fot_open f) v k)) p) = fdt (pcbs k p)"
    and "q \<noteq> rtc_fot \<Longrightarrow> snd (call_open a (fot_open f) v k) = k"
  using assms
  by (cases q; auto simp: rtc_open_fst rtc_open_fdt file_open_def dir_open_def terminal_open_def)+

lemma upd_pcb_twice: "upd_pcb p f (upd_pcb p g k) = upd_pcb p (f \<circ> g) k"
  by (simp add: upd_pcb_def)

lemma upd_fdt_merge:
  "fd \<noteq> 0 \<Longrightarrow> fd \<noteq> 1 \<Longrightarrow> upd_fdt fd f (upd_fdt 1 a (upd_fdt 0 b (upd_fdt fd g q))) =
     upd_fdt fd (f \<circ> g) (upd_fdt 1 a (upd_fdt 0 b q))"
  by (simp add: upd_fdt_def fun_upd_twist)

definition open_entry :: "int \<Rightarrow> view \<Rightarrow> bool \<Rightarrow> pcb \<Rightarrow> pcb" where
  "open_entry fd d is_rtc q = upd_fdt fd (opened d is_rtc) (upd_fdt 1 (std_entry 1) (upd_fdt 0 (std_entry 0) q))"

lemma sys_open_eq:
  assumes "strlen fname = Some n" and "read_dentry_by_name (vmem k) (fs k) fname (fresh k) = Some (0, d)"
    and "get_new_fd k \<noteq> ERROR" and rtc: "is_rtc = (strncmp fname (lit ''rtc'') n = 0)"
    and "fot_of (if de_file_type d = 1 then dir_fot else if is_rtc then rtc_fot else file_fot) = Some f"
  shows "sys_open regA fname k = Some (get_new_fd k, snd (call_open regA (fot_open f) fname
    (upd_pcb (get_curr_pcb k) (open_entry (get_new_fd k) d is_rtc) k)))"
proof -
  define fd where "fd = get_new_fd k"
  let ?p = "get_curr_pcb k"
  let ?en = "upd_fdt fd (\<lambda>e. e\<lparr>enabled := True\<rparr>)" and ?std = "upd_fdt 1 (std_entry 1) \<circ> upd_fdt 0 (std_entry 0)"
  let ?set = "upd_fdt fd (\<lambda>e. e\<lparr>fot_ptr := (if is_rtc then rtc_fot else file_fot),
    inode_idx := de_inode_num d, file_position := 0, enabled := True, is_data_file := (de_file_type d = 2)\<rparr>)"
  let ?dir = "upd_fdt fd (\<lambda>e. e\<lparr>fot_ptr := dir_fot\<rparr>)"
  let ?k3 = "upd_pcb ?p ?set (upd_pcb ?p ?std (upd_pcb ?p ?en k))"
  have fd: "fd \<noteq> ERROR" "fd \<noteq> 0" "fd \<noteq> 1"
    using assms(3) get_new_fd_range [of k] by (auto simp: fd_def)
  have ent: "e\<lparr>inode_idx := a, file_position := 0, enabled := True, is_data_file := b, fot_ptr := x\<rparr> =
      e\<lparr>fot_ptr := x, inode_idx := a, file_position := 0, enabled := True, is_data_file := b\<rparr>" for e :: fdt_entry and a b x
    by (cases e) simp
  have k4: "(if de_file_type d = 1 then upd_pcb ?p ?dir ?k3 else ?k3) = upd_pcb ?p (open_entry fd d is_rtc) k"
    using fd by (auto simp: upd_pcb_twice upd_pcb_def open_entry_def upd_fdt_merge)
      (simp_all add: upd_fdt_def opened_def ent)
  have "fot_ptr (fdt (pcbs (upd_pcb ?p (open_entry fd d is_rtc) k) ?p) fd) =
      (if de_file_type d = 1 then dir_fot else if is_rtc then rtc_fot else file_fot)"
    by (simp add: open_entry_def opened_def)
  then show ?thesis
    using assms(1,2) fd(1) call_open_eq(1) [OF assms(5)]
    unfolding sys_open_def fd_def [symmetric]
    by (simp add: k4 rtc [symmetric] assms(5) Let_def split_beta)
qed

lemma sys_open_cases:
  assumes "is_cstr fname m" and "m < 2147483648" and "0 \<le> sint (num_dir_entries (fs k))"
  obtains (missing) "32 < m \<or> lookup (vmem k) (fs k) (bytes fname m) = None" "sys_open regA fname k = Some (ERROR, k)"
  | (full) "\<And>i. 2 \<le> i \<Longrightarrow> i < 8 \<Longrightarrow> enabled (curr_fdt k i)" "sys_open regA fname k = Some (ERROR, k)"
  | (opened) i f where "m \<le> 32" "lookup (vmem k) (fs k) (bytes fname m) = Some i" "get_new_fd k \<noteq> ERROR"
    "fot_of (if de_file_type (load_struct (fresh k) (vmem k) (dentry_addr (fs k) i) 64) = 1 then dir_fot
       else if strncmp fname (lit ''rtc'') (of_nat m) = 0 then rtc_fot else file_fot) = Some f"
    "sys_open regA fname k = Some (get_new_fd k, snd (call_open regA (fot_open f) fname
       (upd_pcb (get_curr_pcb k) (open_entry (get_new_fd k)
         (load_struct (fresh k) (vmem k) (dentry_addr (fs k) i) 64) (strncmp fname (lit ''rtc'') (of_nat m) = 0)) k)))"
proof -
  note d = read_dentry_by_name_eq [OF assms, of "vmem k" "fresh k"]
  have n: "strlen fname = Some (of_nat m)" using assms(1,2) by (simp add: strlen_cstr)
  consider "32 < m \<or> lookup (vmem k) (fs k) (bytes fname m) = None"
    | i where "m \<le> 32" "lookup (vmem k) (fs k) (bytes fname m) = Some i" "get_new_fd k = ERROR"
    | i where "m \<le> 32" "lookup (vmem k) (fs k) (bytes fname m) = Some i" "get_new_fd k \<noteq> ERROR"
    by fastforce
  then show ?thesis
  proof cases
    case 1
    then have "sys_open regA fname k = Some (ERROR, k)"
      using d by (auto simp: sys_open_def split: if_splits)
    with 1 show ?thesis by (rule missing)
  next
    case 2
    then have "sys_open regA fname k = Some (ERROR, k)"
      using d by (simp add: sys_open_def)
    moreover have "enabled (curr_fdt k i)" if "2 \<le> i" "i < 8" for i
      using 2(3) that unfolding fds.search_full slots_2_7 by blast
    ultimately show ?thesis by (intro full)
  next
    case 3
    let ?d = "load_struct (fresh k) (vmem k) (dentry_addr (fs k) i) 64"
    obtain f where f: "fot_of (if de_file_type ?d = 1 then dir_fot
       else if strncmp fname (lit ''rtc'') (of_nat m) = 0 then rtc_fot else file_fot) = Some f"
      by (cases "de_file_type ?d = 1"; cases "strncmp fname (lit ''rtc'') (of_nat m) = 0") auto
    from 3 d have "read_dentry_by_name (vmem k) (fs k) fname (fresh k) = Some (0, ?d)" by simp
    from sys_open_eq [OF n this 3(3) refl f] 3 f show ?thesis by (intro opened)
  qed
qed

subsection \<open>Properties\<close>

text \<open>
  C16. \<open>sys_open\<close> opens a file that the directory has: the result is the lowest descriptor from
  2 to 7 that was free, its entry is at the start of the file's inode with the operations of
  the kind of file it is, the standard descriptors are set, and no other descriptor of any process
  changes. When the directory has no such file or all descriptors are in use the call fails and
  nothing changes.
\<close>

theorem sys_open_opens:
  fixes k :: kernel and fname :: view and m :: nat
  defines "p \<equiv> get_curr_pcb k"
  assumes "is_cstr fname m" and "m < 2147483648" and "0 \<le> sint (num_dir_entries (fs k))"
  shows "case sys_open regA fname k of None \<Rightarrow> False | Some (fd, k') \<Rightarrow>
    if 32 < m \<or> lookup (vmem k) (fs k) (bytes fname m) = None \<or> (\<forall>i. 2 \<le> i \<and> i < 8 \<longrightarrow> enabled (fdt (pcbs k p) i))
    then fd = ERROR \<and> k' = k
    else 2 \<le> fd \<and> fd < 8 \<and> \<not> enabled (fdt (pcbs k p) fd) \<and> (\<forall>i. 2 \<le> i \<and> i < fd \<longrightarrow> enabled (fdt (pcbs k p) i)) \<and>
      (\<exists>i. lookup (vmem k) (fs k) (bytes fname m) = Some i \<and>
        (let d = load_struct (fresh k) (vmem k) (dentry_addr (fs k) i) 64; e = fdt (pcbs k' p) fd in
         enabled e \<and> inode_idx e = de_inode_num d \<and> file_position e = 0 \<and>
         fot_ptr e = (if de_file_type d = 1 then dir_fot
           else if cprefix m (lit ''rtc'') = bytes fname m then rtc_fot else file_fot))) \<and>
      fot_ptr (fdt (pcbs k' p) 0) = stdin_fot \<and> fot_ptr (fdt (pcbs k' p) 1) = stdout_fot \<and>
      (\<forall>q i. i \<notin> {0, 1, fd} \<or> q \<noteq> p \<longrightarrow> fdt (pcbs k' q) i = fdt (pcbs k q) i)"
  using assms(2-4)
proof (cases rule: sys_open_cases [where regA = regA])
  case missing
  then show ?thesis by auto
next
  case full
  then show ?thesis by (auto simp: p_def)
next
  case (opened i f)
  let ?fd = "get_new_fd k" and ?d = "load_struct (fresh k) (vmem k) (dentry_addr (fs k) i) 64"
  let ?r = "strncmp fname (lit ''rtc'') (of_nat m) = 0"
  have fd: "2 \<le> ?fd" "?fd < 8" "\<not> enabled (fdt (pcbs k p) ?fd)"
    using get_new_fd_range [OF opened(3)] by (auto simp: p_def)
  have low: "enabled (fdt (pcbs k p) i)" if "2 \<le> i" "i < ?fd" for i
    using fds.search_lowest [OF opened(3), of i] that fd(2) unfolding slots_2_7 by (simp add: p_def)
  have r: "?r \<longleftrightarrow> cprefix m (lit ''rtc'') = bytes fname m"
    using assms(3) opened(1) cprefix_cstr [OF assms(2), of m]
    by (auto simp: strncmp_eq_0_iff wsimps)
  define k' where "k' = snd (call_open regA (fot_open f) fname (upd_pcb p (open_entry ?fd ?d ?r) k))"
  have k': "fdt (pcbs k' q) = fdt (pcbs (upd_pcb p (open_entry ?fd ?d ?r) k) q)" for q
    unfolding k'_def by (rule call_open_eq(2) [OF opened(4)])
  have "fdt (pcbs k' p) ?fd = opened ?d ?r (fdt (pcbs k p) ?fd)"
    "fot_ptr (fdt (pcbs k' p) 0) = stdin_fot" "fot_ptr (fdt (pcbs k' p) 1) = stdout_fot"
    "i \<notin> {0, 1, ?fd} \<or> q \<noteq> p \<Longrightarrow> fdt (pcbs k' q) i = fdt (pcbs k q) i" for q i
    using fd by (auto simp: k' open_entry_def std_entry_def)
  moreover have "sys_open regA fname k = Some (?fd, k')" using opened(5) by (simp add: k'_def p_def)
  ultimately show ?thesis
    using fd low opened(1,2) by (auto simp: opened_def r Let_def)
qed

lemma demo_process_lookup:
  "lookup (vmem demo_process) (fs demo_process) (bytes (lit ''frame0'') 6) = Some 0"
  "0 \<le> sint (num_dir_entries (fs demo_process))" "is_cstr (lit ''frame0'') 6"
  unfolding demo_process_simps by code_simp+

lemma demo_process_entry:
  fixes d :: view
  defines "d \<equiv> load_struct (fresh demo_process) (vmem demo_process) (dentry_addr (fs demo_process) 0) 64"
  shows "de_inode_num d = 0" and "de_file_type d = 0"
proof -
  have f: "fresh demo_process = (\<lambda>_. 0)" by (simp add: demo_process_def boot_kernel_def)
  show "de_inode_num d = 0" "de_file_type d = 0"
    unfolding d_def f demo_process_simps by code_simp+
qed

theorem sys_open_opens_witness:
  "\<exists>k'. sys_open 0 (lit ''frame0'') demo_process = Some (3, k') \<and>
     fot_ptr (fdt (pcbs k' 0x7FE000) 3) = file_fot"
proof -
  have en: "enabled (fdt (pcbs demo_process 0x7FE000) i) \<longleftrightarrow> i = 2" for i
    by (simp add: demo_process_def zero_fdt_entry_def zero_pcb_def)
  have t: "case sys_open 0 (lit ''frame0'') demo_process of None \<Rightarrow> False | Some (fd, k') \<Rightarrow>
      2 \<le> fd \<and> fd \<noteq> 2 \<and> (\<forall>i. 2 \<le> i \<and> i < fd \<longrightarrow> i = 2) \<and>
      fot_ptr (fdt (pcbs k' 0x7FE000) fd) = file_fot"
  proof -
    have nf: "(\<forall>i :: int. 2 \<le> i \<and> i < 8 \<longrightarrow> i = 2) = False"
      by (auto intro!: exI [of _ 3])
    have "cprefix 6 (lit ''rtc'') \<noteq> bytes (lit ''frame0'') 6" by code_simp
    moreover note sys_open_opens [OF demo_process_lookup(3) _ demo_process_lookup(2), of 0,
        unfolded demo_process_simps(1) demo_process_lookup(1)]
    ultimately show ?thesis
      by (cases "sys_open 0 (lit ''frame0'') demo_process") (simp_all add: en nf Let_def demo_process_entry split: prod.splits)
  qed
  obtain fd k' where o: "sys_open 0 (lit ''frame0'') demo_process = Some (fd, k')"
    using t by (cases "sys_open 0 (lit ''frame0'') demo_process") auto
  with t have fd: "2 \<le> fd" "fd \<noteq> 2" "\<forall>i. 2 \<le> i \<and> i < fd \<longrightarrow> i = 2" "fot_ptr (fdt (pcbs k' 0x7FE000) fd) = file_fot"
    by simp_all
  then have "fd = 3" using fd(3) [rule_format, of 3] by linarith
  with o fd(4) show ?thesis by blast
qed

text \<open>
  C13. The life of a descriptor: after a regular file is opened, reading its descriptor stores the
  first bytes of the file and returns their number, closing it succeeds, and reading it once more
  fails and changes nothing.
\<close>

theorem open_read_close:
  fixes k :: kernel and nbytes :: int
  assumes "is_cstr fname m" and "m \<le> 32" and "0 \<le> sint (num_dir_entries (fs k))"
    and "lookup (vmem k) (fs k) (bytes fname m) = Some i" and "cprefix m (lit ''rtc'') \<noteq> bytes fname m"
  defines "d \<equiv> load_struct (fresh k) (vmem k) (dentry_addr (fs k) i) 64"
  defines "bs \<equiv> take (nat nbytes) (file_contents (vmem k) (fs k) (de_inode_num d))"
  assumes "de_file_type d \<noteq> 1" and "de_inode_num d < num_inodes (fs k)"
    and "file_size (vmem k) (fs k) (de_inode_num d) < 2 ^ 31"
    and "2 \<le> j" and "j < 8" and "\<not> enabled (fdt (pcbs k (get_curr_pcb k)) j)"
    and "buf \<noteq> 0" and "0 \<le> nbytes" and "nbytes < 2 ^ 31" and "maps_range k buf pa (length bs)"
  shows "\<exists>fd k1 k2 k3. sys_open regA fname k = Some (fd, k1) \<and>
    sys_read fd buf nbytes k1 hs = Some (int (length bs), k2, hs) \<and>
    (\<forall>i < length bs. vmem k2 (buf + of_nat i) = bs ! i) \<and>
    sys_close regA fd k2 = Some (0, k3) \<and> sys_read fd buf nbytes k3 hs = Some (ERROR, k3, hs)"
proof -
  define fd k1 where "fd = get_new_fd k" and "k1 = upd_pcb (get_curr_pcb k) (open_entry fd d False) k"
  have n: "strlen fname = Some (of_nat m)" using assms(1,2) by (simp add: strlen_cstr)
  have "read_dentry_by_name (vmem k) (fs k) fname (fresh k) = Some (0, d)"
    using read_dentry_by_name_eq [OF assms(1) _ assms(3), of "vmem k" "fresh k"] assms(2,4) by (simp add: d_def)
  moreover have "False = (strncmp fname (lit ''rtc'') (of_nat m) = 0)"
    using assms(2,5) cprefix_cstr [OF assms(1), of m] by (auto simp: strncmp_eq_0_iff wsimps)
  moreover have free: "get_new_fd k \<noteq> ERROR"
    using assms(11-13) unfolding fds.search_full slots_2_7 by blast
  ultimately have op: "sys_open regA fname k = Some (fd, k1)"
    using sys_open_eq [OF n, of k d False] assms(8) by (simp add: fd_def k1_def file_open_def)
  have fd: "0 \<le> fd" "2 \<le> fd" "fd < 8" using get_new_fd_range [OF free] by (auto simp: fd_def)
  define e where "e = opened d False (fdt (pcbs k (get_curr_pcb k)) fd)"
  have p: "get_curr_pcb k1 = get_curr_pcb k" and e: "fdt (pcbs k1 (get_curr_pcb k)) fd = e" and v: "vmem k1 = vmem k" "fs k1 = fs k"
    using fd(2) by (simp_all add: k1_def e_def open_entry_def)
  have es: "enabled e" "fot_ptr e = file_fot" "inode_idx e = de_inode_num d" "file_position e = 0"
    using assms(8) by (simp_all add: e_def opened_def)
  have chunk: "next_chunk k1 e nbytes = bs" by (simp add: next_chunk_def es v bs_def)
  have good: "good_file k1 (curr_fdt k1 fd)" using assms(9,10) by (simp add: good_file_def p e es v)
  define k2 where "k2 = upd_pcb (get_curr_pcb k) (upd_fdt fd (\<lambda>x. x\<lparr>file_position :=
    file_position x + of_nat (length bs)\<rparr>)) (vstore buf bs k1)"
  have "file_read fd buf nbytes k1 = (int (length bs), k2)"
    using file_read_eq [OF good assms(15,16), of buf, unfolded p e chunk, folded k2_def] .
  then have rd: "sys_read fd buf nbytes k1 hs = Some (int (length bs), k2, hs)"
    using fd assms(14) by (simp add: sys_read_def fdt_flag_def fdt_table_def p e es)
  have "length bs \<le> 2 ^ 32" using assms(16) by (simp add: bs_def)
  moreover have "maps_range k1 buf pa (length bs)" using assms(17) by (simp add: k1_def maps_range_def)
  ultimately have "\<forall>i < length bs. vmem k2 (buf + of_nat i) = bs ! i"
    by (simp add: k2_def vmem_vstore)
  moreover have "curr_fdt k2 fd = e\<lparr>file_position := file_position e + of_nat (length bs)\<rparr>"
    using e p by (simp add: k2_def)
  then have "\<exists>k3. sys_close regA fd k2 = Some (0, k3) \<and> \<not> enabled (curr_fdt k3 fd)"
    using fd es by (simp add: sys_close_def fdt_flag_def fdt_table_def file_close_def)
  ultimately show ?thesis
    using op rd assms(14) fd by (auto simp: sys_read_def fdt_flag_def)
qed

theorem open_read_close_witness:
  "\<exists>fd k1 k2 k3. sys_open 0 (lit ''frame0'') demo_process = Some (fd, k1) \<and>
     sys_read fd 0x700000 4 k1 [] = Some (4, k2, []) \<and> vmem k2 0x700000 = of_char (CHR ''h'') \<and>
     sys_close 0 fd k2 = Some (0, k3) \<and> sys_read fd 0x700000 4 k3 [] = Some (ERROR, k3, [])"
proof -
  have "cprefix 6 (lit ''rtc'') \<noteq> bytes (lit ''frame0'') 6" by code_simp
  moreover have "\<not> enabled (fdt (pcbs demo_process (get_curr_pcb demo_process)) 3)"
    by (simp add: demo_process_simps(1)) (simp add: demo_process_def zero_fdt_entry_def zero_pcb_def)
  moreover have "maps_range demo_process 0x700000 0x700000 n" for n
    by (simp add: maps_range_def demo_process_simps)
  moreover have c: "take (nat 4) (file_contents (vmem demo_process) (fs demo_process) 0) = map of_char ''hell''"
    by (simp add: file_contents_def demo_process_file demo_process_byte upt_rec)
  ultimately have "\<exists>fd k1 k2 k3. sys_open 0 (lit ''frame0'') demo_process = Some (fd, k1) \<and>
      sys_read fd 0x700000 4 k1 [] = Some (4, k2, []) \<and>
      (\<forall>i < length (map of_char ''hell'' :: u8 list). vmem k2 (0x700000 + of_nat i) = map of_char ''hell'' ! i) \<and>
      sys_close 0 fd k2 = Some (0, k3) \<and> sys_read fd 0x700000 4 k3 [] = Some (ERROR, k3, [])"
    using open_read_close [OF demo_process_lookup(3) _ demo_process_lookup(2,1), of 3 "0x700000" 4 "0x700000" 0 "[]"]
    by (simp add: demo_process_entry demo_process_file)
  then show ?thesis by (fastforce dest: spec [of _ 0])
qed

text \<open>
  The descriptor calls check their arguments: a null buffer, a negative descriptor or one of the table
  that is not open makes \<open>sys_read\<close> and \<open>sys_write\<close> fail, a descriptor below 2 or one of the table that is not open
  makes \<open>sys_close\<close> fail, and a call that fails so changes nothing.
\<close>

lemma descriptor_errors:
  assumes "fd < 0 \<or> buf = 0 \<or> fd < 8 \<and> \<not> enabled (fdt (pcbs k (get_curr_pcb k)) fd)"
    and "fd' < 2 \<or> fd' < 8 \<and> \<not> enabled (fdt (pcbs k (get_curr_pcb k)) fd')"
  shows "sys_read fd buf nbytes k hs = Some (ERROR, k, hs) \<and> sys_write regA fd buf nbytes k = Some (ERROR, k) \<and>
    sys_close regA fd' k = Some (ERROR, k)"
  using assms by (auto simp: sys_read_def sys_write_def sys_close_def fdt_flag_def)

text \<open>
  They do not check that a descriptor is below 8: with the right bit set in its arguments a program makes them
  call through a pointer that it chose, and no outcome of the call is known.
\<close>

lemma stray_descriptor:
  assumes "8 \<le> fd" and "fd < 16" and "buf \<noteq> 0" and "bit (pcb_args (pcbs k (get_curr_pcb k)) (16 * (fd - 8) + 12)) 0"
  shows "sys_read fd buf nbytes k hs = None \<and> sys_write regA fd buf nbytes k = None \<and> sys_close regA fd k = None"
  using assms by (simp add: sys_read_def sys_write_def sys_close_def fdt_flag_def fdt_table_def Let_def)

end
