(* ===== verification/Printf.thy ===== *)
theory Printf
  imports Screen
begin

section \<open>Formatted output\<close>

text \<open>
  \<open>printf\<close> of \<open>src/student-distrib/lib.c\<close> and the reference it is checked against:
  \<open>expand\<close> gives the text that a format and its arguments denote. An argument is a word of the
  stack, with the bytes it points at for \<open>%s\<close>.
\<close>

subsection \<open>The code\<close>

record parg =
  pword :: u32
  pstr :: view

type_synonym pargs = "nat \<Rightarrow> parg"

text \<open>\<open>while (i < 8) conv_buf[i++] = '0'\<close>.\<close>

function zero_pad :: "view \<Rightarrow> int \<Rightarrow> view" where
  "zero_pad conv_buf i = (if i < 8 then zero_pad (conv_buf(i := 48)) (i + 1) else conv_buf)"
  by pat_completeness auto
termination
  by (relation "measure (\<lambda>(b, i). nat (8 - i))") auto

definition printf_x :: "bool \<Rightarrow> u32 \<Rightarrow> kernel \<Rightarrow> kernel option" where
  "printf_x alternate w k =
     (if \<not> alternate then
        case itoa w (fresh k) 16 of
          None \<Rightarrow> None
        | Some conv_buf \<Rightarrow> map_option snd (puts conv_buf k)
      else
        case itoa w (\<lambda>i. fresh k (i + 8)) 16 of
          None \<Rightarrow> None
        | Some at8 \<Rightarrow>
            (case strlen at8 of
               None \<Rightarrow> None
             | Some len \<Rightarrow>
                 let starting_index = sint len;
                     conv_buf = zero_pad (\<lambda>i. at8 (i - 8)) starting_index
                 in map_option snd (puts (\<lambda>i. conv_buf (i + starting_index)) k)))"

definition printf_u :: "u32 \<Rightarrow> kernel \<Rightarrow> kernel option" where
  "printf_u w k =
     (case itoa w (fresh k) 10 of
        None \<Rightarrow> None
      | Some conv_buf \<Rightarrow> map_option snd (puts conv_buf k))"

definition printf_d :: "u32 \<Rightarrow> kernel \<Rightarrow> kernel option" where
  "printf_d w k =
     (if sint w < 0 then
        case itoa (- w) (\<lambda>i. fresh k (i + 1)) 10 of
          None \<Rightarrow> None
        | Some at1 \<Rightarrow> map_option snd (puts ((\<lambda>i. at1 (i - 1))(0 := 45)) k)
      else printf_u w k)"

partial_function (option) printf_conv ::
    "view \<Rightarrow> pargs \<Rightarrow> int \<Rightarrow> nat \<Rightarrow> bool \<Rightarrow> kernel \<Rightarrow> (int \<times> nat \<times> kernel) option" where
  "printf_conv format args buf e alternate k =
     (let c = format buf in
      if c = of_char (CHR ''%'') then Some (buf, e, putc c k)
      else if c = of_char (CHR ''#'') then printf_conv format args (buf + 1) e True k
      else if c = of_char (CHR ''x'')
      then map_option (\<lambda>k'. (buf, Suc e, k')) (printf_x alternate (pword (args e)) k)
      else if c = of_char (CHR ''u'')
      then map_option (\<lambda>k'. (buf, Suc e, k')) (printf_u (pword (args e)) k)
      else if c = of_char (CHR ''d'')
      then map_option (\<lambda>k'. (buf, Suc e, k')) (printf_d (pword (args e)) k)
      else if c = of_char (CHR ''c'') then Some (buf, Suc e, putc (ucast (pword (args e))) k)
      else if c = of_char (CHR ''s'')
      then map_option (\<lambda>(_, k'). (buf, Suc e, k')) (puts (pstr (args e)) k)
      else Some (buf, e, k))"

partial_function (option) printf_loop ::
    "view \<Rightarrow> pargs \<Rightarrow> int \<Rightarrow> nat \<Rightarrow> kernel \<Rightarrow> (int \<times> kernel) option" where
  "printf_loop format args buf e k =
     (if format buf = 0 then Some (buf, k)
      else if format buf = of_char (CHR ''%'') then
        Option.bind (printf_conv format args (buf + 1) e False k)
          (\<lambda>(buf', e', k'). printf_loop format args (buf' + 1) e' k')
      else printf_loop format args (buf + 1) e (putc (format buf) k))"

definition printf :: "view \<Rightarrow> pargs \<Rightarrow> kernel \<Rightarrow> (int \<times> kernel) option" where
  "printf format args k = printf_loop format args 0 0 k"

text \<open>Arguments from a list: the words a caller pushes. What lies above them is zero here.\<close>

definition word_arg :: "int \<Rightarrow> parg" where
  "word_arg n = \<lparr>pword = word_of_int n, pstr = lit ''''\<rparr>"

definition str_arg :: "view \<Rightarrow> parg" where
  "str_arg s = \<lparr>pword = 0, pstr = s\<rparr>"

definition pushed :: "parg list \<Rightarrow> pargs" where
  "pushed as i = (if i < length as then as ! i else word_arg 0)"

definition print_all_ascii_row :: "nat \<Rightarrow> kernel \<Rightarrow> kernel option" where
  "print_all_ascii_row i k =
     map_option (\<lambda>(_, k'). putc 10 (fold (\<lambda>j. putc (of_nat (i * 16 + j))) [0..<16] k'))
       (printf (lit ''%d: '') (pushed [word_arg (int i * 16)]) k)"

definition print_all_ascii :: "kernel \<Rightarrow> kernel option" where
  "print_all_ascii k = fold (\<lambda>i ok. Option.bind ok (print_all_ascii_row i)) [0..<16] (Some k)"

declare zero_pad.simps [simp del]

subsection \<open>The text a format denotes\<close>

definition hex_text :: "bool \<Rightarrow> u32 \<Rightarrow> u8 list" where
  "hex_text alt w =
     (let t = num_text 16 (unat w) in if alt then replicate (8 - length t) 48 @ t else t)"

definition dec_text :: "u32 \<Rightarrow> u8 list" where
  "dec_text w = (if sint w < 0 then 45 # num_text 10 (unat (- w)) else num_text 10 (unat w))"

definition str_text :: "view \<Rightarrow> u8 list" where
  "str_text s = (case strlen s of None \<Rightarrow> [] | Some l \<Rightarrow> bytes s (unat l))"

text \<open>One conversion: its text, what is left of the format, and the next argument.\<close>

fun conv_text :: "bool \<Rightarrow> u8 list \<Rightarrow> pargs \<Rightarrow> nat \<Rightarrow> (u8 list \<times> u8 list \<times> nat) option" where
  "conv_text alt [] args e = None"
| "conv_text alt (c # cs) args e =
     (if c = 37 then Some ([37], cs, e)
      else if c = 35 then conv_text True cs args e
      else if c = 120 then Some (hex_text alt (pword (args e)), cs, Suc e)
      else if c = 117 then Some (num_text 10 (unat (pword (args e))), cs, Suc e)
      else if c = 100 then Some (dec_text (pword (args e)), cs, Suc e)
      else if c = 99 then Some ([ucast (pword (args e))], cs, Suc e)
      else if c = 115 then Some (str_text (pstr (args e)), cs, Suc e)
      else Some ([], cs, e))"

lemma conv_text_shorter: "conv_text alt cs args e = Some (t, rest, e') \<Longrightarrow> length rest < length cs"
  by (induction alt cs args e rule: conv_text.induct) (auto split: if_splits)

function expand :: "u8 list \<Rightarrow> pargs \<Rightarrow> nat \<Rightarrow> u8 list option" where
  "expand [] args e = Some []"
| "expand (c # cs) args e =
     (if c \<noteq> 37 then map_option (Cons c) (expand cs args e)
      else case conv_text False cs args e of
             None \<Rightarrow> None
           | Some (t, rest, e') \<Rightarrow> map_option (append t) (expand rest args e'))"
  by pat_completeness auto
termination
  by (relation "measure (\<lambda>(cs, args, e). length cs)") (auto dest: conv_text_shorter)

subsection \<open>The conversions\<close>

lemma puts_text:
  "is_cstr s (length t) \<Longrightarrow> bytes s (length t) = t \<Longrightarrow> map_option snd (puts s k) = Some (fold putc t k)"
  by (simp add: puts_cstr)

lemma printf_u_text: "printf_u w k = Some (fold putc (num_text 10 (unat w)) k)"
  using itoa_text [of 10 w "fresh k"] by (auto simp: printf_u_def puts_text)

lemma zero_pad_eq: "zero_pad b i = (\<lambda>j. if i \<le> j \<and> j < 8 then 48 else b j)"
proof (induction b i rule: zero_pad.induct)
  case (1 b i)
  show ?case
    unfolding zero_pad.simps [of b i] by (auto simp: "1.IH" intro!: ext)
qed

lemma cstr_shift:
  assumes "\<And>i. i < length t \<Longrightarrow> s (int i) = t ! i" and "s (int (length t)) = 0" and "0 \<notin> set t"
  shows "is_cstr s (length t)" and "bytes s (length t) = t"
proof -
  show b: "bytes s (length t) = t" by (rule nth_equalityI) (simp_all add: assms(1))
  with assms(2,3) show "is_cstr s (length t)" by (simp add: is_cstr_def)
qed

lemma cstr_bytes:
  assumes "is_cstr s (length t)" and "bytes s (length t) = t"
  shows "i < length t \<Longrightarrow> s (int i) = t ! i" and "s (int (length t)) = 0" and "0 \<notin> set t"
  using assms by (auto simp: is_cstr_def dest: nth_bytes [of i "length t" s])

lemma length_hex: "length (num_text 16 (unat (w :: u32))) \<le> 8"
  using length_digits [of 16 "unat w" 8] unat_u32 [of w] by (simp add: num_text_def)

lemma printf_d_text: "printf_d w k = Some (fold putc (dec_text w) k)"
proof (cases "sint w < 0")
  case True
  let ?t = "num_text 10 (unat (- w))"
  obtain b where b: "itoa (- w) (\<lambda>i. fresh k (i + 1)) 10 = Some b" "is_cstr b (length ?t)"
    "bytes b (length ?t) = ?t"
    using itoa_text [of 10 "- w" "\<lambda>i. fresh k (i + 1)"] by auto
  note c = cstr_bytes [OF b(2,3)]
  let ?s = "(\<lambda>i. b (i - 1))(0 := 45)"
  have "?s (int i) = (45 # ?t) ! i" if "i < length (45 # ?t)" for i
    using that c(1) [of "i - 1"] by (cases i) auto
  moreover have "?s (int (length (45 # ?t))) = 0" using c(2) by simp
  ultimately have "map_option snd (puts ?s k) = Some (fold putc (45 # ?t) k)"
    using c(3) by (intro puts_text cstr_shift) auto
  with True b(1) show ?thesis by (simp add: printf_d_def dec_text_def)
qed (simp add: printf_d_def dec_text_def printf_u_text)

lemma printf_x_text: "printf_x alt w k = Some (fold putc (hex_text alt w) k)"
proof (cases alt)
  case False
  then show ?thesis
    using itoa_text [of 16 w "fresh k"] by (auto simp: printf_x_def hex_text_def puts_text)
next
  case True
  let ?t = "num_text 16 (unat w)"
  let ?n = "length ?t"
  obtain b where b: "itoa w (\<lambda>i. fresh k (i + 8)) 16 = Some b" "is_cstr b ?n" "bytes b ?n = ?t"
    using itoa_text [of 16 w "\<lambda>i. fresh k (i + 8)"] by auto
  note c = cstr_bytes [OF b(2,3)]
  have n: "?n \<le> 8" by (rule length_hex)
  have len: "strlen b = Some (of_nat ?n)" "sint (of_nat ?n :: u32) = int ?n"
    using b(2) n by (simp_all add: strlen_cstr sint_small wsimps)
  define s where "s = (\<lambda>i. zero_pad (\<lambda>i. b (i - 8)) (int ?n) (i + int ?n))"
  let ?h = "replicate (8 - ?n) 48 @ ?t"
  have s_eq: "s = (\<lambda>i. if 0 \<le> i \<and> i + int ?n < 8 then 48 else b (i + int ?n - 8))"
    by (auto simp: s_def zero_pad_eq)
  have "s (int i) = ?h ! i" if "i < length ?h" for i
    using that n c(1) [of "i + ?n - 8"]
    by (auto simp: s_eq nth_append of_nat_diff not_less)
  moreover have "s (int (length ?h)) = 0" using n c(2) by (simp add: s_eq)
  ultimately have "map_option snd (puts s k) = Some (fold putc ?h k)"
    using c(3) by (intro puts_text cstr_shift) auto
  with True b(1) len show ?thesis by (simp add: printf_x_def hex_text_def s_def Let_def)
qed

lemma puts_str:
  "strlen s \<noteq> None \<Longrightarrow> \<exists>i. puts s k = Some (i, fold putc (str_text s) k)"
proof -
  assume "strlen s \<noteq> None"
  then obtain l where l: "strlen s = Some l" by auto
  then have "is_cstr s (unat l)" by (simp add: strlen_iff)
  with l show ?thesis by (simp add: str_text_def puts_cstr)
qed

subsection \<open>printf\<close>

lemma drop_bytes_Cons:
  assumes "c # cs = drop j (bytes s n)"
  shows "j < n" and "s (int j) = c" and "cs = drop (Suc j) (bytes s n)"
proof -
  show "j < n" using assms by (metis drop_all length_bytes linorder_not_less list.distinct(1))
  then show "s (int j) = c" and "cs = drop (Suc j) (bytes s n)"
    using assms by (simp_all add: Cons_nth_drop_Suc [symmetric])
qed

lemma char_codes:
  "(of_char (CHR ''%'') :: u8) = 37" "(of_char (CHR ''#'') :: u8) = 35" "(of_char (CHR ''x'') :: u8) = 120"
  "(of_char (CHR ''u'') :: u8) = 117" "(of_char (CHR ''d'') :: u8) = 100" "(of_char (CHR ''c'') :: u8) = 99"
  "(of_char (CHR ''s'') :: u8) = 115"
  by simp_all

lemma printf_conv_text:
  assumes "\<And>e. strlen (pstr (args e)) \<noteq> None"
  shows "conv_text alt cs args e = Some (t, rest, e') \<Longrightarrow> cs = drop j (bytes fmt n) \<Longrightarrow>
    \<exists>j'. printf_conv fmt args (int j) e alt k = Some (int j', e', fold putc t k) \<and> j' < n \<and>
      rest = drop (Suc j') (bytes fmt n)"
proof (induction cs arbitrary: alt j)
  case (Cons c cs)
  note d = drop_bytes_Cons [OF Cons.prems(2)]
  have IH: "conv_text True cs args e = Some (t, rest, e') \<Longrightarrow>
      \<exists>j'. printf_conv fmt args (int j + 1) e True k = Some (int j', e', fold putc t k) \<and> j' < n \<and>
        rest = drop (Suc j') (bytes fmt n)"
    using Cons.IH [of True "Suc j"] d(3) by (simp add: add.commute)
  obtain i where "puts (pstr (args e)) k = Some (i, fold putc (str_text (pstr (args e))) k)"
    using puts_str [OF assms] by blast
  then show ?case
    using Cons.prems(1) IH d unfolding printf_conv.simps [of fmt args "int j"] char_codes
    by (auto simp: Let_def printf_x_text printf_u_text printf_d_text split: if_splits intro!: exI [of _ j])
qed simp

lemma printf_loop_text:
  assumes "\<And>e. strlen (pstr (args e)) \<noteq> None" and "is_cstr fmt n"
  shows "expand cs args e = Some t \<Longrightarrow> j \<le> n \<Longrightarrow> cs = drop j (bytes fmt n) \<Longrightarrow>
    printf_loop fmt args (int j) e k = Some (int n, fold putc t k)"
proof (induction cs arbitrary: j e t k rule: length_induct)
  case (1 cs)
  show ?case
  proof (cases cs)
    case Nil
    then have "j = n" using "1.prems"(2,3) by simp
    with Nil "1.prems"(1) show ?thesis
      by (subst printf_loop.simps) (simp add: is_cstrD [OF assms(2)])
  next
    case (Cons c rest)
    then have d: "j < n" "fmt (int j) = c" "rest = drop (Suc j) (bytes fmt n)"
      using drop_bytes_Cons [of c rest j fmt n] "1.prems"(3) by simp_all
    then have nz: "fmt (int j) \<noteq> 0" using is_cstrD(2) [OF assms(2)] by blast
    show ?thesis
    proof (cases "c = 37")
      case False
      then obtain t' where t': "t = c # t'" "expand rest args e = Some t'"
        using "1.prems"(1) Cons by auto
      have "printf_loop fmt args (int (Suc j)) e (putc c k) = Some (int n, fold putc t' (putc c k))"
        by (rule "1.IH" [rule_format]) (use Cons t'(2) d in auto)
      with False nz d(2) t'(1) show ?thesis
        by (subst printf_loop.simps) (simp add: add.commute)
    next
      case True
      then obtain u rest' e' t' where c: "conv_text False rest args e = Some (u, rest', e')"
        "expand rest' args e' = Some t'" "t = u @ t'"
        using "1.prems"(1) Cons by (auto split: option.splits)
      obtain j' where j': "printf_conv fmt args (int (Suc j)) e False k = Some (int j', e', fold putc u k)"
        "j' < n" "rest' = drop (Suc j') (bytes fmt n)"
        using printf_conv_text [OF assms(1) c(1) d(3)] by blast
      have "length rest' < length cs" using conv_text_shorter [OF c(1)] Cons by simp
      then have "printf_loop fmt args (int (Suc j')) e' (fold putc u k) =
          Some (int n, fold putc t' (fold putc u k))"
        by (rule "1.IH" [rule_format]) (use c(2) j'(2,3) in auto)
      with True nz d(2) j'(1) c(3) show ?thesis
        by (subst printf_loop.simps) (simp add: add.commute)
    qed
  qed
qed

lemma printf_text:
  assumes "\<And>e. strlen (pstr (args e)) \<noteq> None" and "is_cstr fmt n"
    and "expand (bytes fmt n) args 0 = Some t"
  shows "printf fmt args k = Some (int n, fold putc t k)"
  using printf_loop_text [OF assms(1,2,3), of 0 k] by (simp add: printf_def)

subsection \<open>Properties\<close>

text \<open>
  C29. \<open>printf\<close> prints exactly the text its format denotes: for a terminated format that does
  not end inside a conversion and terminated string arguments it returns, its result is the
  length of the format, and the kernel has put the characters of \<open>expand\<close>, one by one and in
  order.
\<close>

theorem printf_prints_expansion:
  assumes "\<And>e. strlen (pstr (args e)) \<noteq> None" and "is_cstr fmt n"
    and "expand (bytes fmt n) args 0 = Some t"
  shows "printf fmt args k = Some (int n, fold putc t k)"
  by (rule printf_text [OF assms])

lemma strlen_lit: "0 \<notin> set (map of_char s :: u8 list) \<Longrightarrow> length s < 2 ^ 32 \<Longrightarrow> strlen (lit s) = Some (of_nat (length s))"
  by (intro strlen_cstr is_cstrI) (auto simp: lit_def image_iff dest!: nth_mem)

lemma strlen_pushed:
  "list_all (\<lambda>a. strlen (pstr a) \<noteq> None) as \<Longrightarrow> strlen (pstr (pushed as e)) \<noteq> None"
  by (simp add: pushed_def word_arg_def strlen_lit list_all_length)

theorem printf_prints_expansion_witness:
  "printf (lit ''%#x=%d%%'') (pushed [word_arg 0xE, word_arg (-42)]) boot_kernel =
     Some (8, fold putc (map of_char ''0000000E=-42%'') boot_kernel)"
proof -
  have "is_cstr (lit ''%#x=%d%%'') 8" by code_simp
  moreover have "expand (bytes (lit ''%#x=%d%%'') 8) (pushed [word_arg 0xE, word_arg (-42)]) 0 =
      Some (map of_char ''0000000E=-42%'')"
    by code_simp
  moreover have "strlen (pstr (pushed [word_arg 0xE, word_arg (-42)] e)) \<noteq> None" for e
    by (rule strlen_pushed) (simp add: word_arg_def strlen_lit)
  ultimately show ?thesis
    using printf_prints_expansion [of "pushed [word_arg 0xE, word_arg (-42)]" "lit ''%#x=%d%%''" 8] by simp
qed

end
