(* ===== verification/Process.thy ===== *)
theory Process
  imports Descriptors Printf
begin

section \<open>Processes\<close>

text \<open>
  The process calls of \<open>src/student-distrib/system_calls.c\<close>: \<open>sys_execute\<close> loads a
  program and enters it, \<open>sys_halt\<close> ends it and resumes its parent, with the arguments, the
  video mapping and the calls that are not implemented; and \<open>blue_screen\<close> of \<open>lib.c\<close>, which
  ends a program that raised an exception.

  \<open>esp\<close> and \<open>ebp\<close> of the state are the registers in the frame of the C function that runs.
  A function either returns a value, enters a program at an address, or jumps to the label
  \<open>ret_to_exec\<close> inside the \<open>sys_execute\<close> that started the program; \<open>flow\<close> says which.
\<close>

subsection \<open>Process numbers\<close>

abbreviation (input) MAX_PROCESSES :: int where "MAX_PROCESSES \<equiv> 6"
abbreviation (input) MAX_CMD_LEN :: int where "MAX_CMD_LEN \<equiv> 32"
abbreviation (input) MAX_ARG_LEN :: int where "MAX_ARG_LEN \<equiv> 128"

definition init_pid :: "kernel \<Rightarrow> kernel" where
  "init_pid k = k\<lparr>used_pids := (\<lambda>i. if 0 \<le> i \<and> i < MAX_PROCESSES then 0 else used_pids k i)\<rparr>"

definition get_new_pid :: "kernel \<Rightarrow> int" where
  "get_new_pid k = int8 (first_free (\<lambda>i. used_pids k i \<noteq> 0) [0, 1, 2, 3, 4, 5])"

subsection \<open>Running a program\<close>

datatype flow = Ret int | Enter u32 | Ret_to_exec u32

text \<open>The loop over the program name: the name, the index where it stopped, and whether arguments follow.\<close>

function get_program :: "view \<Rightarrow> int \<Rightarrow> view \<Rightarrow> view \<times> int \<times> bool" where
  "get_program command i name =
     (if i < MAX_CMD_LEN then
        let c = command i in
        if c = of_char (CHR '' '') then (name, i, True)
        else if c = 10 then (name, i, False)
        else get_program command (i + 1) (name(i := c, i + 1 := 0))
      else (name, i, False))"
  by pat_completeness auto
termination
  by (relation "measure (\<lambda>(command, i, name). nat (32 - i))") auto

function get_arguments :: "view \<Rightarrow> int \<Rightarrow> int \<Rightarrow> view \<Rightarrow> view" where
  "get_arguments command cmd_name_len i arguments =
     (if i < MAX_ARG_LEN then
        let c = command i in
        if c = 10 \<or> c = 0 \<or> c = of_char (CHR '' '') then arguments
        else get_arguments command cmd_name_len (i + 1)
               (arguments(i - cmd_name_len := c, i - cmd_name_len + 1 := 0))
      else arguments)"
  by pat_completeness auto
termination
  by (relation "measure (\<lambda>(command, l, i, arguments). nat (128 - i))") auto

declare get_program.simps [simp del] get_arguments.simps [simp del]

definition ELF_MAGIC :: "u8 list" where
  "ELF_MAGIC = [0x7F, 0x45, 0x4C, 0x46]"

abbreviation (input) PROG_LOAD_ADDR :: u32 where "PROG_LOAD_ADDR \<equiv> 0x08048000"
abbreviation (input) USER_ESP :: u32 where "USER_ESP \<equiv> 0x8000000 + 0x400000 - 4"
abbreviation (input) KERNEL_DS :: u16 where "KERNEL_DS \<equiv> 0x18"
abbreviation (input) PROG_ENTRY_OFFSET :: u32 where "PROG_ENTRY_OFFSET \<equiv> 24"
abbreviation (input) FOUR_MB :: u32 where "FOUR_MB \<equiv> 0x400000"
abbreviation (input) HALT_STATUS_EXC :: "'a :: len word" where "HALT_STATUS_EXC \<equiv> 4"
abbreviation (input) HALT_EXC :: int where "HALT_EXC \<equiv> 256"

text \<open>\<open>tss.ss0\<close> and \<open>tss.esp0\<close> for the process in slot \<open>pid\<close>.\<close>

definition set_tss :: "int \<Rightarrow> kernel \<Rightarrow> kernel" where
  "set_tss pid k = k\<lparr>tss := (tss k)\<lparr>ss0 := KERNEL_DS, esp0 := 0x800000 - 4 - word_of_int pid * 0x2000\<rparr>\<rparr>"

text \<open>The loop that sets up the descriptors of a new process.\<close>

definition init_fdt :: "pcb \<Rightarrow> pcb" where
  "init_fdt q = q\<lparr>fdt := (\<lambda>i. if i = 0 \<or> i = 1 then std_entry i (fdt q i)
                              else if 2 \<le> i \<and> i < 8 then zero_fdt_entry else fdt q i)\<rparr>"

text \<open>The block of a new process: its numbers and its parent, its arguments, and the rest.\<close>

definition link_parent :: "int \<Rightarrow> kernel \<Rightarrow> kernel" where
  "link_parent new_pid k =
     (let new_pcb = get_pcb_by_pid new_pid;
          k1 = upd_pcb new_pcb (\<lambda>q. q\<lparr>pcb_pid := new_pid, prog_freq := 0, pcb_count := 0, divisor := 0\<rparr>) k;
          k2 = upd_pcb new_pcb (\<lambda>q. q\<lparr>par_pid := pcb_pid (pcbs k1 (get_curr_pcb k1))\<rparr>) k1;
          k3 = (if new_pid < 3 then upd_pcb new_pcb (\<lambda>q. q\<lparr>par_pid := new_pid\<rparr>) k2 else k2)
      in upd_pcb new_pcb (\<lambda>q. q\<lparr>par_pcb_ptr := get_curr_pcb k3\<rparr>) k3)"

definition set_args :: "bool \<Rightarrow> view \<Rightarrow> (pcb \<Rightarrow> pcb) option" where
  "set_args have_args arguments =
     (if have_args
      then map_option (\<lambda>n q. let l = int8 (sint n)
             in q\<lparr>arg_len := l, pcb_args := strncpy (pcb_args q) arguments (word_of_int l)\<rparr>) (strlen arguments)
      else Some (\<lambda>q. q\<lparr>arg_len := -1, pcb_args := (pcb_args q)(0 := 0)\<rparr>))"

definition create_pcb :: "int \<Rightarrow> bool \<Rightarrow> view \<Rightarrow> kernel \<Rightarrow> kernel option" where
  "create_pcb new_pid have_args arguments k =
     map_option (\<lambda>f. upd_pcb (get_pcb_by_pid new_pid)
       (\<lambda>q. init_fdt ((f q)\<lparr>par_esp := esp k, par_ebp := ebp k\<rparr>)) (link_parent new_pid k))
     (set_args have_args arguments)"

text \<open>From the context switch to the entry of the program.\<close>

definition start_process :: "int \<Rightarrow> u32 \<Rightarrow> kernel \<Rightarrow> (flow \<times> kernel) option" where
  "start_process new_pid eip k =
     (case printf (lit (''-- Executing Process #%d (T%d) --'' @ [CHR 0x0A]))
             (pushed [word_arg new_pid, word_arg (curr_process k)]) (set_tss new_pid k) of
        None \<Rightarrow> None
      | Some (_, k1) \<Rightarrow>
          let new_pcb = get_pcb_by_pid new_pid;
              k2 = k1\<lparr>used_pids := (used_pids k1)(new_pid := 1)\<rparr>;
              k3 = upd_terminal (curr_process k2)
                     (\<lambda>t. t\<lparr>prog_curr_pid := new_pid, prog_par_pid := par_pid (pcbs k2 new_pcb)\<rparr>) k2
          in Some (Enter eip, upd_pcb new_pcb (\<lambda>q. q\<lparr>pcb_esp := USER_ESP, pcb_ebp := USER_ESP\<rparr>) k3))"

text \<open>The checks on the file: its directory entry and its first four bytes.\<close>

definition check_executable :: "view \<Rightarrow> kernel \<Rightarrow> u32 option option" where
  "check_executable name k =
     (case read_dentry_by_name (vmem k) (fs k) name (fresh k) of
        None \<Rightarrow> None
      | Some (r, exe_dir_entry) \<Rightarrow>
          if r = ERROR then Some None
          else let inode = de_inode_num exe_dir_entry;
                   (r, buf_elf) = read_data (vmem k) (fs k) inode 0 4
            in if r = ERROR then Some None
               else if bytes (\<lambda>i. if i < int (length buf_elf) then buf_elf ! nat i else fresh k i) 4 \<noteq> ELF_MAGIC
               then Some None else Some (Some inode))"

definition sys_execute :: "view \<Rightarrow> kernel \<Rightarrow> (flow \<times> kernel) option" where
  "sys_execute command k =
     (let (executable_name, i, have_args) = get_program command 0 (fresh k);
          arguments = (if have_args then get_arguments command (i + 1) (i + 1) ((fresh k)(0 := 0))
                       else (fresh k)(0 := 0))
      in case check_executable executable_name k of
           None \<Rightarrow> None
         | Some None \<Rightarrow> Some (Ret ERROR, k)
         | Some (Some inode) \<Rightarrow>
             let new_pid = get_new_pid k in
             if new_pid = ERROR
             then map_option (\<lambda>(_, k'). (Ret ERROR, k'))
                    (printf (lit (''-- Max Processes Already Reached (%d) --'' @ [CHR 0x0A])) (pushed [word_arg MAX_PROCESSES]) k)
             else let k1 = enable_program_page new_pid k;
                      (r, stored) = read_data (vmem k1) (fs k1) inode 0 FOUR_MB;
                      k2 = vstore PROG_LOAD_ADDR stored k1
               in if r = ERROR then Some (Ret ERROR, k2)
                  else let eip = u32_at (vmem k2) (PROG_LOAD_ADDR + PROG_ENTRY_OFFSET)
                       in Option.bind (create_pcb new_pid have_args arguments k2) (start_process new_pid eip))"

text \<open>
  The string literal that restarts a shell. The parser reads 32 bytes of it, so what the linker
  placed behind it matters: like an uninitialised array it is unknown.
\<close>

definition shell_command :: "kernel \<Rightarrow> view" where
  "shell_command k i = (if i < 6 then lit ''shell'' i else fresh k i)"

text \<open>What \<open>sys_execute\<close> returns when the program it started has halted.\<close>

definition exec_return :: "u32 \<Rightarrow> int" where
  "exec_return ret = (if ret = HALT_STATUS_EXC then HALT_EXC else 0)"

subsection \<open>Ending a program\<close>

definition close_files :: "u8 \<Rightarrow> u32 \<Rightarrow> kernel \<Rightarrow> kernel option" where
  "close_files regA p k =
     fold (\<lambda>i ok. Option.bind ok (\<lambda>k.
       if enabled (fdt (pcbs k p) i)
       then map_option (\<lambda>f. snd (call_close regA (fot_close f) i k)) (fot_of (fot_ptr (fdt (pcbs k p) i)))
       else Some k)) [0, 1, 2, 3, 4, 5, 6, 7] (Some k)"

text \<open>The end of \<open>sys_halt\<close>: the terminal, the stack and the jump into the parent.\<close>

definition leave_process :: "u8 \<Rightarrow> u32 \<Rightarrow> kernel \<Rightarrow> flow \<times> kernel" where
  "leave_process status p k =
     (let par = pcbs k (par_pcb_ptr (pcbs k p));
          k1 = upd_terminal (curr_process k) (\<lambda>t. t\<lparr>prog_curr_pid := pcb_pid par, prog_par_pid := par_pid par\<rparr>) k;
          q = pcbs k1 p;
          k2 = upd_pcb p (\<lambda>_. zero_pcb) k1
      in (Ret_to_exec (ucast status), k2\<lparr>esp := par_esp q, ebp := par_ebp q\<rparr>))"

definition sys_halt :: "u8 \<Rightarrow> u8 \<Rightarrow> kernel \<Rightarrow> (flow \<times> kernel) option" where
  "sys_halt regA status k =
     (let p = get_pcb_by_pid (prog_curr_pid (terminals k (curr_process k))) in
      if p = 0 then Some (Ret ERROR, k)
      else let pid = pcb_pid (pcbs k p);
               k1 = set_tss (par_pid (pcbs k p)) k;
               k2 = k1\<lparr>used_pids := (used_pids k1)(pid := 0)\<rparr>
        in case printf (lit (''-- Halting Process #%d --'' @ [CHR 0x0A])) (pushed [word_arg pid]) k2 of
             None \<Rightarrow> None
           | Some (_, k3) \<Rightarrow>
               (case close_files regA p (enable_program_page (par_pid (pcbs k3 p)) k3) of
                  None \<Rightarrow> None
                | Some k4 \<Rightarrow>
                    if pid < 3 then
                      case puts (lit (''-- Exited Root Process --'' @ [CHR 0x0A])) k4 of
                        None \<Rightarrow> None
                      | Some (_, k5) \<Rightarrow>
                          (case sys_execute (shell_command k5) k5 of
                             None \<Rightarrow> None
                           | Some (Ret r, k6) \<Rightarrow> Some (leave_process status p k6)
                           | Some (other, k6) \<Rightarrow> Some (other, k6))
                    else Some (leave_process status p k4)))"

definition blue_screen :: "u8 \<Rightarrow> view \<Rightarrow> kernel \<Rightarrow> (flow \<times> kernel) option" where
  "blue_screen regA str k =
     (case printf (lit (''! ERROR '' @ [CHR 0xAF] @ '' %s !'' @ [CHR 0x0A])) (pushed [str_arg str]) k of
        None \<Rightarrow> None
      | Some (_, k1) \<Rightarrow> sys_halt regA HALT_STATUS_EXC k1)"

subsection \<open>The other calls\<close>

definition sys_getargs :: "u32 \<Rightarrow> int \<Rightarrow> kernel \<Rightarrow> int \<times> kernel" where
  "sys_getargs buf nbytes k =
     (if buf = 0 then (ERROR, k)
      else let q = pcbs k (get_curr_pcb k) in
        if arg_len q = ERROR then (ERROR, k)
        else if nbytes < arg_len q then (ERROR, k)
        else let k1 = (if 0 < nbytes then vwrite (buf + word_of_int (arg_len q)) 0 k else k)
             in (0, vstore buf (bytes (pcb_args q) (nat (arg_len q))) k1))"

definition sys_vidmap :: "u32 \<Rightarrow> kernel \<Rightarrow> int \<times> kernel" where
  "sys_vidmap screen_start k =
     (if screen_start = 0 then (ERROR, k)
      else if sint screen_start < 0x8000000 \<or> sint screen_start > 0x8400000 then (ERROR, k)
      else let (v, k1) = get_vidmem k
           in (0, vstore screen_start [ucast v, ucast (drop_bit 8 v), ucast (drop_bit 16 v), ucast (drop_bit 24 v)] k1))"

definition not_implemented :: "kernel \<Rightarrow> (int \<times> kernel) option" where
  "not_implemented k =
     map_option (\<lambda>(_, k'). (ERROR, k')) (printf (lit (''Not implemented yet'' @ [CHR 0x0A])) (pushed []) k)"

definition sys_set_handler :: "int \<Rightarrow> u32 \<Rightarrow> kernel \<Rightarrow> (int \<times> kernel) option" where
  "sys_set_handler signum handler_address k = not_implemented k"

definition sys_sigreturn :: "kernel \<Rightarrow> (int \<times> kernel) option" where
  "sys_sigreturn k = not_implemented k"

text \<open>
  \<open>SYS_handler_wrapper\<close>: interrupts on, the number in EAX checked, and the call made through
  the jump table with EBX, ECX and EDX as arguments.
\<close>

definition SYS_handler_wrapper ::
    "u8 \<Rightarrow> u32 \<Rightarrow> u32 \<Rightarrow> u32 \<Rightarrow> u32 \<Rightarrow> kernel \<Rightarrow> interrupt list \<Rightarrow> (flow \<times> kernel \<times> interrupt list) option" where
  "SYS_handler_wrapper regA eax ebx ecx edx k0 hs =
     (let k = sti k0; n = eax - 1;
          ret = map_option (\<lambda>(r, k'). (Ret r, k', hs));
          jmp = map_option (\<lambda>(f, k'). (f, k', hs))
      in if n \<ge> 10 then Some (Ret (-1), k, hs)
         else if n = 0 then jmp (sys_halt regA (ucast ebx) k)
         else if n = 1 then jmp (sys_execute (view_of (vmem k) ebx) k)
         else if n = 2 then map_option (\<lambda>(r, k', hs'). (Ret r, k', hs')) (sys_read (sint ebx) ecx (sint edx) k hs)
         else if n = 3 then ret (sys_write regA (sint ebx) ecx (sint edx) k)
         else if n = 4 then ret (sys_open regA (view_of (vmem k) ebx) k)
         else if n = 5 then ret (sys_close regA (sint ebx) k)
         else if n = 6 then ret (Some (sys_getargs ebx (sint ecx) k))
         else if n = 7 then ret (Some (sys_vidmap ebx k))
         else if n = 8 then ret (sys_set_handler (sint ebx) ecx k)
         else ret (sys_sigreturn k))"

interpretation pids: slot_search "\<lambda>k i. used_pids k i \<noteq> 0" "[0, 1, 2, 3, 4, 5]" get_new_pid
proof unfold_locales
  show "get_new_pid k = (case find (\<lambda>i. \<not> used_pids k i \<noteq> 0) [0, 1, 2, 3, 4, 5] of None \<Rightarrow> ERROR | Some i \<Rightarrow> i)"
    for k unfolding get_new_pid_def first_free_find [symmetric] by (rule first_free_small) auto
qed auto

lemma get_new_pid_range:
  "get_new_pid k \<noteq> ERROR \<Longrightarrow> 0 \<le> get_new_pid k \<and> get_new_pid k < 6 \<and> used_pids k (get_new_pid k) = 0"
  using pids.search_free(1,2) [of k] unfolding slot_list by simp

subsection \<open>Commands\<close>

text \<open>
  A command as a text: its name goes up to the first space, line end or NUL, and what follows a
  space up to the next of them is its argument. The name is cut at 32 bytes, and the command at
  128.
\<close>

definition blank :: "u8 \<Rightarrow> bool" where
  "blank b \<longleftrightarrow> b = 32 \<or> b = 10"

definition name_end :: "view \<Rightarrow> nat" where
  "name_end c = length (takeWhile (\<lambda>b. \<not> blank b) (bytes c 32))"

definition command_name :: "view \<Rightarrow> u8 list" where
  "command_name c = takeWhile (\<lambda>b. \<not> blank b \<and> b \<noteq> 0) (bytes c 32)"

definition has_args :: "view \<Rightarrow> bool" where
  "has_args c \<longleftrightarrow> name_end c < 32 \<and> c (int (name_end c)) = 32"

definition command_args :: "view \<Rightarrow> u8 list" where
  "command_args c = takeWhile (\<lambda>b. \<not> blank b \<and> b \<noteq> 0)
     (map (\<lambda>i. c (int i)) [Suc (name_end c)..<128])"

lemma name_end_le: "name_end c \<le> 32"
  using length_takeWhile_le [of "\<lambda>b. \<not> blank b" "bytes c 32"] by (simp add: name_end_def)

lemma name_end_below: "i < name_end c \<Longrightarrow> \<not> blank (c (int i))"
  using takeWhile_nth [of i "\<lambda>b. \<not> blank b" "bytes c 32"]
    nth_mem [of i "takeWhile (\<lambda>b. \<not> blank b) (bytes c 32)"] name_end_le [of c]
  by (auto simp: name_end_def dest!: set_takeWhileD)

lemma name_end_stop: "name_end c < 32 \<Longrightarrow> blank (c (int (name_end c)))"
  using nth_length_takeWhile [of "\<lambda>b. \<not> blank b" "bytes c 32"] by (simp add: name_end_def)

lemma get_program_loop:
  assumes "j \<le> name_end c"
  shows "get_program c (int j) nm = (\<lambda>i. if int j \<le> i \<and> i < int (name_end c) then c i
      else if i = int (name_end c) \<and> j < name_end c then 0 else nm i, int (name_end c), has_args c)"
  using assms
proof (induction "name_end c - j" arbitrary: j nm)
  case 0
  then have j: "j = name_end c" by simp
  show ?case
  proof (cases "name_end c < 32")
    case True
    with name_end_stop [OF True] show ?thesis
      by (subst get_program.simps) (auto simp: j blank_def has_args_def Let_def fun_eq_iff)
  next
    case False
    then show ?thesis
      using name_end_le [of c] by (subst get_program.simps) (auto simp: j has_args_def fun_eq_iff)
  qed
next
  case (Suc d)
  then have j: "j < name_end c" "d = name_end c - Suc j" by simp_all
  with name_end_below [OF j(1)] name_end_le [of c]
  have "get_program c (int j) nm = get_program c (int (Suc j)) (nm(int j := c (int j), int j + 1 := 0))"
    by (subst get_program.simps) (simp add: blank_def Let_def add.commute)
  also have "\<dots> = (\<lambda>i. if int j \<le> i \<and> i < int (name_end c) then c i
      else if i = int (name_end c) \<and> j < name_end c then 0 else nm i, int (name_end c), has_args c)"
    unfolding Suc.hyps(1) [OF j(2) Suc_leI [OF j(1)]] using j(1) by (auto simp: fun_eq_iff)
  finally show ?case .
qed

lemma command_name_cprefix: "command_name c = cprefix (name_end c) c"
proof -
  have "takeWhile (\<lambda>b. \<not> blank b) (bytes c 32) = take (name_end c) (bytes c 32)"
    unfolding name_end_def by (rule takeWhile_eq_take)
  also have "\<dots> = bytes c (name_end c)"
    using name_end_le [of c] by (simp add: bytes_def take_map)
  finally show ?thesis by (simp add: command_name_def cprefix_def flip: takeWhile_takeWhile)
qed

lemma get_program_name:
  fixes c nm :: view
  assumes "command_name c \<noteq> []"
  defines "r \<equiv> get_program c 0 nm"
  shows "is_cstr (fst r) (length (command_name c))" and "bytes (fst r) (length (command_name c)) = command_name c"
    and "fst (snd r) = int (name_end c)" and "snd (snd r) = has_args c"
proof -
  let ?n = "length (command_name c)"
  have r: "r = (\<lambda>i. if 0 \<le> i \<and> i < int (name_end c) then c i
      else if i = int (name_end c) \<and> 0 < name_end c then 0 else nm i, int (name_end c), has_args c)"
    using get_program_loop [of 0 c nm] by (simp add: r_def)
  have n: "?n \<le> name_end c" "0 < ?n" using length_cprefix_le assms(1) by (auto simp: command_name_cprefix)
  have nz: "c (int i) \<noteq> 0" "command_name c ! i = c (int i)" if "i < ?n" for i
    using that cprefix_nonzero cprefix_nth unfolding command_name_cprefix by auto
  have "c (int ?n) = 0" if "?n < name_end c"
    using that cprefix_end unfolding command_name_cprefix by auto
  with n nz show "is_cstr (fst r) ?n" by (intro is_cstrI) (auto simp: r)
  show "bytes (fst r) ?n = command_name c" using n nz by (intro nth_equalityI) (auto simp: r)
qed (simp_all add: r_def get_program_loop [of 0, simplified])

lemma get_arguments_loop:
  assumes "l = Suc (name_end c)" and "j \<le> length (command_args c)"
  shows "get_arguments c (int l) (int (l + j)) as =
    (\<lambda>i. if int j \<le> i \<and> i < int (length (command_args c)) then c (int l + i)
      else if i = int (length (command_args c)) \<and> j < length (command_args c) then 0 else as i)"
  using assms(2)
proof (induction "length (command_args c) - j" arbitrary: j as)
  case 0
  then have j: "j = length (command_args c)" by simp
  have "blank (c (int (l + j))) \<or> c (int (l + j)) = 0" if "l + j < 128"
    using nth_length_takeWhile [of "\<lambda>b. \<not> blank b \<and> b \<noteq> 0" "map (\<lambda>i. c (int i)) [l..<128]"] that
    by (auto simp: j command_args_def assms(1))
  then have "get_arguments c (int l) (int (l + j)) as = as"
    by (subst get_arguments.simps) (auto simp: blank_def Let_def)
  then show ?case by (auto simp: j fun_eq_iff)
next
  case (Suc d)
  let ?m = "length (command_args c)"
  from Suc have j: "j < ?m" "d = ?m - Suc j" by simp_all
  have "?m \<le> 128 - l"
    using length_takeWhile_le [of _ "map (\<lambda>i. c (int i)) [l..<128]"] by (simp add: command_args_def assms(1))
  with j have lj: "l + j < 128" by simp
  have "command_args c ! j = c (int (l + j))"
    using takeWhile_nth [of j _ "map (\<lambda>i. c (int i)) [l..<128]"] j(1) lj by (simp add: command_args_def assms(1))
  moreover have "command_args c ! j \<in> set (command_args c)" using j(1) by simp
  ultimately have "\<not> blank (c (int (l + j))) \<and> c (int (l + j)) \<noteq> 0"
    by (auto simp: command_args_def dest!: set_takeWhileD)
  with lj have "get_arguments c (int l) (int (l + j)) as =
      get_arguments c (int l) (int (l + Suc j)) (as(int j := c (int (l + j)), int j + 1 := 0))"
    by (subst get_arguments.simps) (simp add: blank_def Let_def add.commute)
  also have "\<dots> = (\<lambda>i. if int j \<le> i \<and> i < int ?m then c (int l + i) else if i = int ?m \<and> j < ?m then 0 else as i)"
    unfolding Suc.hyps(1) [OF j(2) Suc_leI [OF j(1)]] using j(1) by (auto simp: fun_eq_iff)
  finally show ?case .
qed

lemma get_arguments_text:
  fixes c as :: view
  assumes "as 0 = 0"
  defines "r \<equiv> get_arguments c (int (name_end c) + 1) (int (name_end c) + 1) as"
  shows "is_cstr r (length (command_args c))" and "bytes r (length (command_args c)) = command_args c"
    and "length (command_args c) < 128"
proof -
  let ?m = "length (command_args c)" and ?l = "Suc (name_end c)"
  have r: "r = (\<lambda>i. if 0 \<le> i \<and> i < int ?m then c (int ?l + i) else if i = int ?m \<and> 0 < ?m then 0 else as i)"
    using get_arguments_loop [OF refl, of 0 c as] by (simp add: r_def add.commute)
  have m: "?m \<le> 128 - ?l"
    using length_takeWhile_le [of _ "map (\<lambda>i. c (int i)) [?l..<128]"] by (simp add: command_args_def)
  then show "?m < 128" by linarith
  have nz: "command_args c ! i = c (int ?l + int i)" "c (int ?l + int i) \<noteq> 0" if "i < ?m" for i
  proof -
    show *: "command_args c ! i = c (int ?l + int i)"
      using takeWhile_nth [of i _ "map (\<lambda>i. c (int i)) [?l..<128]"] that m by (simp add: command_args_def add.assoc)
    have "command_args c ! i \<in> set (command_args c)" using that by simp
    then show "c (int ?l + int i) \<noteq> 0" unfolding * by (auto simp: command_args_def dest!: set_takeWhileD)
  qed
  show "is_cstr r ?m" using nz(2) assms(1) by (intro is_cstrI) (auto simp: r)
  show "bytes r ?m = command_args c" using nz(1) by (intro nth_equalityI) (auto simp: r)
qed

subsection \<open>Messages\<close>

text \<open>The formats of the messages are terminated and denote a text, whatever goes in.\<close>

lemma lit_prints:
  assumes "list_all (\<lambda>a. strlen (pstr a) \<noteq> None) as" and "0 \<notin> set (map of_char s :: u8 list)"
    and "expand (map of_char s) (pushed as) 0 = Some t"
  shows "printf (lit s) (pushed as) k = Some (int (length s), fold putc t k)"
proof -
  have "is_cstr (lit s) (length s)"
    using assms(2) by (intro is_cstrI) (auto simp: lit_def image_iff dest!: nth_mem)
  moreover have "bytes (lit s) (length s) = map of_char s"
    by (intro nth_equalityI) (simp_all add: lit_def)
  ultimately show ?thesis
    using printf_text [of "pushed as" "lit s" "length s" t k] strlen_pushed [OF assms(1)] assms(3) by simp
qed

lemma lit_msg:
  assumes "list_all (\<lambda>a. strlen (pstr a) \<noteq> None) as" and "0 \<notin> set (map of_char s :: u8 list)"
    and "\<exists>t. expand (map of_char s) (pushed as) 0 = Some t"
  shows "\<exists>n t. printf (lit s) (pushed as) k = Some (n, fold putc t k)"
  using lit_prints [OF assms(1,2)] assms(3) by blast

lemma word_arg_str: "strlen (pstr (word_arg n)) \<noteq> None"
proof -
  have "is_cstr (lit '''') 0" by code_simp
  then have "strlen (lit '''') = Some (of_nat 0)" by (intro strlen_cstr) simp_all
  then show ?thesis by (simp add: word_arg_def)
qed

lemma executing_msg:
  "\<exists>n t. printf (lit (''-- Executing Process #%d (T%d) --'' @ [CHR 0x0A])) (pushed [word_arg a, word_arg b]) k =
     Some (n, fold putc t k)"
proof (rule lit_msg)
  show "0 \<notin> set (map of_char (''-- Executing Process #%d (T%d) --'' @ [CHR 0x0A]) :: u8 list)" by code_simp
qed (use word_arg_str in \<open>simp_all add: expand.simps\<close>)

lemma max_msg:
  "\<exists>n t. printf (lit (''-- Max Processes Already Reached (%d) --'' @ [CHR 0x0A])) (pushed [word_arg a]) k =
     Some (n, fold putc t k)"
proof (rule lit_msg)
  show "0 \<notin> set (map of_char (''-- Max Processes Already Reached (%d) --'' @ [CHR 0x0A]) :: u8 list)" by code_simp
qed (use word_arg_str in \<open>simp_all add: expand.simps\<close>)

lemma halting_msg:
  "\<exists>n t. printf (lit (''-- Halting Process #%d --'' @ [CHR 0x0A])) (pushed [word_arg a]) k = Some (n, fold putc t k)"
proof (rule lit_msg)
  show "0 \<notin> set (map of_char (''-- Halting Process #%d --'' @ [CHR 0x0A]) :: u8 list)" by code_simp
qed (use word_arg_str in \<open>simp_all add: expand.simps\<close>)

lemma out_frame_putcs: "out_frame k (fold putc cs k)"
  by (rule fold_out) (auto intro: frame)

subsection \<open>The image and the program\<close>

definition kernel_addr :: "u32 \<Rightarrow> bool" where
  "kernel_addr a \<longleftrightarrow> 0x400000 \<le> unat a \<and> unat a < 0x800000"

text \<open>The physical memory of the programs in the slots other than \<open>n\<close>: each slot has a page of 4 MB.\<close>

definition in_slot :: "int \<Rightarrow> u32 \<Rightarrow> bool" where
  "in_slot n a \<longleftrightarrow> unat a div 0x400000 = nat (n + 2)"

definition other_mem :: "int \<Rightarrow> u32 \<Rightarrow> bool" where
  "other_mem n a \<longleftrightarrow> 0x800000 \<le> unat a \<and> \<not> in_slot n a"

lemma in_slot_other:
  assumes "in_slot m a" and "0 \<le> m" and "0 \<le> n" and "m \<noteq> n"
  shows "other_mem n a"
proof -
  have "2 \<le> unat a div 0x400000" using assms(1,2) by (simp add: in_slot_def)
  then have "2 * 0x400000 \<le> unat a" by (simp add: less_eq_div_iff_mult_less_eq)
  then show ?thesis using assms by (simp add: other_mem_def in_slot_def)
qed

text \<open>All that reading the file touches lies in the kernel's page.\<close>

definition file_in_kernel :: "mem \<Rightarrow> fs_globals \<Rightarrow> u32 \<Rightarrow> bool" where
  "file_in_kernel m g inode \<longleftrightarrow>
     (let node = inode_addr g inode in
      (\<forall>j<4. kernel_addr (node + of_nat j)) \<and>
      (\<forall>b<file_size m g inode.
         (\<forall>j<4. kernel_addr (node + 4 + 4 * of_nat (b div 4096) + of_nat j)) \<and>
         kernel_addr (data_block_addr m g node (of_nat (b div 4096)) + of_nat (b mod 4096))))"

lemma u32_at_agree:
  assumes "\<And>a. kernel_addr a \<Longrightarrow> m' a = m a" and "\<forall>j<4. kernel_addr (p + of_nat j)"
  shows "u32_at m' p = u32_at m p"
  using assms(2) [rule_format, of 0] assms(2) [rule_format, of 1] assms(2) [rule_format, of 2]
    assms(2) [rule_format, of 3]
  by (simp add: u32_at_def assms(1))

lemma file_contents_agree:
  assumes m: "\<And>a. kernel_addr a \<Longrightarrow> m' a = m a" and f: "file_in_kernel m g i"
  shows "file_contents m' g i = file_contents m g i"
proof -
  let ?node = "inode_addr g i"
  have sz: "file_size m' g i = file_size m g i"
    using f u32_at_agree [of m' m, OF m] by (simp add: file_in_kernel_def file_size_def length_in_bytes_def Let_def)
  have "file_byte m' g ?node b = file_byte m g ?node b" if "b < file_size m g i" for b
  proof -
    have "data_block_addr m' g ?node (of_nat (b div 4096)) = data_block_addr m g ?node (of_nat (b div 4096))"
      using f that u32_at_agree [of m' m, OF m]
      by (simp add: file_in_kernel_def data_block_addr_def data_block_indices_def Let_def)
    then show ?thesis using f that m by (simp add: file_in_kernel_def file_byte_def Let_def)
  qed
  then show ?thesis by (simp add: file_contents_def sz)
qed

lemma vmem_kernel: "paging_ok k \<Longrightarrow> kernel_addr a \<Longrightarrow> vmem k a = phys k a"
  using walk_kernel [of k a] by (simp add: vmem_def paddr_def paging_ok_def kernel_addr_def)

lemma enable_program_page_sel [simp]:
  "phys (enable_program_page n k) = phys k" "fs (enable_program_page n k) = fs k"
  "pcbs (enable_program_page n k) = pcbs k" "esp (enable_program_page n k) = esp k"
  "ebp (enable_program_page n k) = ebp k" "used_pids (enable_program_page n k) = used_pids k"
  "terminals (enable_program_page n k) = terminals k" "curr_process (enable_program_page n k) = curr_process k"
  "tss (enable_program_page n k) = tss k" "addr_of (enable_program_page n k) = addr_of k"
  "screen_x (enable_program_page n k) = screen_x k" "screen_y (enable_program_page n k) = screen_y k"
  "fresh (enable_program_page n k) = fresh k" "curr_ter (enable_program_page n k) = curr_ter k"
  "page_table (tabs (enable_program_page n k)) = page_table (tabs k)"
  "get_curr_pcb (enable_program_page n k) = get_curr_pcb k" "higher_freq (enable_program_page n k) = higher_freq k"
  "on_screen (enable_program_page n k) = on_screen k" "master_mask (enable_program_page n k) = master_mask k"
  "slave_mask (enable_program_page n k) = slave_mask k"
  by (simp_all add: enable_program_page_def flush_TLB_def Let_def get_curr_pcb_def upd_pde_def split: option.split)

lemma program_addr:
  assumes "i < 0x3B8000"
  shows "unat (0x08048000 + of_nat i :: u32) = 0x08048000 + i"
    and "unat (0x08048000 + of_nat i :: u32) div 0x400000 = 32"
    and "(0x08048000 + of_nat i :: u32) mod 0x400000 = 0x48000 + of_nat i"
proof -
  show u: "unat (0x08048000 + of_nat i :: u32) = 0x08048000 + i"
    using assms by (simp add: unat_word_ariths wsimps)
  then show "unat (0x08048000 + of_nat i :: u32) div 0x400000 = 32"
    using assms by (simp add: div_nat_eqI)
  have "(0x08048000 + i) mod 0x400000 = 0x48000 + i"
    using assms mod_mult_self1 [of "0x48000 + i" 32 "0x400000"] by simp
  moreover have "unat (0x48000 + of_nat i :: u32) = 0x48000 + i"
    using assms by (simp add: unat_word_ariths wsimps)
  ultimately show "(0x08048000 + of_nat i :: u32) mod 0x400000 = 0x48000 + of_nat i"
    by (simp add: word_unat_eq_iff unat_mod_distrib u)
qed

lemma maps_program:
  assumes "paging_ok k" and "0 \<le> n" and "n < 6" and "m \<le> 0x3B8000"
  shows "maps_range (enable_program_page n k) 0x08048000 (prog_page n + 0x48000) m"
proof -
  have "active (enable_program_page n k) = Some (tabs (enable_program_page n k))"
    using enable_program_page_ok [OF assms(1), of n] by (simp add: paging_ok_def)
  moreover have "walk (addr_of k) (tabs (enable_program_page n k)) (0x08048000 + of_nat i) =
      Some (prog_page n + 0x48000 + of_nat i)" if "i < m" for i
    using walk_program(2) [OF assms(2,3) program_addr(2)] program_addr(3) that assms(4)
    by (simp add: add.assoc)
  ultimately show ?thesis by (simp add: maps_range_def paddr_def)
qed

lemma vstore_frame [simp]:
  "used_pids (vstore a bs k) = used_pids k" "curr_process (vstore a bs k) = curr_process k"
  "ebp (vstore a bs k) = ebp k" "terminals (vstore a bs k) = terminals k" "tss (vstore a bs k) = tss k"
  "fresh (vstore a bs k) = fresh k" "curr_ter (vstore a bs k) = curr_ter k" "master_mask (vstore a bs k) = master_mask k"
  "slave_mask (vstore a bs k) = slave_mask k"
  "active (vstore a bs k) = active k" "addr_of (vstore a bs k) = addr_of k" "tabs (vstore a bs k) = tabs k"
  by (induction bs arbitrary: a k) (simp_all add: vwrite_def split: option.split)

subsection \<open>Executing\<close>

text \<open>The file a command names, when the directory has it.\<close>

definition exe_inode :: "kernel \<Rightarrow> nat \<Rightarrow> u32" where
  "exe_inode k i = de_inode_num (load_struct (fresh k) (vmem k) (dentry_addr (fs k) i) 64)"

lemma check_executable_cases:
  fixes k :: kernel and nm :: view
  assumes "is_cstr nm n" and "n \<le> 32" and "0 \<le> sint (num_dir_entries (fs k))"
  shows "lookup (vmem k) (fs k) (bytes nm n) = None \<Longrightarrow> check_executable nm k = Some None"
    and "lookup (vmem k) (fs k) (bytes nm n) = Some i \<Longrightarrow> exe_inode k i < num_inodes (fs k) \<Longrightarrow>
      4 \<le> file_size (vmem k) (fs k) (exe_inode k i) \<Longrightarrow>
      check_executable nm k = Some (if take 4 (file_contents (vmem k) (fs k) (exe_inode k i)) = ELF_MAGIC
        then Some (exe_inode k i) else None)"
proof -
  note d = read_dentry_by_name_eq [OF assms(1) _ assms(3), of "vmem k" "fresh k"]
  show "lookup (vmem k) (fs k) (bytes nm n) = None \<Longrightarrow> check_executable nm k = Some None"
    using d assms(2) by (simp add: check_executable_def)
  assume l: "lookup (vmem k) (fs k) (bytes nm n) = Some i" and i: "exe_inode k i < num_inodes (fs k)"
    and sz: "4 \<le> file_size (vmem k) (fs k) (exe_inode k i)"
  let ?bs = "take 4 (file_contents (vmem k) (fs k) (exe_inode k i))"
  have len: "length ?bs = 4" using sz by (simp add: file_contents_def)
  then have rd: "read_data (vmem k) (fs k) (exe_inode k i) 0 4 = (4, ?bs)"
    using read_data_eq [OF i, of "vmem k" 0 4] by simp
  have "bytes (\<lambda>i. if i < int (length ?bs) then ?bs ! nat i else fresh k i) 4 = ?bs"
    by (rule nth_equalityI) (use len in auto)
  with d l assms(2) rd show "check_executable nm k = Some (if ?bs = ELF_MAGIC then Some (exe_inode k i) else None)"
    by (simp add: check_executable_def exe_inode_def [symmetric])
qed

text \<open>The block of the new process.\<close>

definition new_block :: "int \<Rightarrow> kernel \<Rightarrow> pcb" where
  "new_block n k = (let p = get_pcb_by_pid n in (pcbs k p)\<lparr>pcb_pid := n, prog_freq := 0, pcb_count := 0, divisor := 0,
     par_pid := (if n < 3 \<or> get_curr_pcb k = p then n else pcb_pid (pcbs k (get_curr_pcb k))),
     par_pcb_ptr := get_curr_pcb k\<rparr>)"

lemma link_parent_eq: "link_parent n k = k\<lparr>pcbs := (pcbs k)(get_pcb_by_pid n := new_block n k)\<rparr>"
  by (cases "n < 3"; cases "get_curr_pcb k = get_pcb_by_pid n")
    (simp_all add: link_parent_def upd_pcb_def new_block_def get_curr_pcb_def Let_def)

lemma create_pcb_block:
  "set_args has as = Some f \<Longrightarrow> create_pcb n has as k = Some (k\<lparr>pcbs := (pcbs k)(get_pcb_by_pid n :=
     init_fdt ((f (new_block n k))\<lparr>par_esp := esp k, par_ebp := ebp k\<rparr>))\<rparr>)"
  by (simp add: create_pcb_def link_parent_eq upd_pcb_def)

lemma init_fdt_sel [simp]:
  "pcb_pid (init_fdt q) = pcb_pid q" "par_pcb_ptr (init_fdt q) = par_pcb_ptr q" "par_esp (init_fdt q) = par_esp q"
  "par_ebp (init_fdt q) = par_ebp q" "par_pid (init_fdt q) = par_pid q" "prog_freq (init_fdt q) = prog_freq q"
  "arg_len (init_fdt q) = arg_len q" "pcb_args (init_fdt q) = pcb_args q"
  "fot_ptr (fdt (init_fdt q) 0) = stdin_fot" "fot_ptr (fdt (init_fdt q) 1) = stdout_fot"
  "0 \<le> i \<Longrightarrow> i < 8 \<Longrightarrow> enabled (fdt (init_fdt q) i) \<longleftrightarrow> i < 2"
proof -
  show "0 \<le> i \<Longrightarrow> i < 8 \<Longrightarrow> enabled (fdt (init_fdt q) i) \<longleftrightarrow> i < 2"
    by (cases "i = 0 \<or> i = 1") (auto simp: init_fdt_def std_entry_def zero_fdt_entry_def)
qed (simp_all add: init_fdt_def std_entry_def)

lemma new_block_sel [simp]:
  "pcb_pid (new_block n k) = n" "par_pcb_ptr (new_block n k) = get_curr_pcb k" "prog_freq (new_block n k) = 0"
  by (simp_all add: new_block_def Let_def)

lemma create_pcb_eq:
  assumes "has \<Longrightarrow> is_cstr as m" and "m < 128"
  shows "\<exists>q. create_pcb n has as k = Some (k\<lparr>pcbs := (pcbs k)(get_pcb_by_pid n := q)\<rparr>) \<and>
    pcb_pid q = n \<and> par_pcb_ptr q = get_curr_pcb k \<and> par_esp q = esp k \<and> par_ebp q = ebp k \<and>
    par_pid q = par_pid (new_block n k) \<and>
    prog_freq q = 0 \<and> fot_ptr (fdt q 0) = stdin_fot \<and> fot_ptr (fdt q 1) = stdout_fot \<and>
    (\<forall>i. 0 \<le> i \<and> i < 8 \<longrightarrow> (enabled (fdt q i) \<longleftrightarrow> i < 2)) \<and>
    arg_len q = (if has then int m else -1) \<and> (has \<longrightarrow> bytes (pcb_args q) m = bytes as m)"
proof (cases has)
  case False
  let ?q = "init_fdt ((new_block n k)\<lparr>arg_len := -1, pcb_args := (pcb_args (new_block n k))(0 := 0),
    par_esp := esp k, par_ebp := ebp k\<rparr>)"
  show ?thesis using False by (intro exI [of _ ?q]) (simp add: create_pcb_block set_args_def)
next
  case True
  have s: "strlen as = Some (of_nat m)" "sint (of_nat m :: u32) = int m"
    using assms(1) [OF True] assms(2) by (simp_all add: strlen_cstr sint_small wsimps)
  have b: "bytes (strncpy v as (of_nat m)) m = bytes as m" for v
    using cprefix_cstr [OF assms(1) [OF True], of m] assms(2) by (simp add: strncpy_eq bytes_eq_iff wsimps)
  let ?q = "init_fdt ((new_block n k)\<lparr>arg_len := int m, pcb_args := strncpy (pcb_args (new_block n k)) as (of_nat m),
    par_esp := esp k, par_ebp := ebp k\<rparr>)"
  show ?thesis using True assms(2) by (intro exI [of _ ?q]) (simp add: create_pcb_block set_args_def s b)
qed

lemma set_tss_sel [simp]:
  "phys (set_tss n k) = phys k" "active (set_tss n k) = active k" "addr_of (set_tss n k) = addr_of k"
  "tabs (set_tss n k) = tabs k" "pcbs (set_tss n k) = pcbs k" "terminals (set_tss n k) = terminals k"
  "curr_process (set_tss n k) = curr_process k" "used_pids (set_tss n k) = used_pids k"
  "cursor_ok (set_tss n k) = cursor_ok k" "maps_page (set_tss n k) = maps_page k" "esp (set_tss n k) = esp k"
  "esp0 (tss (set_tss n k)) = 0x800000 - 4 - word_of_int n * 0x2000" "fs (set_tss n k) = fs k"
  "fresh (set_tss n k) = fresh k" "ebp (set_tss n k) = ebp k" "curr_ter (set_tss n k) = curr_ter k"
  "master_mask (set_tss n k) = master_mask k" "slave_mask (set_tss n k) = slave_mask k"
proof -
  show "maps_page (set_tss n k) = maps_page k" by (intro maps_page_cong) (simp_all add: set_tss_def)
qed (simp_all add: set_tss_def cursor_ok_def)

text \<open>A message changes the screen only.\<close>

lemma msg_frame:
  assumes "maps_page k VIDEO F" and "cursor_ok k"
  shows "con_frame F k (fold putc t k)"
  using fold_putc_refine [OF assms, of t] by blast

text \<open>The cursor that a terminal keeps is on the screen.\<close>

definition saved_in :: "terminal_state \<Rightarrow> bool" where
  "saved_in t \<longleftrightarrow> 0 \<le> screen_x_save t \<and> screen_x_save t \<le> 80 \<and> 0 \<le> screen_y_save t \<and> screen_y_save t < 25"

lemma prog_update [simp]:
  "saved_in (t\<lparr>prog_curr_pid := a, prog_par_pid := b\<rparr>) = saved_in t"
  "term_ok (t\<lparr>prog_curr_pid := a, prog_par_pid := b\<rparr>) = term_ok t"
  by (simp_all add: saved_in_def term_ok_def)

lemma putc_saved:
  assumes "maps_page k VIDEO F" and "cursor_ok k" and "\<forall>t. saved_in (terminals k t)"
  shows "\<forall>t. saved_in (terminals (putc c k) t)"
proof
  fix t
  note r = putc_refine [OF assms(1,2), of c]
  show "saved_in (terminals (putc c k) t)"
  proof (cases "t = curr_process k")
    case True
    then show ?thesis using r(2,4,5) by (simp add: saved_in_def cursor_ok_def)
  next
    case False
    then show ?thesis using con_frame_terminal(1) [OF r(3), of t] assms(3) by simp
  qed
qed

lemma putcs_saved:
  assumes "maps_page k VIDEO F" and "cursor_ok k" and "\<forall>t. saved_in (terminals k t)"
  shows "\<forall>t. saved_in (terminals (fold putc cs k) t)"
  using assms
proof (induction cs arbitrary: k)
  case (Cons c cs)
  note r = putc_refine [OF Cons.prems(1,2), of c]
  have "maps_page (putc c k) VIDEO F" using Cons.prems(1) con_frame_maps [OF r(3)] by simp
  from Cons.IH [OF this r(2) putc_saved [OF Cons.prems]] show ?case by simp
qed simp

lemma start_process_eq:
  fixes n :: int
  assumes "maps_page k VIDEO F" and "cursor_ok k"
  defines "p \<equiv> get_pcb_by_pid n"
  shows "\<exists>k'. start_process n eip k = Some (Enter eip, k') \<and> used_pids k' = (used_pids k)(n := 1) \<and>
    esp0 (tss k') = 0x800000 - 4 - word_of_int n * 0x2000 \<and>
    active k' = active k \<and> addr_of k' = addr_of k \<and> tabs k' = tabs k \<and>
    (\<forall>a. \<not> a - F < 4000 \<longrightarrow> phys k' a = phys k a) \<and>
    prog_curr_pid (terminals k' (curr_process k)) = n \<and>
    prog_par_pid (terminals k' (curr_process k)) = par_pid (pcbs k p) \<and>
    (\<forall>t. t \<noteq> curr_process k \<longrightarrow> terminals k' t = terminals k t) \<and>
    pcbs k' = (pcbs k)(p := (pcbs k p)\<lparr>pcb_esp := 0x83FFFFC, pcb_ebp := 0x83FFFFC\<rparr>) \<and>
    curr_process k' = curr_process k \<and> esp k' = esp k \<and> cursor_ok k' \<and> fs k' = fs k \<and> fresh k' = fresh k \<and>
    curr_ter k' = curr_ter k \<and> master_mask k' = master_mask k \<and> slave_mask k' = slave_mask k \<and>
    (\<forall>t. term_ok (terminals k' t) = term_ok (terminals k t)) \<and>
    ((\<forall>t. saved_in (terminals k t)) \<longrightarrow> (\<forall>t. saved_in (terminals k' t)))"
proof -
  obtain m t where msg: "printf (lit (''-- Executing Process #%d (T%d) --'' @ [CHR 0x0A]))
      (pushed [word_arg n, word_arg (curr_process k)]) (set_tss n k) = Some (m, fold putc t (set_tss n k))"
    using executing_msg by blast
  let ?k1 = "fold putc t (set_tss n k)"
  have f: "con_frame F (set_tss n k) ?k1" and c: "cursor_ok ?k1"
    using fold_putc_refine [of "set_tss n k" F t] assms(1,2) by simp_all
  note sel = con_frameD [OF f]
  have "terminals ?k1 s = terminals k s" if "s \<noteq> curr_process k" for s
    using con_frame_terminal(1) [OF f, of s] that by simp
  moreover have "term_ok (terminals ?k1 s) = term_ok (terminals k s)" for s
    using term_ok_out [OF con_frame_out [OF f], of s] by simp
  moreover have "\<forall>s. saved_in (terminals ?k1 s)" if "\<forall>s. saved_in (terminals k s)"
    using putcs_saved [of "set_tss n k" F t] assms(1,2) that by simp
  moreover have "tss (upd_terminal s g k') = tss k'" "fs (upd_terminal s g k') = fs k'"
    "fresh (upd_terminal s g k') = fresh k'" "master_mask (upd_terminal s g k') = master_mask k'"
    "slave_mask (upd_terminal s g k') = slave_mask k'" "screen_x (upd_terminal s g k') = screen_x k'"
    "screen_y (upd_terminal s g k') = screen_y k'" for s g k'
    by (simp_all add: upd_terminal_def)
  ultimately show ?thesis
    using con_frame_phys [OF f] c unfolding start_process_def msg Let_def p_def [symmetric]
    by (simp add: sel upd_pcb_def cursor_ok_def)
qed

lemma unat_prog_page: "0 \<le> n \<Longrightarrow> n < 6 \<Longrightarrow> unat (prog_page n) = 0x400000 * nat (n + 2)"
  by (elim slot_cases) (simp_all add: prog_page_def)

lemma kernel_not_program:
  assumes "kernel_addr a" and "0 \<le> n" and "n < 6" and "m \<le> 0x3B8000"
  shows "\<not> unat (a - (prog_page n + 0x48000)) < m"
proof -
  have u: "unat (prog_page n + 0x48000) = 0x400000 * nat (n + 2) + 0x48000"
    using unat_prog_page [OF assms(2,3)] assms(2,3) by (simp add: unat_word_ariths)
  have "nat (n + 2) \<le> 7" "2 \<le> nat (n + 2)" using assms(2,3) by simp_all
  moreover have "0x400000 \<le> unat a" "unat a < 0x800000" using assms(1) by (simp_all add: kernel_addr_def)
  ultimately show ?thesis using assms(4) by (simp add: unat_sub_if' u)
qed

lemma not_video:
  assumes "0x400000 \<le> unat a" and "vid_page k < 0x400000"
  shows "\<not> a - vid_page k < 4000"
proof -
  define f where "f = unat (pte_address (page_table (tabs k) 0xB8))"
  have "f < 2 ^ 20" using unsigned_less [of "pte_address (page_table (tabs k) 0xB8)", where 'a = nat] by (simp add: f_def)
  then have v: "unat (vid_page k) = 4096 * f"
    by (simp add: vid_page_def f_def [symmetric] unat_word_ariths unsigned_ucast_eq take_bit_nat_eq_self)
  then have "4096 * f < 0x400000" using assms(2) by (simp add: word_less_nat_alt)
  then have "f \<le> 1023" by simp
  then have "4000 + unat (vid_page k) \<le> unat a" using assms(1) v by linarith
  then show ?thesis by (simp add: word_less_nat_alt unat_sub_if')
qed

lemma kernel_not_video: "kernel_addr a \<Longrightarrow> vid_page k < 0x400000 \<Longrightarrow> \<not> a - vid_page k < 4000"
  using not_video by (simp add: kernel_addr_def)

lemma other_not_video: "other_mem n a \<Longrightarrow> vid_page k < 0x400000 \<Longrightarrow> \<not> a - vid_page k < 4000"
  using not_video by (simp add: other_mem_def)

lemma other_not_program:
  assumes "other_mem n a" and "0 \<le> n" and "n < 6" and "m \<le> 0x3B8000"
  shows "\<not> unat (a - (prog_page n + 0x48000)) < m"
proof
  let ?b = "prog_page n + 0x48000"
  assume l: "unat (a - ?b) < m"
  have u: "unat ?b = 0x400000 * nat (n + 2) + 0x48000"
    using unat_prog_page [OF assms(2,3)] assms(2,3) by (simp add: unat_word_ariths)
  have "nat (n + 2) \<le> 7" using assms(3) by simp
  then have "unat (a - ?b) + unat ?b < 2 ^ 32" using l u assms(4) by simp
  then have "unat ((a - ?b) + ?b) = unat (a - ?b) + unat ?b" unfolding unat_word_ariths(1) by simp
  moreover have "(a - ?b) + ?b = a" by (rule diff_add_cancel)
  ultimately have "unat a = unat (a - ?b) + unat ?b" by (simp only:)
  then have "unat a = 0x400000 * nat (n + 2) + (0x48000 + unat (a - ?b))" using u by simp
  moreover have "0x48000 + unat (a - ?b) < 0x400000" using l assms(4) by simp
  ultimately have "in_slot n a" by (simp add: in_slot_def div_nat_eqI)
  with assms(1) show False by (simp add: other_mem_def)
qed

lemma load_program:
  fixes k :: kernel and n :: int and inode :: u32
  assumes "paging_ok k" and "cursor_ok k" and "0 \<le> n" and "n < 6"
    and "inode < num_inodes (fs k)" and "file_in_kernel (vmem k) (fs k) inode"
  defines "bs \<equiv> file_contents (vmem k) (fs k) inode" and "k1 \<equiv> enable_program_page n k"
  assumes "28 \<le> length bs" and "length bs \<le> 0x3B8000"
  defines "k2 \<equiv> vstore 0x08048000 bs k1"
  shows "read_data (vmem k1) (fs k1) inode 0 0x400000 = (int (length bs), bs)"
    and "\<And>j. j < length bs \<Longrightarrow> vmem k2 (0x08048000 + of_nat j) = bs ! j"
    and "\<And>j. j < length bs \<Longrightarrow> paddr k2 (0x08048000 + of_nat j) = Some (prog_page n + 0x48000 + of_nat j)"
    and "paging_ok k2" and "cursor_ok k2" and "vid_page k2 = vid_page k"
    and "u32_at (vmem k2) (0x08048000 + 24) = le32 (bs ! 24) (bs ! 25) (bs ! 26) (bs ! 27)"
    and "\<And>a. kernel_addr a \<Longrightarrow> phys k2 a = phys k a" and "\<And>a. other_mem n a \<Longrightarrow> phys k2 a = phys k a"
proof -
  have ok: "paging_ok k1" unfolding k1_def by (rule enable_program_page_ok [OF assms(1)])
  have "vmem k1 a = vmem k a" if "kernel_addr a" for a
    using vmem_kernel [OF ok that] vmem_kernel [OF assms(1) that] by (simp add: k1_def)
  then have bs: "file_contents (vmem k1) (fs k) inode = bs"
    unfolding bs_def by (intro file_contents_agree assms(6)) simp
  have "sint (of_nat (length bs) :: u32) = int (length bs)"
    using assms(10) by (simp add: sint_small wsimps)
  moreover have "take 0x400000 bs = bs" using assms(10) by simp
  ultimately show "read_data (vmem k1) (fs k1) inode 0 0x400000 = (int (length bs), bs)"
    using read_data_eq [OF assms(5), of "vmem k1" 0 "0x400000"] by (simp add: k1_def bs [unfolded k1_def] Let_def)
  have m: "maps_range k1 0x08048000 (prog_page n + 0x48000) (length bs)"
    unfolding k1_def by (rule maps_program [OF assms(1,3,4,10)])
  show v: "vmem k2 (0x08048000 + of_nat j) = bs ! j" if "j < length bs" for j
    unfolding k2_def using m assms(10) that by (intro vmem_vstore [where pa = "prog_page n + 0x48000"]) simp_all
  show "paddr k2 (0x08048000 + of_nat j) = Some (prog_page n + 0x48000 + of_nat j)" if "j < length bs" for j
    using m that by (simp add: k2_def maps_range_def)
  have k2: "k2 = k1\<lparr>phys := phys k2\<rparr>"
    using vstore_eq [OF m] assms(10) by (simp add: k2_def)
  show "paging_ok k2" by (subst k2) (use ok in \<open>simp add: paging_ok_cong [of "k1\<lparr>phys := phys k2\<rparr>" k1]\<close>)
  show "cursor_ok k2" by (subst k2) (use assms(2) in \<open>simp add: cursor_ok_def k1_def\<close>)
  show "vid_page k2 = vid_page k" by (subst k2) (simp add: vid_page_def k1_def)
  show "u32_at (vmem k2) (0x08048000 + 24) = le32 (bs ! 24) (bs ! 25) (bs ! 26) (bs ! 27)"
    using v [of 24] v [of 25] v [of 26] v [of 27] assms(9) by (simp add: u32_at_def)
  show "phys k2 a = phys k a" if "kernel_addr a" for a
    using vstore_eq [OF m] assms(10) kernel_not_program [OF that assms(3,4), of "length bs"]
    by (simp add: k2_def k1_def)
  show "phys k2 a = phys k a" if "other_mem n a" for a
    using vstore_eq [OF m] assms(10) other_not_program [OF that assms(3,4), of "length bs"]
    by (simp add: k2_def k1_def)
qed

lemma program_not_video:
  assumes "0 \<le> n" and "n < 6" and "j < 0x3B8000" and "F < 0x400000"
  shows "\<not> prog_page n + 0x48000 + of_nat j - F < 4000"
proof -
  have "unat (prog_page n) = 0x400000 * nat (n + 2)" by (rule unat_prog_page [OF assms(1,2)])
  then have "unat (prog_page n + 0x48000 + of_nat j) = 0x400000 * nat (n + 2) + 0x48000 + j"
    using assms(1-3) by (simp add: unat_word_ariths wsimps)
  moreover have "8388608 \<le> 0x400000 * nat (n + 2)" using assms(1) by simp
  moreover have "unat F < 0x400000" using assms(4) by (simp add: word_less_nat_alt)
  ultimately show ?thesis by (simp add: word_less_nat_alt unat_sub_if')
qed

lemma length_command_name: "length (command_name c) \<le> 32"
  using length_cprefix_le name_end_le le_trans unfolding command_name_cprefix by blast

text \<open>The first half of \<open>sys_execute\<close>: the command is parsed and the program loaded.\<close>

lemma sys_execute_eq:
  fixes k :: kernel and c :: view and n :: int and i :: nat
  defines "bs \<equiv> file_contents (vmem k) (fs k) (exe_inode k i)"
  defines "k2 \<equiv> vstore 0x08048000 bs (enable_program_page n k)"
  assumes "paging_ok k" and "cursor_ok k" and n: "get_new_pid k = n" "n \<noteq> ERROR"
    and "command_name c \<noteq> []" and "0 \<le> sint (num_dir_entries (fs k))"
    and "lookup (vmem k) (fs k) (command_name c) = Some i"
    and "exe_inode k i < num_inodes (fs k)" and "file_in_kernel (vmem k) (fs k) (exe_inode k i)"
    and "take 4 bs = ELF_MAGIC" and "28 \<le> length bs" and "length bs \<le> 0x3B8000"
  shows "\<exists>as. (has_args c \<longrightarrow> is_cstr as (length (command_args c)) \<and> bytes as (length (command_args c)) = command_args c) \<and>
    sys_execute c k = Option.bind (create_pcb n (has_args c) as k2)
      (start_process n (le32 (bs ! 24) (bs ! 25) (bs ! 26) (bs ! 27)))"
proof -
  obtain name where g: "get_program c 0 (fresh k) = (name, int (name_end c), has_args c)"
    using get_program_name(3,4) [OF assms(7), of "fresh k"] by (cases "get_program c 0 (fresh k)") auto
  note gp = get_program_name(1,2) [OF assms(7), of "fresh k", unfolded g fst_conv]
  let ?as = "if has_args c then get_arguments c (int (name_end c) + 1) (int (name_end c) + 1) ((fresh k)(0 := 0))
    else (fresh k)(0 := 0)"
  have sz: "file_size (vmem k) (fs k) (exe_inode k i) = length bs" by (simp add: bs_def file_contents_def)
  have c: "check_executable name k = Some (Some (exe_inode k i))"
    using check_executable_cases(2) [OF gp(1) length_command_name assms(8)] assms(9,10,12,13) gp(2) sz
    by (simp add: bs_def)
  have r: "0 \<le> n" "n < 6" using get_new_pid_range [of k] n by auto
  note l = load_program [OF assms(3,4) r assms(10,11), folded bs_def, OF assms(13,14), folded k2_def]
  have l1: "read_data (vmem (enable_program_page n k)) (fs k) (exe_inode k i) 0 0x400000 = (int (length bs), bs)"
    using l(1) by simp
  have "sys_execute c k = Option.bind (create_pcb n (has_args c) ?as k2)
      (start_process n (le32 (bs ! 24) (bs ! 25) (bs ! 26) (bs ! 27)))"
    using n(2) l(7) l1 by (simp add: sys_execute_def g c n(1) k2_def [symmetric] Let_def)
  then show ?thesis
    using get_arguments_text [of "(fresh k)(0 := 0)" c] by (intro exI [of _ ?as]) simp
qed

text \<open>
  What starting a program leaves alone: the other terminals, the lines typed on all of them, the
  video mapping, the interrupt masks and the memory of the kernel and of the other slots.
\<close>

definition exec_frame :: "int \<Rightarrow> kernel \<Rightarrow> kernel \<Rightarrow> bool" where
  "exec_frame n k k' \<longleftrightarrow> curr_process k' = curr_process k \<and> curr_ter k' = curr_ter k \<and> fs k' = fs k \<and>
     fresh k' = fresh k \<and> master_mask k' = master_mask k \<and> slave_mask k' = slave_mask k \<and>
     vid_page k' = vid_page k \<and> cursor_ok k' \<and>
     (\<forall>t. t \<noteq> curr_process k \<longrightarrow> terminals k' t = terminals k t) \<and>
     (\<forall>t. term_ok (terminals k' t) = term_ok (terminals k t)) \<and>
     ((\<forall>t. saved_in (terminals k t)) \<longrightarrow> (\<forall>t. saved_in (terminals k' t))) \<and>
     (\<forall>a. kernel_addr a \<longrightarrow> phys k' a = phys k a) \<and> (\<forall>a. other_mem n a \<longrightarrow> phys k' a = phys k a)"

text \<open>The second half: the block is set up and the program entered.\<close>

lemma process_starts:
  fixes n :: int
  assumes "paging_ok k" and "cursor_ok k" and "vid_page k < 0x400000"
    and "has \<longrightarrow> is_cstr as m \<and> bytes as m = args" and "m < 128"
  defines "p \<equiv> get_pcb_by_pid n"
  shows "\<exists>k'. Option.bind (create_pcb n has as k) (start_process n eip) = Some (Enter eip, k') \<and>
    active k' = active k \<and> addr_of k' = addr_of k \<and> tabs k' = tabs k \<and>
    (\<forall>a. \<not> a - vid_page k < 4000 \<longrightarrow> phys k' a = phys k a) \<and>
    used_pids k' = (used_pids k)(n := 1) \<and> esp0 (tss k') = 0x800000 - 4 - word_of_int n * 0x2000 \<and>
    prog_curr_pid (terminals k' (curr_process k)) = n \<and> pcb_pid (pcbs k' p) = n \<and>
    par_pcb_ptr (pcbs k' p) = get_curr_pcb k \<and> par_esp (pcbs k' p) = esp k \<and> par_ebp (pcbs k' p) = ebp k \<and>
    par_pid (pcbs k' p) = par_pid (new_block n k) \<and> fot_ptr (fdt (pcbs k' p) 0) = stdin_fot \<and> fot_ptr (fdt (pcbs k' p) 1) = stdout_fot \<and>
    (\<forall>j. 0 \<le> j \<and> j < 8 \<longrightarrow> (enabled (fdt (pcbs k' p) j) \<longleftrightarrow> j < 2)) \<and>
    arg_len (pcbs k' p) = (if has then int m else -1) \<and> (has \<longrightarrow> bytes (pcb_args (pcbs k' p)) m = args) \<and>
    (\<forall>q. q \<noteq> p \<longrightarrow> pcbs k' q = pcbs k q) \<and> exec_frame n k k'"
proof -
  have "has \<Longrightarrow> is_cstr as m" using assms(4) by blast
  from create_pcb_eq [OF this assms(5), where n = n and k = k]
  obtain q where q: "create_pcb n has as k = Some (k\<lparr>pcbs := (pcbs k)(p := q)\<rparr>)" (is "_ = Some ?k3")
    "pcb_pid q = n" "par_pcb_ptr q = get_curr_pcb k" "par_esp q = esp k" "par_ebp q = ebp k"
    "par_pid q = par_pid (new_block n k)" "fot_ptr (fdt q 0) = stdin_fot" "fot_ptr (fdt q 1) = stdout_fot"
    "\<forall>i. 0 \<le> i \<and> i < 8 \<longrightarrow> (enabled (fdt q i) \<longleftrightarrow> i < 2)" "arg_len q = (if has then int m else -1)"
    "has \<longrightarrow> bytes (pcb_args q) m = bytes as m"
    unfolding p_def by blast
  have "maps_page ?k3 VIDEO (vid_page k)"
    using maps_video [OF assms(1)] maps_page_cong [of ?k3 k] by simp
  moreover have "cursor_ok ?k3" using assms(2) by (simp add: cursor_ok_def)
  ultimately obtain k' where k': "start_process n eip ?k3 = Some (Enter eip, k')"
    "used_pids k' = (used_pids ?k3)(n := 1)" "esp0 (tss k') = 0x800000 - 4 - word_of_int n * 0x2000"
    "active k' = active ?k3" "addr_of k' = addr_of ?k3" "tabs k' = tabs ?k3"
    "\<forall>a. \<not> a - vid_page k < 4000 \<longrightarrow> phys k' a = phys ?k3 a" "prog_curr_pid (terminals k' (curr_process ?k3)) = n"
    "pcbs k' = (pcbs ?k3)(p := (pcbs ?k3 p)\<lparr>pcb_esp := 0x83FFFFC, pcb_ebp := 0x83FFFFC\<rparr>)"
    "curr_process k' = curr_process ?k3" "cursor_ok k'" "fs k' = fs ?k3" "fresh k' = fresh ?k3"
    "curr_ter k' = curr_ter ?k3" "master_mask k' = master_mask ?k3" "slave_mask k' = slave_mask ?k3"
    "\<forall>t. t \<noteq> curr_process ?k3 \<longrightarrow> terminals k' t = terminals ?k3 t"
    "\<forall>t. term_ok (terminals k' t) = term_ok (terminals ?k3 t)"
    "(\<forall>t. saved_in (terminals ?k3 t)) \<longrightarrow> (\<forall>t. saved_in (terminals k' t))"
    using start_process_eq [of ?k3 "vid_page k" n eip] unfolding p_def by blast
  have "exec_frame n k k'"
    using k'(7,10-19) kernel_not_video [OF _ assms(3)] other_not_video [OF _ assms(3)] vid_page_cong [of k' k] k'(6) by (simp add: exec_frame_def)
  then show ?thesis
    using k'(1-9) q assms(4) by (intro exI [of _ k']) simp
qed

text \<open>Both halves: what the machine is like when the program starts.\<close>

lemma sys_execute_runs:
  fixes k :: kernel and c :: view and i :: nat
  defines "n \<equiv> get_new_pid k" and "inode \<equiv> exe_inode k i"
  defines "bs \<equiv> file_contents (vmem k) (fs k) inode" and "p \<equiv> get_pcb_by_pid n"
  assumes "paging_ok k" and "cursor_ok k" and "vid_page k < 0x400000"
    and "command_name c \<noteq> []" and "0 \<le> sint (num_dir_entries (fs k))"
    and "lookup (vmem k) (fs k) (command_name c) = Some i"
    and "inode < num_inodes (fs k)" and "file_in_kernel (vmem k) (fs k) inode"
    and "take 4 bs = ELF_MAGIC" and "28 \<le> length bs" and "length bs \<le> 0x3B8000"
    and "n \<noteq> ERROR"
  shows "\<exists>k'. sys_execute c k = Some (Enter (le32 (bs ! 24) (bs ! 25) (bs ! 26) (bs ! 27)), k') \<and>
    (\<forall>j < length bs. vmem k' (0x08048000 + of_nat j) = bs ! j \<and>
       paddr k' (0x08048000 + of_nat j) = Some (prog_page n + 0x48000 + of_nat j)) \<and>
    used_pids k n = 0 \<and> (\<forall>j. 0 \<le> j \<and> j < n \<longrightarrow> used_pids k j \<noteq> 0) \<and> used_pids k' = (used_pids k)(n := 1) \<and>
    esp0 (tss k') = 0x800000 - 4 - word_of_int n * 0x2000 \<and> prog_curr_pid (terminals k' (curr_process k)) = n \<and>
    pcb_pid (pcbs k' p) = n \<and> par_pcb_ptr (pcbs k' p) = get_curr_pcb k \<and>
    par_esp (pcbs k' p) = esp k \<and> par_ebp (pcbs k' p) = ebp k \<and> par_pid (pcbs k' p) = par_pid (new_block n k) \<and>
    fot_ptr (fdt (pcbs k' p) 0) = stdin_fot \<and> fot_ptr (fdt (pcbs k' p) 1) = stdout_fot \<and>
    (\<forall>j. 0 \<le> j \<and> j < 8 \<longrightarrow> (enabled (fdt (pcbs k' p) j) \<longleftrightarrow> j < 2)) \<and>
    (\<forall>q. q \<noteq> p \<longrightarrow> pcbs k' q = pcbs k q) \<and> paging_ok k' \<and>
    maps_range k' 0x08048000 (prog_page n + 0x48000) 0x3B8000 \<and>
    arg_len (pcbs k' p) = (if has_args c then int (length (command_args c)) else -1) \<and>
    (has_args c \<longrightarrow> bytes (pcb_args (pcbs k' p)) (length (command_args c)) = command_args c) \<and> exec_frame n k k'"
proof -
  define k2 where "k2 = vstore 0x08048000 bs (enable_program_page n k)"
  have n: "0 \<le> n" "n < 6" "used_pids k n = 0" using get_new_pid_range assms(16) by (auto simp: n_def)
  have low: "used_pids k j \<noteq> 0" if "0 \<le> j" "j < n" for j
    using pids.search_lowest [of k j] that n assms(16) unfolding slot_list n_def by simp
  note l = load_program [OF assms(5,6) n(1,2) assms(11,12), folded bs_def, OF assms(14,15), folded k2_def]
  obtain as where as: "has_args c \<longrightarrow> is_cstr as (length (command_args c)) \<and> bytes as (length (command_args c)) = command_args c"
    and ex: "sys_execute c k = Option.bind (create_pcb n (has_args c) as k2)
      (start_process n (le32 (bs ! 24) (bs ! 25) (bs ! 26) (bs ! 27)))"
    using sys_execute_eq [OF assms(5,6) meta_eq_to_obj_eq [OF n_def [symmetric]] assms(16,8-10)] assms(11-15)
    unfolding inode_def bs_def k2_def by blast
  have m: "length (command_args c) < 128" using get_arguments_text(3) [of "\<lambda>_. 0" c] by simp
  have vp: "vid_page k2 < 0x400000" using assms(7) l(6) by simp
  obtain k' where k': "sys_execute c k = Some (Enter (le32 (bs ! 24) (bs ! 25) (bs ! 26) (bs ! 27)), k')"
    "active k' = active k2" "addr_of k' = addr_of k2" "tabs k' = tabs k2"
    "\<forall>a. \<not> a - vid_page k < 4000 \<longrightarrow> phys k' a = phys k2 a"
    "used_pids k' = (used_pids k2)(n := 1)" "esp0 (tss k') = 0x800000 - 4 - word_of_int n * 0x2000"
    "prog_curr_pid (terminals k' (curr_process k2)) = n" "pcb_pid (pcbs k' p) = n"
    "par_pcb_ptr (pcbs k' p) = get_curr_pcb k2" "par_esp (pcbs k' p) = esp k2" "par_ebp (pcbs k' p) = ebp k2"
    "par_pid (pcbs k' p) = par_pid (new_block n k2)"
    "fot_ptr (fdt (pcbs k' p) 0) = stdin_fot" "fot_ptr (fdt (pcbs k' p) 1) = stdout_fot"
    "\<forall>j. 0 \<le> j \<and> j < 8 \<longrightarrow> (enabled (fdt (pcbs k' p) j) \<longleftrightarrow> j < 2)" "\<forall>q. q \<noteq> p \<longrightarrow> pcbs k' q = pcbs k2 q"
    "arg_len (pcbs k' p) = (if has_args c then int (length (command_args c)) else -1)"
    "has_args c \<longrightarrow> bytes (pcb_args (pcbs k' p)) (length (command_args c)) = command_args c" "exec_frame n k2 k'"
    using process_starts [OF l(4,5) vp as m, where n = n, unfolded l(6)] unfolding ex p_def by blast
  have k2: "used_pids k2 = used_pids k" "curr_process k2 = curr_process k" "get_curr_pcb k2 = get_curr_pcb k"
    "esp k2 = esp k" "ebp k2 = ebp k" "pcbs k2 = pcbs k" "new_block n k2 = new_block n k"
    by (simp_all add: k2_def vstore_frame new_block_def Let_def cong: if_cong)
  have "paging_ok k'" using l(4) paging_ok_cong [of k' k2] k'(2-4) by simp
  moreover have "vmem k' (0x08048000 + of_nat j) = bs ! j \<and>
      paddr k' (0x08048000 + of_nat j) = Some (prog_page n + 0x48000 + of_nat j)" if "j < length bs" for j
    using that assms(15) l(2,3) [OF that] k'(5) program_not_video [OF n(1,2) _ assms(7), of j]
      paddr_cong [of k' k2] k'(2,3) by (simp add: vmem_def)
  moreover have "maps_range k' 0x08048000 (prog_page n + 0x48000) 0x3B8000"
    using maps_program [OF assms(5) n(1,2) order_refl] k'(2,3) paddr_cong [of k' k2]
    by (simp add: maps_range_def k2_def)
  moreover have "exec_frame n k k'"
    using k'(20) l(6,8,9) k2 by (simp add: exec_frame_def k2_def vstore_frame)
  ultimately show ?thesis using k' n low unfolding k2 by blast
qed

text \<open>A block that the calls can work with: every open descriptor has its operations, and the arguments have a length.\<close>

definition block_ok :: "pcb \<Rightarrow> bool" where
  "block_ok q \<longleftrightarrow> (\<forall>i. 0 \<le> i \<and> i < 8 \<and> enabled (fdt q i) \<longrightarrow> fot_ptr (fdt q i) \<noteq> NULL_fot) \<and> -1 \<le> arg_len q"

lemma new_process_ok:
  assumes "fot_ptr (fdt q 0) = stdin_fot" and "fot_ptr (fdt q 1) = stdout_fot"
    and "\<forall>i. 0 \<le> i \<and> i < 8 \<longrightarrow> (enabled (fdt q i) \<longleftrightarrow> i < 2)" and "arg_len q = (if b then int m else -1)"
  shows "block_ok q"
  unfolding block_ok_def
proof (intro conjI allI impI)
  fix i :: int
  assume "0 \<le> i \<and> i < 8 \<and> enabled (fdt q i)"
  then have "i = 0 \<or> i = 1" using assms(3) by force
  then show "fot_ptr (fdt q i) \<noteq> NULL_fot" using assms(1,2) by auto
qed (simp add: assms(4))

subsection \<open>Properties\<close>

text \<open>
  C6. \<open>sys_execute\<close> runs the program its command names: for an ELF file of the image that fits
  the program page and a free slot, the call enters the program at the address the file has at
  offset 24, with the whole file loaded at 0x08048000 in the memory of the lowest free slot; the
  new process has its own kernel stack, standard input and output and nothing else open, and
  remembers the stack of its parent; the blocks, the slots and the memory of all other processes and the
  other terminals are what they were.
\<close>

theorem sys_execute_loads:
  fixes k :: kernel and c :: view and i :: nat
  defines "n \<equiv> get_new_pid k" and "inode \<equiv> exe_inode k i"
  defines "bs \<equiv> file_contents (vmem k) (fs k) inode" and "p \<equiv> get_pcb_by_pid n"
  assumes "paging_ok k" and "cursor_ok k" and "vid_page k < 0x400000"
    and "command_name c \<noteq> []" and "0 \<le> sint (num_dir_entries (fs k))"
    and "lookup (vmem k) (fs k) (command_name c) = Some i"
    and "inode < num_inodes (fs k)" and "file_in_kernel (vmem k) (fs k) inode"
    and "take 4 bs = ELF_MAGIC" and "28 \<le> length bs" and "length bs \<le> 0x3B8000"
    and "n \<noteq> ERROR"
  shows "\<exists>k'. sys_execute c k = Some (Enter (le32 (bs ! 24) (bs ! 25) (bs ! 26) (bs ! 27)), k') \<and>
    (\<forall>j < length bs. vmem k' (0x08048000 + of_nat j) = bs ! j \<and>
       paddr k' (0x08048000 + of_nat j) = Some (prog_page n + 0x48000 + of_nat j)) \<and>
    used_pids k n = 0 \<and> (\<forall>j. 0 \<le> j \<and> j < n \<longrightarrow> used_pids k j \<noteq> 0) \<and> used_pids k' = (used_pids k)(n := 1) \<and>
    esp0 (tss k') = 0x800000 - 4 - word_of_int n * 0x2000 \<and> prog_curr_pid (terminals k' (curr_process k)) = n \<and>
    pcb_pid (pcbs k' p) = n \<and> par_pcb_ptr (pcbs k' p) = get_curr_pcb k \<and>
    par_esp (pcbs k' p) = esp k \<and> par_ebp (pcbs k' p) = ebp k \<and>
    fot_ptr (fdt (pcbs k' p) 0) = stdin_fot \<and> fot_ptr (fdt (pcbs k' p) 1) = stdout_fot \<and>
    (\<forall>j. 0 \<le> j \<and> j < 8 \<longrightarrow> (enabled (fdt (pcbs k' p) j) \<longleftrightarrow> j < 2)) \<and>
    (\<forall>q. q \<noteq> p \<longrightarrow> pcbs k' q = pcbs k q) \<and> paging_ok k' \<and>
    (\<forall>t. t \<noteq> curr_process k \<longrightarrow> terminals k' t = terminals k t) \<and>
    (\<forall>m a. 0 \<le> m \<and> m \<noteq> n \<and> in_slot m a \<longrightarrow> phys k' a = phys k a)"
proof -
  have "0 \<le> n" using get_new_pid_range [of k] assms(16) by (auto simp: n_def)
  then have f: "exec_frame n k k' \<Longrightarrow> (\<forall>t. t \<noteq> curr_process k \<longrightarrow> terminals k' t = terminals k t) \<and>
      (\<forall>m a. 0 \<le> m \<and> m \<noteq> n \<and> in_slot m a \<longrightarrow> phys k' a = phys k a)" for k'
    using in_slot_other unfolding exec_frame_def by blast
  show ?thesis
    using sys_execute_runs [OF assms(5-10)] assms(11-16) f unfolding n_def inode_def bs_def p_def by blast
qed

text \<open>A machine with paging on and an image at 6 MB that holds a small executable called shell.\<close>

definition elf_mem :: mem where
  "elf_mem a =
     (if a < 64 then lit [CHR 0x01, CHR 0x00, CHR 0x00, CHR 0x00, CHR 0x01] (uint a)
      else if a < 4096 then lit ''shell'' (uint (a - 64))
      else if a = 4096 then 32
      else if a = 4100 then 1
      else if a < 12288 then 0
      else if a < 12292 then ELF_MAGIC ! unat (a - 12288)
      else if a = 12312 then 0xE8 else if a = 12313 then 0x82
      else if a = 12314 then 0x04 else if a = 12315 then 0x08 else 0)"

definition image_mem :: mem where
  "image_mem a = elf_mem (a - 0x600000)"

definition demo_machine :: kernel where
  "demo_machine = (init_paging boot_kernel)\<lparr>phys := image_mem, fs := file_system_init image_mem 0x600000\<rparr>"

lemma demo_machine_sel:
  "phys demo_machine = image_mem" "fs demo_machine = file_system_init image_mem 0x600000"
  "fresh demo_machine = (\<lambda>_. 0)" "used_pids demo_machine = (\<lambda>_. 0)" "esp demo_machine = 0x7FFF00"
  "ebp demo_machine = 0x7FFF00"
  "curr_process demo_machine = 0" "terminals demo_machine = (\<lambda>_. zero_terminal)" "cursor_ok demo_machine"
  by (simp_all add: demo_machine_def init_paging_def enable_paging_def boot_kernel_def cursor_ok_def Let_def)

lemma demo_machine_paging: "paging_ok demo_machine" "vid_page demo_machine = VIDEO"
proof -
  have "tabs demo_machine = tabs (init_paging boot_kernel)" "active demo_machine = active (init_paging boot_kernel)"
    "addr_of demo_machine = addr_of (init_paging boot_kernel)" by (simp_all add: demo_machine_def)
  then show "paging_ok demo_machine" "vid_page demo_machine = VIDEO"
    using boot_paging_ok boot_vid_page paging_ok_cong [of demo_machine "init_paging boot_kernel"]
      vid_page_cong [of demo_machine "init_paging boot_kernel"] by simp_all
qed

lemma demo_machine_mem: "kernel_addr a \<Longrightarrow> vmem demo_machine a = image_mem a"
  using vmem_kernel [OF demo_machine_paging(1)] by (simp add: demo_machine_sel)

lemma demo_machine_fs:
  "fs demo_machine = \<lparr>file_system_addr = 0x600000, boot_block = 0x600000, dir_entries = 0x600040,
     num_dir_entries = 1, inodes = 0x601000, num_inodes = 1, data_blocks = 0x602000, num_data_blocks = 0\<rparr>"
  unfolding demo_machine_sel by code_simp

lemma demo_machine_name: "dentry_name (vmem demo_machine) (fs demo_machine) 0 = map of_char ''shell''"
proof -
  have "kernel_addr (0x600040 + of_nat i)" if "i < 32" for i
    using that by (simp add: kernel_addr_def unat_word_ariths wsimps)
  then have "bytes (view_of (vmem demo_machine) 0x600040) 32 = bytes (view_of image_mem 0x600040) 32"
    by (simp add: bytes_eq_iff view_of_def demo_machine_mem)
  moreover have "cprefix 32 (view_of image_mem 0x600040) = map of_char ''shell''" by code_simp
  ultimately show ?thesis by (simp add: dentry_name_def dentry_addr_def demo_machine_fs cprefix_def)
qed

lemma demo_machine_inode: "exe_inode demo_machine 0 = 0"
proof -
  have "kernel_addr 0x600064" "kernel_addr 0x600065" "kernel_addr 0x600066" "kernel_addr 0x600067"
    by (simp_all add: kernel_addr_def)
  moreover have "image_mem 0x600064 = 0" "image_mem 0x600065 = 0" "image_mem 0x600066 = 0" "image_mem 0x600067 = 0"
    by code_simp+
  ultimately show ?thesis
    by (simp add: exe_inode_def de_inode_num_def view_u32_def load_struct_def view_of_def dentry_addr_def
        demo_machine_fs demo_machine_mem le32_def)
qed

definition demo_program :: "u8 list" where
  "demo_program = ELF_MAGIC @ replicate 20 0 @ [0xE8, 0x82, 0x04, 0x08] @ replicate 4 0"

lemma demo_machine_fs_sel:
  "num_dir_entries (fs demo_machine) = 1" "inodes (fs demo_machine) = 0x601000" "num_inodes (fs demo_machine) = 1"
  "data_blocks (fs demo_machine) = 0x602000"
  by (simp_all add: demo_machine_fs)

lemma demo_machine_size: "file_size (vmem demo_machine) (fs demo_machine) 0 = 32"
  by (simp add: file_size_def length_in_bytes_def inode_addr_def demo_machine_fs u32_at_def le32_def demo_machine_mem
      kernel_addr_def image_mem_def elf_mem_def)

lemma demo_machine_block:
  "data_block_addr (vmem demo_machine) (fs demo_machine) (inode_addr (fs demo_machine) 0) 0 = 0x603000"
  by (simp add: data_block_addr_def data_block_indices_def inode_addr_def demo_machine_fs u32_at_def le32_def
      demo_machine_mem kernel_addr_def image_mem_def elf_mem_def)

lemma demo_machine_file: "file_in_kernel (vmem demo_machine) (fs demo_machine) 0"
proof -
  have "kernel_addr (0x603000 + of_nat b)" if "b < 32" for b
    using that by (simp add: kernel_addr_def unat_word_ariths wsimps)
  moreover have "kernel_addr (0x601000 + of_nat j)" "kernel_addr (0x601004 + of_nat j)" if "j < 4" for j
    using that by (simp_all add: kernel_addr_def unat_word_ariths wsimps)
  ultimately show ?thesis
    using demo_machine_block by (simp add: file_in_kernel_def demo_machine_size demo_machine_fs_sel inode_addr_def Let_def)
qed

lemma demo_machine_contents: "file_contents (vmem demo_machine) (fs demo_machine) 0 = demo_program"
proof (rule nth_equalityI)
  show "length (file_contents (vmem demo_machine) (fs demo_machine) 0) = length demo_program"
    by (simp add: file_contents_def demo_machine_size demo_program_def ELF_MAGIC_def)
next
  fix b assume "b < length (file_contents (vmem demo_machine) (fs demo_machine) 0)"
  then have b: "b < 32" by (simp add: file_contents_def demo_machine_size)
  then have "file_contents (vmem demo_machine) (fs demo_machine) 0 ! b = image_mem (0x603000 + of_nat b)"
    by (simp add: file_contents_def demo_machine_size file_byte_def demo_machine_block demo_machine_mem kernel_addr_def
        unat_word_ariths wsimps)
  moreover have "\<forall>b \<in> set [0..<32]. image_mem (0x603000 + of_nat b) = demo_program ! b" by code_simp
  ultimately show "file_contents (vmem demo_machine) (fs demo_machine) 0 ! b = demo_program ! b" using b by simp
qed

theorem sys_execute_loads_witness:
  "\<exists>k'. sys_execute (lit ''shell'') demo_machine = Some (Enter 0x080482E8, k') \<and> used_pids k' 0 = 1 \<and>
     vmem k' 0x08048001 = 0x45"
proof -
  have c: "command_name (lit ''shell'') = map of_char ''shell''" by code_simp
  have n: "get_new_pid demo_machine = 0" by (simp add: get_new_pid_def demo_machine_sel)
  have l: "lookup (vmem demo_machine) (fs demo_machine) (map of_char ''shell'') = Some 0"
    using demo_machine_name by (simp add: lookup_def demo_machine_fs_sel)
  have le: "le32 (demo_program ! 24) (demo_program ! 25) (demo_program ! 26) (demo_program ! 27) = 0x080482E8"
    "take 4 demo_program = ELF_MAGIC" "length demo_program = 32" "demo_program ! 1 = 0x45"
    by code_simp+
  note le4 = le(4) [simplified]
  show ?thesis
    using sys_execute_loads [of demo_machine "lit ''shell''" 0, unfolded n demo_machine_inode demo_machine_contents c l le]
      demo_machine_paging demo_machine_sel(9) demo_machine_file
    by (auto simp: demo_machine_fs_sel le4 dest: spec [of _ "1::nat"])
qed

text \<open>
  C23. The command parser of \<open>sys_execute\<close> computes what the command means: whatever is in the
  arrays before, for a command with a name the program array holds that name as a terminated
  string, the flag says whether a space follows, and the argument array holds the text behind the
  space as a terminated string of less than 128 bytes.
\<close>

theorem command_parsed:
  fixes c nm as :: view
  assumes "command_name c \<noteq> []" and "as 0 = 0"
  shows "case get_program c 0 nm of (name, i, have_args) \<Rightarrow>
    is_cstr name (length (command_name c)) \<and> bytes name (length (command_name c)) = command_name c \<and>
    (have_args \<longleftrightarrow> has_args c) \<and>
    (let r = get_arguments c (i + 1) (i + 1) as
     in is_cstr r (length (command_args c)) \<and> bytes r (length (command_args c)) = command_args c \<and>
        length (command_args c) < 128)"
proof -
  have g: "get_program c 0 nm = (fst (get_program c 0 nm), int (name_end c), has_args c)"
    using get_program_name(3,4) [OF assms(1), of nm] by (simp add: prod_eq_iff)
  show ?thesis
    using get_program_name(1,2) [OF assms(1), of nm] get_arguments_text [of as c, OF assms(2)]
    by (subst g) (simp add: Let_def)
qed

theorem command_parsed_witness:
  "case get_program (lit ''cat frame0.txt'') 0 (\<lambda>_. 7) of (name, i, have_args) \<Rightarrow>
     bytes name 4 = map of_char ''cat'' @ [0] \<and> have_args \<and>
     bytes (get_arguments (lit ''cat frame0.txt'') (i + 1) (i + 1) (\<lambda>_. 0)) 10 = map of_char ''frame0.txt''"
proof -
  have c: "command_name (lit ''cat frame0.txt'') = map of_char ''cat''" "has_args (lit ''cat frame0.txt'')"
    by code_simp+
  have a: "command_args (lit ''cat frame0.txt'') = map of_char ''frame0.txt''" by code_simp
  obtain name i f where g: "get_program (lit ''cat frame0.txt'') 0 (\<lambda>_. 7) = (name, i, f)"
    by (metis surj_pair)
  note p = command_parsed [of "lit ''cat frame0.txt''" "\<lambda>_. 0" "\<lambda>_. 7", unfolded g c(1) a Let_def prod.case, simplified]
  have "bytes name 4 = bytes name 3 @ [name 3]" by (simp add: bytes_def upt_rec)
  moreover have "name 3 = 0" using p by (auto simp: is_cstr_def)
  ultimately show ?thesis using p c(2) by (simp add: g eval_nat_numeral)
qed

text \<open>What the call prints when there is no free slot.\<close>

definition limit_text :: "u8 list" where
  "limit_text = map of_char (''-- Max Processes Already Reached (6) --'' @ [CHR 0x0A])"

lemma limit_msg:
  "\<exists>m. printf (lit (''-- Max Processes Already Reached (%d) --'' @ [CHR 0x0A])) (pushed [word_arg 6]) k =
     Some (m, fold putc limit_text k)"
proof -
  let ?s = "''-- Max Processes Already Reached (%d) --'' @ [CHR 0x0A]"
  have "0 \<notin> set (map of_char ?s :: u8 list)" and "expand (map of_char ?s) (pushed [word_arg 6]) 0 = Some limit_text"
    by code_simp+
  from lit_prints [OF _ this, of k] word_arg_str show ?thesis by auto
qed

lemma sys_execute_refuses:
  fixes k :: kernel and c :: view
  assumes "command_name c \<noteq> []" and "0 \<le> sint (num_dir_entries (fs k))"
  shows "lookup (vmem k) (fs k) (command_name c) = None \<Longrightarrow> sys_execute c k = Some (Ret ERROR, k)"
    and "lookup (vmem k) (fs k) (command_name c) = Some i \<Longrightarrow> exe_inode k i < num_inodes (fs k) \<Longrightarrow>
      4 \<le> file_size (vmem k) (fs k) (exe_inode k i) \<Longrightarrow>
      take 4 (file_contents (vmem k) (fs k) (exe_inode k i)) \<noteq> ELF_MAGIC \<Longrightarrow> sys_execute c k = Some (Ret ERROR, k)"
    and "lookup (vmem k) (fs k) (command_name c) = Some i \<Longrightarrow> exe_inode k i < num_inodes (fs k) \<Longrightarrow>
      4 \<le> file_size (vmem k) (fs k) (exe_inode k i) \<Longrightarrow>
      take 4 (file_contents (vmem k) (fs k) (exe_inode k i)) = ELF_MAGIC \<Longrightarrow> get_new_pid k = ERROR \<Longrightarrow>
      sys_execute c k = map_option (\<lambda>(_, k'). (Ret ERROR, k'))
        (printf (lit (''-- Max Processes Already Reached (%d) --'' @ [CHR 0x0A])) (pushed [word_arg 6]) k)"
proof -
  obtain name where g: "get_program c 0 (fresh k) = (name, int (name_end c), has_args c)"
    using get_program_name(3,4) [OF assms(1), of "fresh k"] by (cases "get_program c 0 (fresh k)") auto
  note gp = get_program_name(1,2) [OF assms(1), of "fresh k", unfolded g fst_conv]
  note c = check_executable_cases [OF gp(1) length_command_name assms(2), unfolded gp(2)]
  show "lookup (vmem k) (fs k) (command_name c) = None \<Longrightarrow> sys_execute c k = Some (Ret ERROR, k)"
    using c(1) by (simp add: sys_execute_def g)
  assume f: "lookup (vmem k) (fs k) (command_name c) = Some i" "exe_inode k i < num_inodes (fs k)"
    "4 \<le> file_size (vmem k) (fs k) (exe_inode k i)"
  show "take 4 (file_contents (vmem k) (fs k) (exe_inode k i)) \<noteq> ELF_MAGIC \<Longrightarrow> sys_execute c k = Some (Ret ERROR, k)"
    using c(2) [OF f] by (simp add: sys_execute_def g)
  show "take 4 (file_contents (vmem k) (fs k) (exe_inode k i)) = ELF_MAGIC \<Longrightarrow> get_new_pid k = ERROR \<Longrightarrow>
      sys_execute c k = map_option (\<lambda>(_, k'). (Ret ERROR, k'))
        (printf (lit (''-- Max Processes Already Reached (%d) --'' @ [CHR 0x0A])) (pushed [word_arg 6]) k)"
    using c(2) [OF f] by (simp add: sys_execute_def g)
qed

text \<open>
  C22. \<open>sys_execute\<close> refuses what it cannot run: a name the directory does not have and a file of at least four
  bytes that does not begin with the ELF magic give the error and leave the state alone; with all six
  slots in use the call prints that the limit of six processes is reached, so that the screen then shows the
  message behind what it showed, gives the error and changes nothing but the screen.
\<close>

theorem sys_execute_errors:
  fixes k :: kernel and c :: view
  assumes "command_name c \<noteq> []" and "0 \<le> sint (num_dir_entries (fs k))" and "maps_page k VIDEO F" and "cursor_ok k"
  shows "case lookup (vmem k) (fs k) (command_name c) of
      None \<Rightarrow> sys_execute c k = Some (Ret ERROR, k)
    | Some i \<Rightarrow> exe_inode k i < num_inodes (fs k) \<and> 4 \<le> file_size (vmem k) (fs k) (exe_inode k i) \<longrightarrow>
        (take 4 (file_contents (vmem k) (fs k) (exe_inode k i)) \<noteq> ELF_MAGIC \<longrightarrow>
           sys_execute c k = Some (Ret ERROR, k)) \<and>
        (take 4 (file_contents (vmem k) (fs k) (exe_inode k i)) = ELF_MAGIC \<and>
           (\<forall>j. 0 \<le> j \<and> j < 6 \<longrightarrow> used_pids k j \<noteq> 0) \<longrightarrow>
           sys_execute c k = Some (Ret ERROR, fold putc limit_text k) \<and>
           tty_of F (fold putc limit_text k) = fold tty_putc limit_text (tty_of F k) \<and>
           con_frame F k (fold putc limit_text k))"
proof -
  have "get_new_pid k = ERROR" if "\<forall>j. 0 \<le> j \<and> j < 6 \<longrightarrow> used_pids k j \<noteq> 0"
    using that pids.search_full [of k] unfolding slot_list by simp
  note full = this
  show ?thesis
  proof (cases "lookup (vmem k) (fs k) (command_name c)")
    case None
    then show ?thesis using sys_execute_refuses(1) [OF assms(1,2)] by simp
  next
    case (Some i)
    obtain m where "printf (lit (''-- Max Processes Already Reached (%d) --'' @ [CHR 0x0A])) (pushed [word_arg 6]) k =
        Some (m, fold putc limit_text k)" using limit_msg by blast
    note m = sys_execute_refuses(3) [OF assms(1,2) Some, unfolded this, unfolded option.map prod.case]
    show ?thesis
      using sys_execute_refuses(2) [OF assms(1,2) Some] m fold_putc_refine [OF assms(3,4), of limit_text] full
      unfolding Some option.case by blast
  qed
qed

definition demo_full :: kernel where
  "demo_full = demo_machine\<lparr>used_pids := (\<lambda>_. 1)\<rparr>"

theorem sys_execute_errors_witness:
  "sys_execute (lit ''ls'') demo_machine = Some (Ret ERROR, demo_machine) \<and>
   sys_execute (lit ''shell'') demo_full = Some (Ret ERROR, fold putc limit_text demo_full)"
proof -
  have c: "command_name (lit ''ls'') = map of_char ''ls''" "command_name (lit ''shell'') = map of_char ''shell''" by code_simp+
  have l: "lookup (vmem demo_machine) (fs demo_machine) (map of_char ''ls'') = None"
    "lookup (vmem demo_machine) (fs demo_machine) (map of_char ''shell'') = Some 0"
    using demo_machine_name by (simp_all add: lookup_def demo_machine_fs_sel)
  have pf: "paddr demo_full = paddr demo_machine" by (intro paddr_cong) (simp_all add: demo_full_def)
  have "phys demo_full = phys demo_machine" by (simp add: demo_full_def)
  then have v: "vmem demo_full = vmem demo_machine" by (intro ext) (simp add: vmem_def pf split: option.split)
  have f: "fs demo_full = fs demo_machine" "used_pids demo_full = (\<lambda>_. 1)" "cursor_ok demo_full" "fresh demo_full = fresh demo_machine"
    using demo_machine_sel(9) by (simp_all add: demo_full_def cursor_ok_def)
  have e: "exe_inode demo_full i = exe_inode demo_machine i" for i
    by (simp add: exe_inode_def v f)
  have mp: "maps_page demo_full VIDEO (vid_page demo_machine)"
    using maps_video [OF demo_machine_paging(1)] maps_page_cong [of demo_full demo_machine] by (simp add: demo_full_def)
  have "take 4 demo_program = ELF_MAGIC" by code_simp
  then have "sys_execute (lit ''shell'') demo_full = Some (Ret ERROR, fold putc limit_text demo_full)"
    using sys_execute_errors [of "lit ''shell''" demo_full "vid_page demo_machine", unfolded c v f(1,2) l e
        demo_machine_inode option.case demo_machine_contents demo_machine_size] mp f(3)
    by (simp add: demo_machine_fs_sel)
  moreover have "sys_execute (lit ''ls'') demo_machine = Some (Ret ERROR, demo_machine)"
    using sys_execute_errors [of "lit ''ls''" demo_machine "vid_page demo_machine", unfolded c l]
      maps_video [OF demo_machine_paging(1)] demo_machine_sel(9)
    by (simp add: demo_machine_fs_sel)
  ultimately show ?thesis by blast
qed

subsection \<open>Halting\<close>

text \<open>Closing files may change the frequency of the clock and the divisors, nothing else.\<close>

definition close_frame :: "kernel \<Rightarrow> kernel \<Rightarrow> bool" where
  "close_frame k k' \<longleftrightarrow> (\<exists>os h pb. k' = k\<lparr>outs := os, higher_freq := h, pcbs := pb\<rparr> \<and>
     (\<forall>q. \<exists>d. pb q = (pcbs k q)\<lparr>divisor := d\<rparr>))"

lemma close_frame_refl: "close_frame k k"
  unfolding close_frame_def
  by (intro exI [of _ "outs k"] exI [of _ "higher_freq k"] exI [of _ "pcbs k"]) (simp add: divisor_idem)

lemma close_frame_trans:
  assumes "close_frame k k'" and "close_frame k' k''"
  shows "close_frame k k''"
proof -
  obtain os h pb where 1: "k' = k\<lparr>outs := os, higher_freq := h, pcbs := pb\<rparr>" "\<forall>q. \<exists>d. pb q = (pcbs k q)\<lparr>divisor := d\<rparr>"
    using assms(1) unfolding close_frame_def by blast
  obtain os2 h2 pb2 where 2: "k'' = k'\<lparr>outs := os2, higher_freq := h2, pcbs := pb2\<rparr>"
    "\<forall>q. \<exists>d. pb2 q = (pcbs k' q)\<lparr>divisor := d\<rparr>"
    using assms(2) unfolding close_frame_def by blast
  have "\<exists>d. pb2 q = (pcbs k q)\<lparr>divisor := d\<rparr>" for q
  proof -
    obtain d where "pb q = (pcbs k q)\<lparr>divisor := d\<rparr>" using 1(2) by blast
    moreover obtain e where "pb2 q = (pb q)\<lparr>divisor := e\<rparr>" using 2(2) 1(1) by auto
    ultimately show ?thesis by (intro exI [of _ e]) simp
  qed
  then show ?thesis
    unfolding close_frame_def using 1(1) 2(1)
    by (intro exI [of _ os2] exI [of _ h2] exI [of _ pb2]) simp
qed

lemma update_divisor_frame: "close_frame k (update_divisor i k)"
proof -
  have "\<exists>d. ((pcbs k)(p := (pcbs k p)\<lparr>divisor := e\<rparr>)) q = (pcbs k q)\<lparr>divisor := d\<rparr>" for p q e
    using divisor_idem by (cases "q = p") auto
  then show ?thesis
    using close_frame_refl unfolding update_divisor_def upd_pcb_def close_frame_def
    by (intro exI [of _ "outs k"] exI [of _ "higher_freq k"]
        exI [of _ "pcbs (update_divisor i k)"]) (auto simp: update_divisor_def upd_pcb_def divisor_idem)
qed

lemma rtc_close_frame: "close_frame k (snd (rtc_close a fd k))"
proof -
  have f: "close_frame k (fold update_divisor xs k)" for k :: kernel and xs
    by (induction xs arbitrary: k) (auto intro: close_frame_refl close_frame_trans update_divisor_frame)
  let ?k1 = "rtc_set_frequency a (max_requested k) (k\<lparr>higher_freq := max_requested k\<rparr>)"
  have "close_frame k ?k1"
    unfolding close_frame_def
    by (intro exI [of _ "outs ?k1"] exI [of _ "max_requested k"] exI [of _ "pcbs k"])
      (simp add: rtc_set_frequency_def outb_def divisor_idem Let_def)
  with f [of ?k1 "[0, 1, 2, 3, 4, 5]"] show ?thesis
    by (auto simp: rtc_close_def Let_def simp del: fold_simps intro: close_frame_trans)
qed

lemma call_close_frame: "close_frame k (snd (call_close a f fd k))"
  by (cases f) (simp_all add: rtc_close_frame close_frame_refl)

lemma close_frame_sel:
  assumes "close_frame k k'"
  shows "fdt (pcbs k' q) = fdt (pcbs k q)" "pcb_pid (pcbs k' q) = pcb_pid (pcbs k q)"
    "par_pid (pcbs k' q) = par_pid (pcbs k q)" "par_pcb_ptr (pcbs k' q) = par_pcb_ptr (pcbs k q)"
    "par_esp (pcbs k' q) = par_esp (pcbs k q)" "par_ebp (pcbs k' q) = par_ebp (pcbs k q)"
    "terminals k' = terminals k" "used_pids k' = used_pids k" "curr_process k' = curr_process k" "tss k' = tss k"
    "active k' = active k" "addr_of k' = addr_of k" "tabs k' = tabs k" "phys k' = phys k"
    "\<exists>d. pcbs k' q = (pcbs k q)\<lparr>divisor := d\<rparr>"
proof -
  obtain os h pb where k: "k' = k\<lparr>outs := os, higher_freq := h, pcbs := pb\<rparr>"
    and pb: "\<forall>q. \<exists>d. pb q = (pcbs k q)\<lparr>divisor := d\<rparr>"
    using assms unfolding close_frame_def by blast
  obtain d where "pb q = (pcbs k q)\<lparr>divisor := d\<rparr>" using pb by blast
  then show "fdt (pcbs k' q) = fdt (pcbs k q)" "pcb_pid (pcbs k' q) = pcb_pid (pcbs k q)"
    "par_pid (pcbs k' q) = par_pid (pcbs k q)" "par_pcb_ptr (pcbs k' q) = par_pcb_ptr (pcbs k q)"
    "par_esp (pcbs k' q) = par_esp (pcbs k q)" "par_ebp (pcbs k' q) = par_ebp (pcbs k q)"
    "\<exists>d. pcbs k' q = (pcbs k q)\<lparr>divisor := d\<rparr>"
    by (auto simp: k)
qed (use assms in \<open>auto simp: close_frame_def\<close>)

lemma descriptor_range: "i \<in> set [0, 1, 2, 3, 4, 5, 6, 7 :: int] \<Longrightarrow> 0 \<le> i \<and> i < 8"
  by auto

lemma close_files_frame:
  assumes "\<forall>i. 0 \<le> i \<and> i < 8 \<and> enabled (fdt (pcbs k p) i) \<longrightarrow> fot_ptr (fdt (pcbs k p) i) \<noteq> NULL_fot"
  shows "\<exists>k'. close_files a p k = Some k' \<and> close_frame k k'"
proof -
  let ?step = "\<lambda>i ok. Option.bind ok (\<lambda>k. if enabled (fdt (pcbs k p) i)
    then map_option (\<lambda>f. snd (call_close a (fot_close f) i k)) (fot_of (fot_ptr (fdt (pcbs k p) i))) else Some k)"
  have "\<exists>k'. fold ?step xs (Some k) = Some k' \<and> close_frame k k'"
    if "\<forall>i \<in> set xs. enabled (fdt (pcbs k p) i) \<longrightarrow> fot_ptr (fdt (pcbs k p) i) \<noteq> NULL_fot" for xs k
    using that
  proof (induction xs arbitrary: k)
    case Nil
    then show ?case by (simp add: close_frame_refl)
  next
    case (Cons i xs)
    obtain k1 where k1: "?step i (Some k) = Some k1" "close_frame k k1"
    proof (cases "enabled (fdt (pcbs k p) i)")
      case True
      then obtain f where "fot_of (fot_ptr (fdt (pcbs k p) i)) = Some f"
        using Cons.prems by (cases "fot_ptr (fdt (pcbs k p) i)") auto
      with True that call_close_frame [of k a "fot_close f" i] show ?thesis by simp
    qed (use that close_frame_refl in simp)
    then obtain k' where "fold ?step xs (Some k1) = Some k'" "close_frame k1 k'"
      using Cons.IH [of k1] Cons.prems close_frame_sel(1) [OF k1(2)] by auto
    with k1 close_frame_trans show ?case by auto
  qed
  then show ?thesis using assms unfolding close_files_def by (meson descriptor_range)
qed

lemma vid_page_program: "vid_page (enable_program_page n k) = vid_page k"
  by (simp add: vid_page_def enable_program_page_def upd_pde_def Let_def)

lemma exec_frame_trans: "exec_frame n k k' \<Longrightarrow> exec_frame n k' k'' \<Longrightarrow> exec_frame n k k''"
  by (auto simp: exec_frame_def)

text \<open>A message, as the calls see it.\<close>

lemma msg_exec_frame:
  assumes "paging_ok k" and "cursor_ok k" and "vid_page k < 0x400000"
  shows "exec_frame n k (fold putc t k) \<and> paging_ok (fold putc t k) \<and> out_frame k (fold putc t k)"
proof -
  note m = maps_video [OF assms(1)]
  note r = fold_putc_refine [OF m assms(2), of t]
  then have f: "con_frame (vid_page k) k (fold putc t k)" by blast
  note d = con_frameD [OF f]
  have "vid_page (fold putc t k) = vid_page k" "paging_ok (fold putc t k) = paging_ok k"
    using vid_page_cong [of "fold putc t k" k] paging_ok_cong [of "fold putc t k" k] d by simp_all
  moreover have "(\<forall>s. saved_in (terminals k s)) \<longrightarrow> (\<forall>s. saved_in (terminals (fold putc t k) s))"
    using putcs_saved [OF m assms(2)] by blast
  ultimately show ?thesis
    using assms r d con_frame_phys [OF f] kernel_not_video [OF _ assms(3)] other_not_video [OF _ assms(3)] con_frame_terminal(1) [OF f]
      term_ok_out [OF con_frame_out [OF f]] con_frame_out [OF f] by (simp add: exec_frame_def)
qed

lemma close_exec_frame:
  assumes "close_frame k k'" and "cursor_ok k"
  shows "exec_frame n k k' \<and> paging_ok k' = paging_ok k \<and> paddr k' = paddr k \<and> esp k' = esp k \<and> ebp k' = ebp k \<and> tss k' = tss k"
proof -
  obtain os h pb where k: "k' = k\<lparr>outs := os, higher_freq := h, pcbs := pb\<rparr>"
    using assms(1) unfolding close_frame_def by blast
  have "paging_ok k' = paging_ok k" "vid_page k' = vid_page k" "paddr k' = paddr k"
    using paging_ok_cong [of k' k] vid_page_cong [of k' k] paddr_cong [of k' k] by (simp_all add: k)
  with assms(2) show ?thesis by (simp add: exec_frame_def k cursor_ok_def)
qed

text \<open>The terminals, the saved stacks and the blocks when the program in slot \<open>n\<close> gives way to its parent.\<close>

definition gone :: "int \<Rightarrow> kernel \<Rightarrow> kernel \<Rightarrow> bool" where
  "gone n k k' \<longleftrightarrow> (let par = par_pid (pcbs k (get_pcb_by_pid n)) in
     maps_range k' 0x08048000 (prog_page par + 0x48000) 0x3B8000 \<and>
     esp0 (tss k') = 0x800000 - 4 - word_of_int par * 0x2000 \<and> used_pids k' = (used_pids k)(n := 0) \<and>
     (\<forall>q. \<exists>d. pcbs k' q = (pcbs k q)\<lparr>divisor := d\<rparr>) \<and>
     (\<forall>t. prog_curr_pid (terminals k' t) = prog_curr_pid (terminals k t)) \<and>
     (\<forall>b. \<not> b - vid_page k < 4000 \<longrightarrow> phys k' b = phys k b) \<and> esp k' = esp k \<and> paging_ok k' \<and> exec_frame n k k')"

lemma sys_halt_eq:
  fixes k :: kernel and n :: int
  defines "p \<equiv> get_pcb_by_pid n"
  assumes "paging_ok k" and "cursor_ok k" and "vid_page k < 0x400000"
    and "prog_curr_pid (terminals k (curr_process k)) = n" and "0 \<le> n" and "n < 6" and "pcb_pid (pcbs k p) = n"
    and "0 \<le> par_pid (pcbs k p)" and "par_pid (pcbs k p) < 6"
    and "\<forall>i. 0 \<le> i \<and> i < 8 \<and> enabled (fdt (pcbs k p) i) \<longrightarrow> fot_ptr (fdt (pcbs k p) i) \<noteq> NULL_fot"
  shows "\<exists>k4. gone n k k4 \<and> sys_halt a status k =
    (if n < 3 then
       case puts (lit (''-- Exited Root Process --'' @ [CHR 0x0A])) k4 of
         None \<Rightarrow> None
       | Some (_, k5) \<Rightarrow>
           (case sys_execute (shell_command k5) k5 of
              None \<Rightarrow> None
            | Some (Ret r, k6) \<Rightarrow> Some (leave_process status p k6)
            | Some (other, k6) \<Rightarrow> Some (other, k6))
     else Some (leave_process status p k4))"
proof -
  let ?par = "par_pid (pcbs k p)"
  let ?k2 = "(set_tss ?par k)\<lparr>used_pids := (used_pids k)(n := 0)\<rparr>"
  obtain m t where msg: "printf (lit (''-- Halting Process #%d --'' @ [CHR 0x0A])) (pushed [word_arg n]) ?k2 =
      Some (m, fold putc t ?k2)"
    using halting_msg by blast
  define k3 where "k3 = fold putc t ?k2"
  have k2: "paging_ok ?k2" "cursor_ok ?k2" "vid_page ?k2 = vid_page k"
    using assms(2,3) paging_ok_cong [of ?k2 k] vid_page_cong [of ?k2 k] by (simp_all add: cursor_ok_def set_tss_def)
  then have f3: "exec_frame n ?k2 k3" "paging_ok k3" "out_frame ?k2 k3"
    using msg_exec_frame [of ?k2 n t] assms(4) unfolding k3_def by auto
  have cf: "con_frame (vid_page k) ?k2 k3" using msg_frame [OF maps_video [OF k2(1)] k2(2)] k2(3) by (simp add: k3_def)
  note d = con_frameD [OF cf, simplified]
  let ?e = "enable_program_page ?par k3"
  have e: "exec_frame n k3 ?e" "paging_ok ?e"
    using f3 enable_program_page_ok [of k3] by (simp_all add: exec_frame_def cursor_ok_def vid_page_program)
  obtain k4 where k4: "close_files a p ?e = Some k4" "close_frame ?e k4"
    using close_files_frame [of ?e p a] assms(11) by (auto simp: d)
  have ce: "cursor_ok ?e" using e(1) by (simp add: exec_frame_def)
  note c = close_exec_frame [OF k4(2) ce]
  note s = close_frame_sel [OF k4(2), simplified, unfolded d]
  have "exec_frame n k ?k2" using k2 assms(3) by (simp add: exec_frame_def)
  then have ex: "exec_frame n k k4" using f3(1) e(1) c exec_frame_trans by blast
  have "maps_range ?e 0x08048000 (prog_page ?par + 0x48000) 0x3B8000"
    using maps_program [OF f3(2) assms(9,10)] by simp
  then have "gone n k k4"
    using c e(2) ex s(15) d con_frame_phys [OF cf] con_frame_terminal(8) [OF cf] s(7,8,14)
    unfolding gone_def Let_def p_def [symmetric] by (simp add: maps_range_def)
  moreover have "p \<noteq> 0" using pcb_not_null [OF assms(6,7)] by (simp add: p_def)
  ultimately show ?thesis
    using msg k4(1) assms(8) unfolding sys_halt_def Let_def assms(5) p_def [symmetric] k3_def [symmetric]
    by (intro exI [of _ k4]) (simp add: d)
qed

lemma sys_halt_child:
  fixes k :: kernel and n :: int
  defines "p \<equiv> get_pcb_by_pid n"
  assumes "paging_ok k" and "cursor_ok k" and "vid_page k < 0x400000"
    and "prog_curr_pid (terminals k (curr_process k)) = n" and "3 \<le> n" and "n < 6" and "pcb_pid (pcbs k p) = n"
    and "0 \<le> par_pid (pcbs k p)" and "par_pid (pcbs k p) < 6"
    and "\<forall>i. 0 \<le> i \<and> i < 8 \<and> enabled (fdt (pcbs k p) i) \<longrightarrow> fot_ptr (fdt (pcbs k p) i) \<noteq> NULL_fot"
  shows "\<exists>k'. sys_halt a status k = Some (Ret_to_exec (ucast status), k') \<and>
    esp k' = par_esp (pcbs k p) \<and> ebp k' = par_ebp (pcbs k p) \<and>
    (\<forall>j < 0x3B8000. paddr k' (0x08048000 + of_nat j) =
       Some (prog_page (par_pid (pcbs k p)) + 0x48000 + of_nat j)) \<and>
    esp0 (tss k') = 0x800000 - 4 - word_of_int (par_pid (pcbs k p)) * 0x2000 \<and>
    prog_curr_pid (terminals k' (curr_process k)) = pcb_pid (pcbs k (par_pcb_ptr (pcbs k p))) \<and>
    prog_par_pid (terminals k' (curr_process k)) = par_pid (pcbs k (par_pcb_ptr (pcbs k p))) \<and>
    used_pids k' = (used_pids k)(n := 0) \<and> pcbs k' p = zero_pcb \<and>
    (\<forall>q. q \<noteq> p \<longrightarrow> (\<exists>d. pcbs k' q = (pcbs k q)\<lparr>divisor := d\<rparr>)) \<and>
    (\<forall>b. \<not> b - vid_page k < 4000 \<longrightarrow> phys k' b = phys k b) \<and> paging_ok k' \<and> exec_frame n k k'"
proof -
  obtain k4 where g: "gone n k k4" and ex: "sys_halt a status k = Some (leave_process status p k4)"
    using sys_halt_eq [OF assms(2-5) _ assms(7), of a status] assms(6,8-11) unfolding p_def by auto
  obtain k' where k': "leave_process status p k4 = (Ret_to_exec (ucast status), k')"
    by (simp add: leave_process_def Let_def)
  note g = g [unfolded gone_def Let_def, folded p_def]
  have cp: "curr_process k4 = curr_process k" using g by (simp add: exec_frame_def)
  have b: "\<exists>d. pcbs k4 q = (pcbs k q)\<lparr>divisor := d\<rparr>" for q using g by blast
  have s: "pcb_pid (pcbs k4 q) = pcb_pid (pcbs k q)" "par_pid (pcbs k4 q) = par_pid (pcbs k q)"
    "par_pcb_ptr (pcbs k4 q) = par_pcb_ptr (pcbs k q)" "par_esp (pcbs k4 q) = par_esp (pcbs k q)"
    "par_ebp (pcbs k4 q) = par_ebp (pcbs k q)" for q
    using b [of q] by auto
  define q where "q = pcbs k (par_pcb_ptr (pcbs k p))"
  have r: "k' = k4\<lparr>terminals := (terminals k4)(curr_process k := (terminals k4 (curr_process k))
      \<lparr>prog_curr_pid := pcb_pid q, prog_par_pid := par_pid q\<rparr>),
      pcbs := (pcbs k4)(p := zero_pcb), esp := par_esp (pcbs k p), ebp := par_ebp (pcbs k p)\<rparr>"
    using k' by (simp add: leave_process_def Let_def cp s q_def upd_terminal_def upd_pcb_def)
  have e: "paddr k' = paddr k4" "paging_ok k' = paging_ok k4" "vid_page k' = vid_page k4"
    using paddr_cong [of k' k4] paging_ok_cong [of k' k4] vid_page_cong [of k' k4] by (simp_all add: r)
  have "cursor_ok k4" using g by (simp add: exec_frame_def)
  then have "exec_frame n k4 k'" using e(3) by (simp add: exec_frame_def r cp cursor_ok_def)
  then have "exec_frame n k k'" using g exec_frame_trans by blast
  then show ?thesis
    unfolding ex k' using g e b by (intro exI [of _ k']) (simp add: r q_def maps_range_def)
qed

text \<open>
  C7. Halting resumes the parent: for a process that is not one of the root shells,
  \<open>sys_halt\<close> continues at \<open>ret_to_exec\<close> on the stack the parent had when it called
  \<open>sys_execute\<close>, with the parent's program page, the parent's kernel stack in the TSS and the
  parent as the current process of the terminal; the slot is free again and its block cleared, and
  of the other blocks at most the divisor of the clock has changed.
\<close>

theorem sys_halt_resumes_parent:
  fixes k :: kernel and n :: int
  defines "p \<equiv> get_pcb_by_pid n"
  assumes "paging_ok k" and "cursor_ok k" and "vid_page k < 0x400000"
    and "prog_curr_pid (terminals k (curr_process k)) = n" and "3 \<le> n" and "n < 6" and "pcb_pid (pcbs k p) = n"
    and "0 \<le> par_pid (pcbs k p)" and "par_pid (pcbs k p) < 6"
    and "\<forall>i. 0 \<le> i \<and> i < 8 \<and> enabled (fdt (pcbs k p) i) \<longrightarrow> fot_ptr (fdt (pcbs k p) i) \<noteq> NULL_fot"
  shows "\<exists>k'. sys_halt a status k = Some (Ret_to_exec (ucast status), k') \<and>
    esp k' = par_esp (pcbs k p) \<and> ebp k' = par_ebp (pcbs k p) \<and>
    (\<forall>j < 0x3B8000. paddr k' (0x08048000 + of_nat j) =
       Some (prog_page (par_pid (pcbs k p)) + 0x48000 + of_nat j)) \<and>
    esp0 (tss k') = 0x800000 - 4 - word_of_int (par_pid (pcbs k p)) * 0x2000 \<and>
    prog_curr_pid (terminals k' (curr_process k)) = pcb_pid (pcbs k (par_pcb_ptr (pcbs k p))) \<and>
    prog_par_pid (terminals k' (curr_process k)) = par_pid (pcbs k (par_pcb_ptr (pcbs k p))) \<and>
    used_pids k' = (used_pids k)(n := 0) \<and> pcbs k' p = zero_pcb \<and>
    (\<forall>q. q \<noteq> p \<longrightarrow> (\<exists>d. pcbs k' q = (pcbs k q)\<lparr>divisor := d\<rparr>)) \<and>
    (\<forall>b. \<not> b - vid_page k < 4000 \<longrightarrow> phys k' b = phys k b)"
  using sys_halt_child [OF assms(2-6)] assms(7-11) unfolding p_def by blast

definition demo_child :: kernel where
  "demo_child = demo_machine\<lparr>terminals := (\<lambda>_. zero_terminal\<lparr>prog_curr_pid := 3\<rparr>),
     pcbs := (\<lambda>_. zero_pcb\<lparr>pcb_pid := 3, par_pid := 1, par_esp := 0x7FDF00\<rparr>), used_pids := (\<lambda>_. 1)\<rparr>"

lemma demo_child_sel:
  "paging_ok demo_child" "cursor_ok demo_child" "vid_page demo_child < 0x400000"
  "prog_curr_pid (terminals demo_child i) = 3" "pcbs demo_child q = zero_pcb\<lparr>pcb_pid := 3, par_pid := 1, par_esp := 0x7FDF00\<rparr>"
  using demo_machine_paging demo_machine_sel(9) paging_ok_cong [of demo_child demo_machine]
    vid_page_cong [of demo_child demo_machine]
  by (simp_all add: demo_child_def cursor_ok_def)

theorem sys_halt_resumes_parent_witness:
  "\<exists>k'. sys_halt 0 7 demo_child = Some (Ret_to_exec 7, k') \<and> esp k' = 0x7FDF00 \<and> used_pids k' 3 = 0 \<and>
     paddr k' 0x08048000 = Some 0x00C48000"
proof -
  have "ucast (7 :: u8) = (7 :: u32)" by simp
  then show ?thesis
    using sys_halt_resumes_parent [of demo_child 3 0 7, unfolded demo_child_sel(4,5)] demo_child_sel(1-3)
    by (auto simp: zero_pcb_def zero_fdt_entry_def prog_page_def dest: spec [of _ "0 :: nat"])
qed

subsection \<open>Arguments\<close>

lemma sys_getargs_eq:
  fixes k :: kernel and buf :: u32
  defines "q \<equiv> pcbs k (get_curr_pcb k)"
  assumes "buf \<noteq> 0" and "arg_len q = int m" and "m < 128" and "int m \<le> nbytes" and "0 < nbytes"
    and "maps_range k buf pa (Suc m)"
  shows "\<exists>k'. sys_getargs buf nbytes k = (0, k') \<and> k' = k\<lparr>phys := phys k'\<rparr> \<and>
    bytes (view_of (vmem k') buf) (Suc m) = bytes (pcb_args q) m @ [0]"
proof -
  let ?k1 = "vwrite (buf + of_nat m) 0 k" and ?bs = "bytes (pcb_args q) m"
  let ?k' = "vstore buf ?bs ?k1"
  have k1: "?k1 = k\<lparr>phys := (phys k)(pa + of_nat m := 0)\<rparr>"
    using assms(7) by (simp add: vwrite_def maps_range_def)
  have mr: "maps_range ?k1 buf pa (length ?bs)"
    using assms(7) paddr_cong [of ?k1 k] by (simp add: maps_range_def k1)
  note v = vstore_eq [OF mr, unfolded k1]
  have k': "?k' = k\<lparr>phys := (\<lambda>p. if unat (p - pa) < m then ?bs ! unat (p - pa)
      else ((phys k)(pa + of_nat m := 0)) p)\<rparr>"
    using v assms(4) by (simp add: k1 cong: if_cong)
  have "vmem ?k' (buf + of_nat i) = (if i < m then ?bs ! i else 0)" if "i \<le> m" for i
  proof -
    have u: "unat (of_nat i :: u32) = i" using that assms(4) by (simp add: wsimps)
    have "paddr ?k' (buf + of_nat i) = Some (pa + of_nat i)"
      using assms(7) that paddr_cong [of ?k1 k] by (simp add: maps_range_def k1)
    then have "vmem ?k' (buf + of_nat i) = phys ?k' (pa + of_nat i)" by (simp add: vmem_def)
    then show ?thesis using that u by (simp add: k')
  qed
  then have "bytes (view_of (vmem ?k') buf) (Suc m) = ?bs @ [0]"
    by (intro nth_equalityI) (auto simp: view_of_def nth_append)
  moreover have "sys_getargs buf nbytes k = (0, ?k')"
    using assms(2,3,5,6) by (simp add: sys_getargs_def q_def Let_def)
  ultimately show ?thesis using k' by (intro exI [of _ ?k']) simp
qed

text \<open>
  C11. A program gets the arguments it was started with: when \<open>sys_execute\<close> has entered the
  program of a command with an argument, then in a system call of that program, on its kernel
  stack, \<open>sys_getargs\<close> with a buffer of the program that is large enough returns 0 and leaves
  exactly the argument text of the command in the buffer, terminated, and writes nothing else
  but memory.
\<close>

theorem execute_then_getargs:
  fixes k :: kernel and c :: view and i :: nat and s :: u32
  defines "n \<equiv> get_new_pid k" and "inode \<equiv> exe_inode k i" and "m \<equiv> length (command_args c)"
  defines "bs \<equiv> file_contents (vmem k) (fs k) inode"
  assumes "paging_ok k" and "cursor_ok k" and "vid_page k < 0x400000"
    and "command_name c \<noteq> []" and "0 \<le> sint (num_dir_entries (fs k))"
    and "lookup (vmem k) (fs k) (command_name c) = Some i"
    and "inode < num_inodes (fs k)" and "file_in_kernel (vmem k) (fs k) inode"
    and "take 4 bs = ELF_MAGIC" and "28 \<le> length bs" and "length bs \<le> 0x3B8000"
    and "n \<noteq> ERROR" and "has_args c" and "s \<in> kernel_stack n" and "b + m < 0x3B8000" and "int m \<le> nbytes" and "0 < nbytes"
  shows "\<exists>e k1 k2. sys_execute c k = Some (Enter e, k1) \<and>
    sys_getargs (0x08048000 + of_nat b) nbytes (k1\<lparr>esp := s\<rparr>) = (0, k2) \<and>
    bytes (view_of (vmem k2) (0x08048000 + of_nat b)) (m + 1) = command_args c @ [0] \<and>
    k2 = k1\<lparr>esp := s, phys := phys k2\<rparr>"
proof -
  obtain e k1 where k1: "sys_execute c k = Some (Enter e, k1)"
    "maps_range k1 0x08048000 (prog_page n + 0x48000) 0x3B8000"
    "arg_len (pcbs k1 (get_pcb_by_pid n)) = (if has_args c then int (length (command_args c)) else -1)"
    "has_args c \<longrightarrow> bytes (pcb_args (pcbs k1 (get_pcb_by_pid n))) (length (command_args c)) = command_args c"
    using sys_execute_runs [OF assms(5-10)] assms(11-16) unfolding n_def inode_def bs_def by blast
  have n: "0 \<le> n" "n < 6" using get_new_pid_range assms(16) by (auto simp: n_def)
  have p: "get_curr_pcb (k1\<lparr>esp := s\<rparr>) = get_pcb_by_pid n" using n assms(18) by (intro get_curr_pcb_stack) simp_all
  have "m < 128" using get_arguments_text(3) [of "\<lambda>_. 0" c] by (simp add: m_def)
  moreover have "maps_range (k1\<lparr>esp := s\<rparr>) (0x08048000 + of_nat b) (prog_page n + 0x48000 + of_nat b) (Suc m)"
  proof -
    have "paddr k1 (0x08048000 + of_nat (b + j)) = Some (prog_page n + 0x48000 + of_nat (b + j))" if "j < Suc m" for j
      using k1(2) [unfolded maps_range_def, rule_format, of "b + j"] that assms(19) by simp
    then show ?thesis using paddr_cong [of "k1\<lparr>esp := s\<rparr>" k1] by (simp add: maps_range_def add.assoc)
  qed
  moreover have "(0x08048000 + of_nat b :: u32) \<noteq> 0"
    using program_addr(1) [of b] assms(19) by (auto simp: word_unat_eq_iff)
  ultimately obtain k2 where "sys_getargs (0x08048000 + of_nat b) nbytes (k1\<lparr>esp := s\<rparr>) = (0, k2)"
    "k2 = k1\<lparr>esp := s\<rparr>\<lparr>phys := phys k2\<rparr>"
    "bytes (view_of (vmem k2) (0x08048000 + of_nat b)) (Suc m) = command_args c @ [0]"
    using sys_getargs_eq [of "0x08048000 + of_nat b" "k1\<lparr>esp := s\<rparr>" m nbytes] k1(3,4) assms(17,20,21)
    unfolding p m_def by auto
  with k1(1) show ?thesis by auto
qed

theorem execute_then_getargs_witness:
  "\<exists>e k1 k2. sys_execute (lit ''shell ls'') demo_machine = Some (Enter e, k1) \<and>
     sys_getargs 0x08048100 1024 (k1\<lparr>esp := 0x7FFF00\<rparr>) = (0, k2) \<and>
     bytes (view_of (vmem k2) 0x08048100) 3 = map of_char ''ls'' @ [0]"
proof -
  have c: "command_name (lit ''shell ls'') = map of_char ''shell''" "command_args (lit ''shell ls'') = map of_char ''ls''"
    "has_args (lit ''shell ls'')"
    by code_simp+
  have n: "get_new_pid demo_machine = 0" by (simp add: get_new_pid_def demo_machine_sel)
  have l: "lookup (vmem demo_machine) (fs demo_machine) (map of_char ''shell'') = Some 0"
    using demo_machine_name by (simp add: lookup_def demo_machine_fs_sel)
  have le: "take 4 demo_program = ELF_MAGIC" "length demo_program = 32" by code_simp+
  have m: "length (map of_char ''ls'' :: u8 list) = 2" by simp
  have s: "(0x7FFF00 :: u32) \<in> kernel_stack 0" by (simp add: kernel_stack_def)
  show ?thesis
    using execute_then_getargs [where k = demo_machine and c = "lit ''shell ls''" and i = 0 and s = "0x7FFF00" and b = "0x100"
          and nbytes = 1024,
        unfolded n demo_machine_inode demo_machine_contents c(1,2) l le m] c(3) s
      demo_machine_paging demo_machine_sel(9) demo_machine_file
    by (auto simp: demo_machine_fs_sel)
qed

subsection \<open>Exceptions\<close>

lemma error_msg:
  assumes "is_cstr str n" and "n < 2 ^ 32"
  shows "\<exists>m t. printf (lit (''! ERROR '' @ [CHR 0xAF] @ '' %s !'' @ [CHR 0x0A])) (pushed [str_arg str]) k =
    Some (m, fold putc t k)"
proof (rule lit_msg)
  show "0 \<notin> set (map of_char (''! ERROR '' @ [CHR 0xAF] @ '' %s !'' @ [CHR 0x0A]) :: u8 list)" by code_simp
  show "list_all (\<lambda>a. strlen (pstr a) \<noteq> None) [str_arg str]"
    using strlen_cstr [OF assms] by (simp add: str_arg_def)
qed (use strlen_cstr [OF assms] in \<open>simp add: expand.simps str_arg_def pushed_def\<close>)

text \<open>A program that raised an exception ends, and its parent resumes.\<close>

lemma blue_screen_child:
  fixes k :: kernel and n :: int
  defines "p \<equiv> get_pcb_by_pid n"
  assumes "paging_ok k" and "cursor_ok k" and "vid_page k < 0x400000" and "is_cstr str l" and "l < 2 ^ 32"
    and "prog_curr_pid (terminals k (curr_process k)) = n" and "3 \<le> n" and "n < 6" and "pcb_pid (pcbs k p) = n"
    and "0 \<le> par_pid (pcbs k p)" and "par_pid (pcbs k p) < 6"
    and "\<forall>i. 0 \<le> i \<and> i < 8 \<and> enabled (fdt (pcbs k p) i) \<longrightarrow> fot_ptr (fdt (pcbs k p) i) \<noteq> NULL_fot"
  shows "\<exists>s k'. blue_screen a str k = Some (Ret_to_exec s, k') \<and> exec_return s = 256 \<and>
    esp k' = par_esp (pcbs k p) \<and> ebp k' = par_ebp (pcbs k p) \<and> used_pids k' = (used_pids k)(n := 0) \<and>
    pcbs k' p = zero_pcb \<and> (\<forall>q. q \<noteq> p \<longrightarrow> (\<exists>d. pcbs k' q = (pcbs k q)\<lparr>divisor := d\<rparr>))"
proof -
  obtain m t where msg: "printf (lit (''! ERROR '' @ [CHR 0xAF] @ '' %s !'' @ [CHR 0x0A])) (pushed [str_arg str]) k =
      Some (m, fold putc t k)"
    using error_msg [OF assms(5,6)] by blast
  let ?k1 = "fold putc t k"
  note r = fold_putc_refine [OF maps_video [OF assms(2)] assms(3), of t]
  then have f: "con_frame (vid_page k) k ?k1" by blast
  note d = con_frameD [OF f]
  have "paging_ok ?k1" "vid_page ?k1 = vid_page k"
    using assms(2) paging_ok_cong [of ?k1 k] vid_page_cong [of ?k1 k] d by simp_all
  moreover have "prog_curr_pid (terminals ?k1 (curr_process k)) = n"
    using con_frame_terminal(8) [OF f, of "curr_process k"] assms(7) by simp
  ultimately obtain k' where "sys_halt a 4 ?k1 = Some (Ret_to_exec (ucast (4 :: u8)), k')"
    "esp k' = par_esp (pcbs k p)" "ebp k' = par_ebp (pcbs k p)" "used_pids k' = (used_pids k)(n := 0)"
    "pcbs k' p = zero_pcb" "\<forall>q. q \<noteq> p \<longrightarrow> (\<exists>d. pcbs k' q = (pcbs k q)\<lparr>divisor := d\<rparr>)"
    using sys_halt_child [of ?k1 n a 4] r assms(4,8-13) unfolding p_def d by auto
  moreover have "exec_return (ucast (4 :: u8)) = 256" by (simp add: exec_return_def)
  ultimately show ?thesis unfolding blue_screen_def msg option.case prod.case by blast
qed

end
