(* ===== verification/Pit.thy ===== *)
theory Pit
  imports Process "HOL-Library.Signed_Division"
begin

section \<open>The timer and the scheduler\<close>

text \<open>
  \<open>src/student-distrib/pit.c\<close>: the timer interrupt moves to the program of the next terminal.
  The handler changes stacks: what returns at its end is the frame that the new \<open>esp\<close> and
  \<open>ebp\<close> describe, so a result \<open>Ret\<close> continues there, and a result \<open>Enter\<close> continues
  in a shell that the handler started on a terminal without one.
\<close>

subsection \<open>Operations\<close>

abbreviation (input) PT_IRQ_NUM :: u32 where "PT_IRQ_NUM \<equiv> 0"
abbreviation (input) MAIN_VID :: int where "MAIN_VID \<equiv> -1"
abbreviation (input) PT_MODE_REG :: u16 where "PT_MODE_REG \<equiv> 0x43"
abbreviation (input) PT_CH0_REG :: u16 where "PT_CH0_REG \<equiv> 0x40"
abbreviation (input) PT_MODE3_CMD :: u8 where "PT_MODE3_CMD \<equiv> 0x36"
abbreviation (input) PT_FREQ :: nat where "PT_FREQ \<equiv> 80"
abbreviation (input) PT_BASE_FREQ :: nat where "PT_BASE_FREQ \<equiv> 1193180"
abbreviation (input) BYTE :: nat where "BYTE \<equiv> 8"
abbreviation (input) LOW_B_MASK :: u16 where "LOW_B_MASK \<equiv> 0x00FF"

definition init_pit :: "kernel \<Rightarrow> kernel" where
  "init_pit k =
     (let div16 = (of_nat (PT_BASE_FREQ div PT_FREQ) :: u16);
          k1 = k\<lparr>curr_process := 2, on_screen := 0\<rparr>;
          k2 = outb PT_MODE3_CMD PT_MODE_REG k1;
          k3 = outb (ucast (div16 AND LOW_B_MASK)) PT_CH0_REG k2
      in outb (ucast (drop_bit BYTE div16 AND LOW_B_MASK)) PT_CH0_REG k3)"

definition save_stack :: "u32 \<Rightarrow> kernel \<Rightarrow> kernel" where
  "save_stack p k = upd_pcb p (\<lambda>q. q\<lparr>pcb_esp := esp k, pcb_ebp := ebp k\<rparr>) k"

text \<open>From the save of the current program to the restore of the next one.\<close>

definition resume_next :: "int \<Rightarrow> int \<Rightarrow> int \<Rightarrow> kernel \<Rightarrow> flow \<times> kernel" where
  "resume_next next_process pid vid_id k =
     (let curr = prog_curr_pid (terminals k (curr_process k)) in
      if curr = -1 then (Ret 0, k)
      else let k1 = save_stack (get_pcb_by_pid curr) k;
               k2 = change_vidmem vid_id (enable_program_page pid k1);
               k3 = set_tss pid k2;
               k4 = restore_cursor (screen_x_save (terminals k3 next_process))
                      (screen_y_save (terminals k3 next_process)) k3;
               k5 = k4\<lparr>on_screen := (if next_process = curr_ter k4 then 1 else 0)\<rparr>;
               pcb_next = pcbs k5 (get_pcb_by_pid (prog_curr_pid (terminals k5 next_process)))
        in (Ret 0, k5\<lparr>curr_process := next_process, esp := pcb_esp pcb_next, ebp := pcb_ebp pcb_next\<rparr>))"

text \<open>The shell that is started on a terminal without a program.\<close>

definition start_shell :: "int \<Rightarrow> int \<Rightarrow> kernel \<Rightarrow> (flow \<times> kernel) option" where
  "start_shell next_process vid_id k =
     (let k1 = change_vidmem vid_id (send_eoi PT_IRQ_NUM k);
          k2 = (if next_process \<noteq> 0 then save_stack (get_pcb_by_pid (curr_process k1)) k1 else k1);
          k3 = reset_cursor (k2\<lparr>curr_process := next_process\<rparr>)
      in sys_execute (shell_command k3) k3)"

definition switch_running_process :: "kernel \<Rightarrow> (flow \<times> kernel) option" where
  "switch_running_process k =
     (let next_process = (curr_process k + 1) smod 3;
          pid = prog_curr_pid (terminals k next_process);
          k1 = disable_irq KB_IRQ_NUM (k\<lparr>on_screen := 0\<rparr>);
          (vid_id, k2) = (if next_process = curr_ter k1
                          then (MAIN_VID, enable_irq KB_IRQ_NUM (k1\<lparr>on_screen := 1\<rparr>))
                          else (next_process, k1))
      in if pid = -1 then
           case start_shell next_process vid_id k2 of
             None \<Rightarrow> None
           | Some (Ret _, k3) \<Rightarrow> Some (resume_next next_process pid vid_id k3)
           | Some (other, k3) \<Rightarrow> Some (other, k3)
         else Some (resume_next next_process pid vid_id k2))"

definition PT_handler :: "kernel \<Rightarrow> (flow \<times> kernel) option" where
  "PT_handler k =
     (case switch_running_process k of
        None \<Rightarrow> None
      | Some (Ret r, k') \<Rightarrow> Some (Ret r, send_eoi PT_IRQ_NUM k')
      | Some (other, k') \<Rightarrow> Some (other, k'))"

subsection \<open>The next program\<close>

lemma next_process_cases:
  assumes "0 \<le> i" and "i < (3 :: int)"
  shows "(i + 1) smod 3 = (if i = 2 then 0 else i + 1)"
  using assms by (elim terminal_cases) (simp_all add: signed_modulo_int_def signed_divide_int_def)

text \<open>The state up to the decision: the keyboard is gated to the visible terminal.\<close>

definition gate_keyboard :: "int \<Rightarrow> kernel \<Rightarrow> kernel" where
  "gate_keyboard n k = (let k1 = disable_irq KB_IRQ_NUM (k\<lparr>on_screen := 0\<rparr>)
     in if n = curr_ter k then enable_irq KB_IRQ_NUM (k1\<lparr>on_screen := 1\<rparr>) else k1)"

lemma irq_sel [simp]:
  "terminals (enable_irq n k) = terminals k" "curr_ter (enable_irq n k) = curr_ter k"
  "terminals (disable_irq n k) = terminals k" "curr_ter (disable_irq n k) = curr_ter k"
  "curr_process (enable_irq n k) = curr_process k" "curr_process (disable_irq n k) = curr_process k"
  "pcbs (enable_irq n k) = pcbs k" "pcbs (disable_irq n k) = pcbs k"
  "esp (enable_irq n k) = esp k" "esp (disable_irq n k) = esp k" "ebp (enable_irq n k) = ebp k"
  "ebp (disable_irq n k) = ebp k" "tabs (enable_irq n k) = tabs k" "tabs (disable_irq n k) = tabs k"
  "active (enable_irq n k) = active k" "active (disable_irq n k) = active k"
  "addr_of (enable_irq n k) = addr_of k" "addr_of (disable_irq n k) = addr_of k"
  "phys (enable_irq n k) = phys k" "phys (disable_irq n k) = phys k"
  "used_pids (enable_irq n k) = used_pids k" "used_pids (disable_irq n k) = used_pids k"
  "fs (enable_irq n k) = fs k" "fs (disable_irq n k) = fs k" "fresh (enable_irq n k) = fresh k"
  "fresh (disable_irq n k) = fresh k" "screen_x (enable_irq n k) = screen_x k" "screen_x (disable_irq n k) = screen_x k"
  "screen_y (enable_irq n k) = screen_y k" "screen_y (disable_irq n k) = screen_y k"
  "on_screen (enable_irq n k) = on_screen k" "on_screen (disable_irq n k) = on_screen k"
  by (simp_all add: enable_irq_def disable_irq_def outb_def Let_def)

lemma gate_sel [simp]:
  "terminals (gate_keyboard n k) = terminals k" "curr_ter (gate_keyboard n k) = curr_ter k"
  "curr_process (gate_keyboard n k) = curr_process k" "pcbs (gate_keyboard n k) = pcbs k"
  "esp (gate_keyboard n k) = esp k" "ebp (gate_keyboard n k) = ebp k" "tabs (gate_keyboard n k) = tabs k"
  "active (gate_keyboard n k) = active k" "addr_of (gate_keyboard n k) = addr_of k" "phys (gate_keyboard n k) = phys k"
  "used_pids (gate_keyboard n k) = used_pids k" "fs (gate_keyboard n k) = fs k" "fresh (gate_keyboard n k) = fresh k"
  "screen_x (gate_keyboard n k) = screen_x k" "screen_y (gate_keyboard n k) = screen_y k"
  "on_screen (gate_keyboard n k) = (if n = curr_ter k then 1 else 0)"
  by (simp_all add: gate_keyboard_def Let_def)

lemma gate_masked: "i < 16 \<Longrightarrow> irq_masked i (gate_keyboard n k) \<longleftrightarrow> (if i = 1 then n \<noteq> curr_ter k else irq_masked i k)"
proof -
  have m: "irq_masked i (k\<lparr>on_screen := b\<rparr>) = irq_masked i k" for b k by (simp add: irq_masked_def)
  assume "i < 16"
  then show ?thesis by (auto simp: gate_keyboard_def Let_def pic.masked_enable pic.masked_disable m)
qed

text \<open>The page that the programs of a terminal see at the address of the video memory.\<close>

definition video_id :: "int \<Rightarrow> kernel \<Rightarrow> int" where
  "video_id n k = (if n = curr_ter k then MAIN_VID else n)"

lemma switch_eq:
  fixes k :: kernel
  defines "n \<equiv> (curr_process k + 1) smod 3"
  shows "switch_running_process k =
    (let pid = prog_curr_pid (terminals k n); k2 = gate_keyboard n k in
     if pid = -1 then
       case start_shell n (video_id n k) k2 of
         None \<Rightarrow> None
       | Some (Ret _, k3) \<Rightarrow> Some (resume_next n pid (video_id n k) k3)
       | Some (other, k3) \<Rightarrow> Some (other, k3)
     else Some (resume_next n pid (video_id n k) k2))"
  unfolding switch_running_process_def n_def [symmetric] gate_keyboard_def video_id_def Let_def
  by (cases "n = curr_ter k") simp_all

lemma vid_page_screen:
  assumes "0 \<le> n" and "n < 3"
  shows "vid_page (change_vidmem (video_id n k) k') = (if n = curr_ter k then VIDEO else backing n)"
  using vid_page_change [OF assms] vid_page_main by (simp add: video_id_def)

lemma change_program_commute:
  "change_vidmem v (enable_program_page n k) = enable_program_page n (change_vidmem v k)"
  by (cases "active k") (simp_all add: change_vidmem_def enable_program_page_def kdefs Let_def)

lemma change_vidmem_more [simp]:
  "pcbs (change_vidmem v k) = pcbs k" "used_pids (change_vidmem v k) = used_pids k" "esp (change_vidmem v k) = esp k"
  "ebp (change_vidmem v k) = ebp k" "fs (change_vidmem v k) = fs k" "fresh (change_vidmem v k) = fresh k"
  "master_mask (change_vidmem v k) = master_mask k" "slave_mask (change_vidmem v k) = slave_mask k"
  "outs (change_vidmem v k) = outs k"
  by (simp_all add: change_vidmem_def flush_TLB_def Let_def split: option.split)

lemma enable_program_page_more [simp]:
  "outs (enable_program_page n k) = outs k"
  by (simp_all add: enable_program_page_def flush_TLB_def Let_def split: option.split)

text \<open>The machine runs the program in slot \<open>pid\<close> on terminal \<open>n\<close>.\<close>

definition running :: "int \<Rightarrow> int \<Rightarrow> kernel \<Rightarrow> bool" where
  "running n pid k \<longleftrightarrow> curr_process k = n \<and> paging_ok k \<and> vid_page k = screen_page k n \<and>
     maps_range k 0x08048000 (prog_page pid + 0x48000) 0x3B8000 \<and>
     ss0 (tss k) = 0x18 \<and> esp0 (tss k) = 0x800000 - 4 - word_of_int pid * 0x2000 \<and>
     on_screen k = (if n = curr_ter k then 1 else 0) \<and>
     screen_x k = screen_x_save (terminals k n) \<and> screen_y k = screen_y_save (terminals k n)"

lemma resume_next_eq:
  fixes k :: kernel and n pid :: int
  assumes "paging_ok k" and "0 \<le> n" "n < 3" and "0 \<le> pid" "pid < 6"
    and "prog_curr_pid (terminals k n) = pid" and "prog_curr_pid (terminals k (curr_process k)) \<noteq> -1"
  defines "p \<equiv> get_pcb_by_pid (prog_curr_pid (terminals k (curr_process k)))"
  shows "\<exists>k'. resume_next n pid (video_id n k) k = (Ret 0, k') \<and> running n pid k' \<and>
    pcbs k' = (pcbs k)(p := (pcbs k p)\<lparr>pcb_esp := esp k, pcb_ebp := ebp k\<rparr>) \<and>
    esp k' = pcb_esp (pcbs k' (get_pcb_by_pid pid)) \<and> ebp k' = pcb_ebp (pcbs k' (get_pcb_by_pid pid)) \<and>
    terminals k' = terminals k \<and> curr_ter k' = curr_ter k \<and> phys k' = phys k \<and> used_pids k' = used_pids k \<and>
    master_mask k' = master_mask k \<and> slave_mask k' = slave_mask k \<and> outs k' = outs k \<and> fs k' = fs k"
proof -
  let ?k1 = "save_stack p k"
  let ?k2 = "change_vidmem (video_id n k) (enable_program_page pid ?k1)"
  obtain k' where k': "resume_next n pid (video_id n k) k = (Ret 0, k')"
    using assms(7) by (simp add: resume_next_def Let_def)
  note sel = save_stack_def upd_pcb_def set_tss_def restore_cursor_def
  have r: "k' = (restore_cursor (screen_x_save (terminals k n)) (screen_y_save (terminals k n)) (set_tss pid ?k2))
      \<lparr>on_screen := (if n = curr_ter k then 1 else 0), curr_process := n,
       esp := pcb_esp (pcbs ?k1 (get_pcb_by_pid pid)), ebp := pcb_ebp (pcbs ?k1 (get_pcb_by_pid pid))\<rparr>"
    using k' assms(6,7) by (simp add: resume_next_def p_def [symmetric] Let_def sel)
  have ok1: "paging_ok ?k1" using assms(1) paging_ok_cong [of ?k1 k] by (simp add: sel)
  have v: "-1 \<le> video_id n k" "video_id n k < 3" using assms(2,3) by (simp_all add: video_id_def)
  have ok2: "paging_ok ?k2" using ok1 v by (intro change_vidmem_ok enable_program_page_ok)
  have t: "tabs k' = tabs ?k2" "active k' = active ?k2" "addr_of k' = addr_of ?k2"
    by (simp_all add: r restore_cursor_def)
  have "maps_range ?k2 0x08048000 (prog_page pid + 0x48000) 0x3B8000"
    unfolding change_program_commute using ok1 v assms(4,5) by (intro maps_program change_vidmem_ok) simp_all
  then have "maps_range k' 0x08048000 (prog_page pid + 0x48000) 0x3B8000"
    using paddr_cong [of k' ?k2] t by (simp add: maps_range_def)
  moreover have "vid_page k' = screen_page k' n"
    using vid_page_screen [OF assms(2,3)] vid_page_cong [of k' ?k2] t(1) by (simp add: screen_page_def r sel)
  moreover have "paging_ok k'" using ok2 paging_ok_cong [of k' ?k2] t by simp
  ultimately have "running n pid k'" by (simp add: running_def r sel)
  then show ?thesis using k' by (intro exI [of _ k']) (simp add: r sel)
qed

lemma send_eoi_sel [simp]:
  "terminals (send_eoi n k) = terminals k" "curr_ter (send_eoi n k) = curr_ter k"
  "curr_process (send_eoi n k) = curr_process k" "pcbs (send_eoi n k) = pcbs k" "esp (send_eoi n k) = esp k"
  "ebp (send_eoi n k) = ebp k" "tabs (send_eoi n k) = tabs k" "active (send_eoi n k) = active k"
  "addr_of (send_eoi n k) = addr_of k" "phys (send_eoi n k) = phys k" "used_pids (send_eoi n k) = used_pids k"
  "master_mask (send_eoi n k) = master_mask k" "slave_mask (send_eoi n k) = slave_mask k" "tss (send_eoi n k) = tss k"
  "on_screen (send_eoi n k) = on_screen k" "screen_x (send_eoi n k) = screen_x k" "screen_y (send_eoi n k) = screen_y k"
  "fs (send_eoi n k) = fs k" "fresh (send_eoi n k) = fresh k"
  by (simp_all add: send_eoi_def outb_def)

lemma running_eoi: "running n pid (send_eoi i k) = running n pid k"
  using paging_ok_cong [of "send_eoi i k" k] vid_page_cong [of "send_eoi i k" k] paddr_cong [of "send_eoi i k" k]
  by (simp add: running_def maps_range_def screen_page_def)

abbreviation (input) next_terminal :: "int \<Rightarrow> int" where
  "next_terminal i \<equiv> (if i = 2 then 0 else i + 1)"

lemma PT_handler_eq:
  fixes k :: kernel
  assumes "paging_ok k" and s: "curr_process k = s" "0 \<le> s" "s < 3" and "next_terminal s = n"
    and "prog_curr_pid (terminals k s) = c" "c \<noteq> -1" and "prog_curr_pid (terminals k n) = pid" "0 \<le> pid" "pid < 6"
  shows "\<exists>k'. PT_handler k = Some (Ret 0, k') \<and> running n pid k' \<and>
    pcbs k' = (pcbs k)(get_pcb_by_pid c := (pcbs k (get_pcb_by_pid c))\<lparr>pcb_esp := esp k, pcb_ebp := ebp k\<rparr>) \<and>
    esp k' = pcb_esp (pcbs k' (get_pcb_by_pid pid)) \<and> ebp k' = pcb_ebp (pcbs k' (get_pcb_by_pid pid)) \<and>
    terminals k' = terminals k \<and> curr_ter k' = curr_ter k \<and> phys k' = phys k \<and> used_pids k' = used_pids k \<and> fs k' = fs k \<and>
    (\<forall>i < 16. irq_masked i k' \<longleftrightarrow> (if i = 1 then n \<noteq> curr_ter k else irq_masked i k))"
proof -
  let ?g = "gate_keyboard n k"
  have nn: "(curr_process k + 1) smod 3 = n" using next_process_cases [OF s(2,3)] assms(5) s(1) by simp
  have n: "0 \<le> n" "n < 3" using s(2,3) assms(5) by auto
  have ok: "paging_ok ?g" using assms(1) paging_ok_cong [of ?g k] by simp
  have vid: "video_id n ?g = video_id n k" by (simp add: video_id_def)
  obtain k' where k': "resume_next n pid (video_id n k) ?g = (Ret 0, k')" "running n pid k'"
    "pcbs k' = (pcbs k)(get_pcb_by_pid c := (pcbs k (get_pcb_by_pid c))\<lparr>pcb_esp := esp k, pcb_ebp := ebp k\<rparr>)"
    "esp k' = pcb_esp (pcbs k' (get_pcb_by_pid pid))" "ebp k' = pcb_ebp (pcbs k' (get_pcb_by_pid pid))"
    "terminals k' = terminals k" "curr_ter k' = curr_ter k" "phys k' = phys k" "used_pids k' = used_pids k"
    "master_mask k' = master_mask ?g" "slave_mask k' = slave_mask ?g" "fs k' = fs k"
    using resume_next_eq [OF ok n assms(9,10), unfolded vid gate_sel s(1) assms(6)] assms(7,8) by blast
  have "pid \<noteq> -1" using assms(9) by simp
  then have "PT_handler k = Some (Ret 0, send_eoi 0 k')"
    using k'(1) by (simp add: PT_handler_def switch_eq nn assms(8) Let_def)
  moreover have "irq_masked i (send_eoi 0 k') = irq_masked i ?g" for i
    using k'(10,11) by (simp add: irq_masked_def)
  ultimately show ?thesis
    using k' gate_masked [of _ n k] by (intro exI [of _ "send_eoi 0 k'"]) (simp add: running_eoi)
qed

text \<open>
  What the other programs may do between two timer interrupts without disturbing the program of
  terminal \<open>t\<close>: they may start and end programs on their own terminal and write memory, but
  they do not use its slot and leave its saved stack alone.
\<close>

definition undisturbed :: "int \<Rightarrow> kernel \<Rightarrow> kernel \<Rightarrow> bool" where
  "undisturbed t k k' \<longleftrightarrow> paging_ok k' \<and> curr_process k' = curr_process k \<and>
     (\<forall>s. s \<noteq> curr_process k \<longrightarrow> prog_curr_pid (terminals k' s) = prog_curr_pid (terminals k s)) \<and>
     (let c = prog_curr_pid (terminals k' (curr_process k)); p = prog_curr_pid (terminals k t)
      in 0 \<le> c \<and> c < 6 \<and> c \<noteq> p \<and> pcb_esp (pcbs k' (get_pcb_by_pid p)) = pcb_esp (pcbs k (get_pcb_by_pid p)) \<and>
         pcb_ebp (pcbs k' (get_pcb_by_pid p)) = pcb_ebp (pcbs k (get_pcb_by_pid p)))"

lemma undisturbedD:
  assumes "undisturbed t k k'"
  shows "paging_ok k'" "curr_process k' = curr_process k"
    "s \<noteq> curr_process k \<Longrightarrow> prog_curr_pid (terminals k' s) = prog_curr_pid (terminals k s)"
    "0 \<le> prog_curr_pid (terminals k' (curr_process k))" "prog_curr_pid (terminals k' (curr_process k)) < 6"
    "prog_curr_pid (terminals k' (curr_process k)) \<noteq> prog_curr_pid (terminals k t)"
    "pcb_esp (pcbs k' (get_pcb_by_pid (prog_curr_pid (terminals k t)))) =
       pcb_esp (pcbs k (get_pcb_by_pid (prog_curr_pid (terminals k t))))"
    "pcb_ebp (pcbs k' (get_pcb_by_pid (prog_curr_pid (terminals k t)))) =
       pcb_ebp (pcbs k (get_pcb_by_pid (prog_curr_pid (terminals k t))))"
  using assms unfolding undisturbed_def Let_def by blast+

text \<open>A tick in another program leaves a saved stack alone, and uses it when its turn comes.\<close>

lemma tick_elsewhere:
  fixes k :: kernel and t :: int
  assumes "paging_ok k" and "curr_process k = s" "0 \<le> s" "s < 3" and "next_terminal s = n"
    and "prog_curr_pid (terminals k s) = c" "0 \<le> c" "c < 6" and "prog_curr_pid (terminals k n) = pid" "0 \<le> pid" "pid < 6"
    and "prog_curr_pid (terminals k t) = p" "0 \<le> p" "p < 6" and "c \<noteq> p"
  shows "\<exists>k'. PT_handler k = Some (Ret 0, k') \<and> running n pid k' \<and> curr_process k' = n \<and> terminals k' = terminals k \<and>
    pcb_esp (pcbs k' (get_pcb_by_pid p)) = pcb_esp (pcbs k (get_pcb_by_pid p)) \<and>
    pcb_ebp (pcbs k' (get_pcb_by_pid p)) = pcb_ebp (pcbs k (get_pcb_by_pid p)) \<and>
    (n = t \<longrightarrow> esp k' = pcb_esp (pcbs k (get_pcb_by_pid p)) \<and> ebp k' = pcb_ebp (pcbs k (get_pcb_by_pid p)))"
proof -
  have "c \<noteq> -1" using assms(7) by simp
  from PT_handler_eq [OF assms(1-6) this assms(9-11)]
  obtain k' where k': "PT_handler k = Some (Ret 0, k')" "running n pid k'" "terminals k' = terminals k"
    "pcbs k' = (pcbs k)(get_pcb_by_pid c := (pcbs k (get_pcb_by_pid c))\<lparr>pcb_esp := esp k, pcb_ebp := ebp k\<rparr>)"
    "esp k' = pcb_esp (pcbs k' (get_pcb_by_pid pid))" "ebp k' = pcb_ebp (pcbs k' (get_pcb_by_pid pid))"
    by blast
  have "get_pcb_by_pid c \<noteq> get_pcb_by_pid p" using assms by (simp add: pcb_inj)
  then have "pcbs k' (get_pcb_by_pid p) = pcbs k (get_pcb_by_pid p)" by (simp add: k'(4))
  moreover have "n = t \<Longrightarrow> pid = p" using assms(9,12) by simp
  ultimately show ?thesis using k'(1-3,5,6) by (intro exI [of _ k']) (simp add: running_def)
qed

subsection \<open>Properties\<close>

text \<open>
  C9. A timer interrupt moves to the program of the next terminal: the stack of the interrupted
  program is saved in its block and nothing else of any block changes; afterwards the machine runs
  the next program, with its stack, its memory at the program address, its kernel stack in the
  TSS, its cursor, and the video address leading to the visible screen exactly if its terminal
  is shown and to the page kept for its terminal otherwise; the keyboard line is open exactly if
  its terminal is shown, no other line changes, and no byte of memory is written.
\<close>

theorem timer_switches:
  fixes k :: kernel
  defines "n \<equiv> (if curr_process k = 2 then 0 else curr_process k + 1)"
  defines "c \<equiv> prog_curr_pid (terminals k (curr_process k))" and "pid \<equiv> prog_curr_pid (terminals k n)"
  assumes "paging_ok k" and "0 \<le> curr_process k" "curr_process k < 3" and "0 \<le> pid" "pid < 6" and "c \<noteq> -1"
  shows "\<exists>k'. PT_handler k = Some (Ret 0, k') \<and> running n pid k' \<and>
    pcbs k' = (pcbs k)(get_pcb_by_pid c := (pcbs k (get_pcb_by_pid c))\<lparr>pcb_esp := esp k, pcb_ebp := ebp k\<rparr>) \<and>
    esp k' = pcb_esp (pcbs k' (get_pcb_by_pid pid)) \<and> ebp k' = pcb_ebp (pcbs k' (get_pcb_by_pid pid)) \<and>
    terminals k' = terminals k \<and> curr_ter k' = curr_ter k \<and> phys k' = phys k \<and> used_pids k' = used_pids k \<and> fs k' = fs k \<and>
    (\<forall>i < 16. irq_masked i k' \<longleftrightarrow> (if i = 1 then n \<noteq> curr_ter k else irq_masked i k))"
  by (rule PT_handler_eq) (use assms in auto)

text \<open>
  The scheduler is fair and loses nothing: with a program on each of the three terminals, in
  different slots, the program that a timer interrupt stops runs again after exactly two more timer
  interrupts, on the same stack with its own memory and screen, whatever the other two
  programs do in between, as long as they leave its slot alone.
\<close>

lemma round_robin:
  fixes k :: kernel
  defines "t \<equiv> curr_process k" and "pid \<equiv> \<lambda>s. prog_curr_pid (terminals k s)"
  assumes "paging_ok k" and "0 \<le> t" "t < 3" and "\<forall>s. 0 \<le> s \<and> s < 3 \<longrightarrow> 0 \<le> pid s \<and> pid s < 6"
    and "\<forall>s. 0 \<le> s \<and> s < 3 \<and> s \<noteq> t \<longrightarrow> pid s \<noteq> pid t"
  shows "\<exists>k1. PT_handler k = Some (Ret 0, k1) \<and> curr_process k1 \<noteq> t \<and>
    (\<forall>k1'. undisturbed t k1 k1' \<longrightarrow> (\<exists>k2. PT_handler k1' = Some (Ret 0, k2) \<and> curr_process k2 \<noteq> t \<and>
    (\<forall>k2'. undisturbed t k2 k2' \<longrightarrow> (\<exists>k3. PT_handler k2' = Some (Ret 0, k3) \<and>
      running t (pid t) k3 \<and> esp k3 = esp k \<and> ebp k3 = ebp k))))"
proof -
  define n m where nm_def: "n = next_terminal t" "m = next_terminal n"
  have nm: "0 \<le> n" "n < 3" "n \<noteq> t" "0 \<le> m" "m < 3" "m \<noteq> t" "m \<noteq> n" "next_terminal m = t"
    using assms(4,5) by (auto simp: nm_def)
  define p where "p = get_pcb_by_pid (pid t)"
  have pids: "0 \<le> pid s" "pid s < 6" "pid s \<noteq> -1" if "0 \<le> s" "s < 3" for s
    using assms(6) that by fastforce+
  note pt = pids [OF assms(4,5)]
  have e: "prog_curr_pid (terminals k s) = pid s" for s by (simp add: pid_def)
  obtain k1 where k1: "PT_handler k = Some (Ret 0, k1)" "curr_process k1 = n" "terminals k1 = terminals k"
    "pcb_esp (pcbs k1 p) = esp k" "pcb_ebp (pcbs k1 p) = ebp k"
    using PT_handler_eq [OF assms(3) meta_eq_to_obj_eq [OF t_def [symmetric]] assms(4,5) nm_def(1) [symmetric] e pt(3) e pids(1,2) [OF nm(1,2)]]
    by (auto simp: running_def p_def)
  have first: "\<exists>k2. PT_handler k1' = Some (Ret 0, k2) \<and> curr_process k2 = m \<and>
      prog_curr_pid (terminals k2 t) = pid t \<and> pcb_esp (pcbs k2 p) = esp k \<and> pcb_ebp (pcbs k2 p) = ebp k"
    if "undisturbed t k1 k1'" for k1'
  proof -
    note u = undisturbedD [OF that, unfolded k1(2,3) e]
    note ut = u(3) [OF nm(3) [symmetric]]
    from tick_elsewhere [OF u(1,2) nm(1,2) nm_def(2) [symmetric] refl u(4,5) u(3) [OF nm(7)]
        pids(1,2) [OF nm(4,5)] ut pt(1,2) u(6), folded p_def]
    show ?thesis using ut u(7,8) k1(4,5) unfolding p_def by auto
  qed
  have second: "\<exists>k3. PT_handler k2' = Some (Ret 0, k3) \<and> running t (pid t) k3 \<and> esp k3 = esp k \<and> ebp k3 = ebp k"
    if "undisturbed t k2 k2'" "curr_process k2 = m" "prog_curr_pid (terminals k2 t) = pid t"
      "pcb_esp (pcbs k2 p) = esp k" "pcb_ebp (pcbs k2 p) = ebp k" for k2 k2'
  proof -
    note u = undisturbedD [OF that(1), unfolded that(2,3)]
    note ut = u(3) [OF nm(6) [symmetric], unfolded that(3)]
    from tick_elsewhere [OF u(1,2) nm(4,5,8) refl u(4,5) ut pt(1,2) ut pt(1,2) u(6)]
    show ?thesis using u(7,8) that(4,5) unfolding p_def by auto
  qed
  show ?thesis
    using k1(1,2) nm(3) first second nm(6) by (intro exI [of _ k1]) metis
qed


definition demo_three :: kernel where
  "demo_three = (init_paging boot_kernel)\<lparr>terminals := (\<lambda>t. zero_terminal\<lparr>prog_curr_pid := t\<rparr>),
     pcbs := (\<lambda>p. zero_pcb\<lparr>pcb_esp := p + 0x1F00\<rparr>), esp := 0x7FFE00\<rparr>"

lemma demo_three_sel:
  "paging_ok demo_three" "curr_process demo_three = 0" "prog_curr_pid (terminals demo_three t) = t"
  "pcbs demo_three p = zero_pcb\<lparr>pcb_esp := p + 0x1F00\<rparr>" "curr_ter demo_three = 0" "esp demo_three = 0x7FFE00"
  using boot_paging_ok paging_ok_cong [of demo_three "init_paging boot_kernel"]
  by (simp_all add: demo_three_def boot_kernel_def)

theorem timer_switches_witness:
  "\<exists>k'. PT_handler demo_three = Some (Ret 0, k') \<and> curr_process k' = 1 \<and> esp k' = 0x7FDF00 \<and>
     irq_masked 1 k' \<and> vid_page k' = 0xBA000"
proof -
  have p: "get_pcb_by_pid 0 = 0x7FE000" "get_pcb_by_pid 1 = 0x7FC000" by (simp_all add: get_pcb_by_pid_def)
  show ?thesis
    using timer_switches [of demo_three] demo_three_sel(1)
    by (auto simp: demo_three_sel(2-6) running_def screen_page_def backing_def p zero_pcb_def dest!: spec [of _ "1 :: nat"])
qed

subsection \<open>The first shells\<close>

text \<open>
  The image holds an executable with the given name: its directory and the file lie in the
  kernel's page, where every program's page tables show them alike.
\<close>

definition dir_in_kernel :: "fs_globals \<Rightarrow> bool" where
  "dir_in_kernel g \<longleftrightarrow> 0 \<le> sint (num_dir_entries g) \<and>
     (\<forall>i < nat (sint (num_dir_entries g)). \<forall>j < 64. kernel_addr (dentry_addr g i + of_nat j))"

definition runnable :: "kernel \<Rightarrow> u8 list \<Rightarrow> nat \<Rightarrow> bool" where
  "runnable k name i \<longleftrightarrow> dir_in_kernel (fs k) \<and> lookup (vmem k) (fs k) name = Some i \<and>
     exe_inode k i < num_inodes (fs k) \<and> file_in_kernel (vmem k) (fs k) (exe_inode k i) \<and>
     (let bs = file_contents (vmem k) (fs k) (exe_inode k i)
      in take 4 bs = ELF_MAGIC \<and> 28 \<le> length bs \<and> length bs \<le> 0x3B8000)"

lemma dentry_name_agree:
  assumes "\<And>a. kernel_addr a \<Longrightarrow> m' a = m a" and "dir_in_kernel g" and "i < nat (sint (num_dir_entries g))"
  shows "dentry_name m' g i = dentry_name m g i"
proof -
  have "\<forall>j < 64. kernel_addr (dentry_addr g i + of_nat j)" using assms(2,3) by (simp add: dir_in_kernel_def)
  then have "bytes (view_of m' (dentry_addr g i)) 32 = bytes (view_of m (dentry_addr g i)) 32"
    by (simp add: bytes_eq_iff view_of_def assms(1))
  then show ?thesis by (simp add: dentry_name_def cprefix_def)
qed

lemma find_agree: "(\<And>x. x \<in> set xs \<Longrightarrow> P x = Q x) \<Longrightarrow> find P xs = find Q xs"
  by (induction xs) auto

lemma lookup_agree:
  assumes "\<And>a. kernel_addr a \<Longrightarrow> m' a = m a" and "dir_in_kernel g"
  shows "lookup m' g name = lookup m g name"
  unfolding lookup_def by (rule find_agree) (use dentry_name_agree [OF assms] in simp)

lemma lookup_bound: "lookup m g name = Some i \<Longrightarrow> i < nat (sint (num_dir_entries g))"
  by (auto simp: lookup_def find_Some_iff)

lemma exe_inode_agree:
  assumes "\<And>a. kernel_addr a \<Longrightarrow> vmem k' a = vmem k a" and "fs k' = fs k"
    and "dir_in_kernel (fs k)" and "i < nat (sint (num_dir_entries (fs k)))"
  shows "exe_inode k' i = exe_inode k i"
proof -
  have d: "kernel_addr (dentry_addr (fs k) i + of_nat j)" if "j < 64" for j
    using assms(3,4) that by (simp add: dir_in_kernel_def)
  have "kernel_addr (dentry_addr (fs k) i + 36)" "kernel_addr (dentry_addr (fs k) i + 37)"
    "kernel_addr (dentry_addr (fs k) i + 38)" "kernel_addr (dentry_addr (fs k) i + 39)"
    using d [of 36] d [of 37] d [of 38] d [of 39] by simp_all
  then show ?thesis
    by (simp add: exe_inode_def de_inode_num_def view_u32_def load_struct_def view_of_def assms(1,2))
qed

lemma file_in_kernel_agree:
  assumes m: "\<And>a. kernel_addr a \<Longrightarrow> m' a = m a" and f: "file_in_kernel m g i"
  shows "file_in_kernel m' g i"
proof -
  let ?node = "inode_addr g i"
  have sz: "file_size m' g i = file_size m g i"
    using f u32_at_agree [of m' m, OF m] by (simp add: file_in_kernel_def file_size_def length_in_bytes_def Let_def)
  have "data_block_addr m' g ?node (of_nat (b div 4096)) = data_block_addr m g ?node (of_nat (b div 4096))"
    if "b < file_size m g i" for b
    using f that u32_at_agree [of m' m, OF m]
    by (simp add: file_in_kernel_def data_block_addr_def data_block_indices_def Let_def)
  then show ?thesis using f sz by (simp add: file_in_kernel_def Let_def)
qed

lemma runnable_agree:
  assumes "runnable k name i" and "paging_ok k" and "paging_ok k'" and "fs k' = fs k"
    and "\<And>a. kernel_addr a \<Longrightarrow> phys k' a = phys k a"
  shows "runnable k' name i"
proof -
  have m: "vmem k' a = vmem k a" if "kernel_addr a" for a
    using vmem_kernel [OF assms(2) that] vmem_kernel [OF assms(3) that] assms(5) [OF that] by simp
  have r: "dir_in_kernel (fs k)" "lookup (vmem k) (fs k) name = Some i" "file_in_kernel (vmem k) (fs k) (exe_inode k i)"
    using assms(1) by (simp_all add: runnable_def)
  show ?thesis
    using assms(1) lookup_agree [of "vmem k'" "vmem k", OF m r(1)] exe_inode_agree [OF m assms(4) r(1) lookup_bound [OF r(2)]]
      file_in_kernel_agree [of "vmem k'" "vmem k", OF m r(3)] file_contents_agree [of "vmem k'" "vmem k", OF m r(3)]
    by (simp add: runnable_def assms(4))
qed

lemma shell_command_name: "command_name (shell_command k) = map of_char ''shell''"
proof -
  have "[0..<32] = [0, 1, 2, 3, 4, 5] @ [6..<32]" by code_simp
  then show ?thesis by (simp add: command_name_def bytes_def shell_command_def lit_def blank_def)
qed

lemma runnable_runs:
  fixes k :: kernel
  assumes "runnable k (command_name c) i" and "command_name c \<noteq> []" and "paging_ok k" and "cursor_ok k"
    and "vid_page k < 0x400000" and "get_new_pid k = n" and "n \<noteq> ERROR"
  defines "p \<equiv> get_pcb_by_pid n"
  shows "\<exists>e k'. sys_execute c k = Some (Enter e, k') \<and> 0 \<le> n \<and> n < 6 \<and> used_pids k n = 0 \<and> used_pids k' = (used_pids k)(n := 1) \<and>
    esp0 (tss k') = 0x800000 - 4 - word_of_int n * 0x2000 \<and> prog_curr_pid (terminals k' (curr_process k)) = n \<and>
    maps_range k' 0x08048000 (prog_page n + 0x48000) 0x3B8000 \<and> paging_ok k' \<and> exec_frame n k k' \<and>
    pcb_pid (pcbs k' p) = n \<and> par_pcb_ptr (pcbs k' p) = get_curr_pcb k \<and> par_pid (pcbs k' p) = par_pid (new_block n k) \<and>
    block_ok (pcbs k' p) \<and> (\<forall>j. 0 \<le> j \<and> j < 8 \<longrightarrow> (enabled (fdt (pcbs k' p) j) \<longleftrightarrow> j < 2)) \<and> (\<forall>q. q \<noteq> p \<longrightarrow> pcbs k' q = pcbs k q)"
proof -
  have r: "0 \<le> sint (num_dir_entries (fs k))" "lookup (vmem k) (fs k) (command_name c) = Some i"
    using assms(1) by (simp_all add: runnable_def dir_in_kernel_def)
  show ?thesis
    using sys_execute_runs [OF assms(3-5,2) r] assms(1,6,7) get_new_pid_range [of k] new_process_ok
    unfolding runnable_def Let_def p_def by blast
qed

text \<open>The state in which the handler starts a shell on terminal \<open>n\<close>.\<close>

definition shell_state :: "int \<Rightarrow> kernel \<Rightarrow> kernel" where
  "shell_state n k =
     (let k1 = change_vidmem (video_id n k) (send_eoi PT_IRQ_NUM (gate_keyboard n k));
          k2 = (if n \<noteq> 0 then save_stack (get_pcb_by_pid (curr_process k1)) k1 else k1)
      in reset_cursor (k2\<lparr>curr_process := n\<rparr>))"

lemma start_shell_eq: "start_shell n (video_id n k) (gate_keyboard n k) = sys_execute (shell_command (shell_state n k)) (shell_state n k)"
  by (simp add: start_shell_def shell_state_def Let_def)

lemma reset_cursor_sel [simp]:
  "tabs (reset_cursor k) = tabs k" "active (reset_cursor k) = active k" "addr_of (reset_cursor k) = addr_of k"
  "phys (reset_cursor k) = phys k" "fs (reset_cursor k) = fs k" "fresh (reset_cursor k) = fresh k"
  "used_pids (reset_cursor k) = used_pids k" "curr_process (reset_cursor k) = curr_process k"
  "curr_ter (reset_cursor k) = curr_ter k" "master_mask (reset_cursor k) = master_mask k"
  "slave_mask (reset_cursor k) = slave_mask k" "cursor_ok (reset_cursor k)"
  "prog_curr_pid (terminals (reset_cursor k) t) = prog_curr_pid (terminals k t)"
  "term_ok (terminals (reset_cursor k) t) = term_ok (terminals k t)"
  "saved_in (terminals k t) \<Longrightarrow> saved_in (terminals (reset_cursor k) t)"
  by (simp_all add: reset_cursor_def save_cursor_def upd_terminal_def cursor_ok_def term_ok_def saved_in_def)

lemma save_stack_sel [simp]:
  "tabs (save_stack p k) = tabs k" "active (save_stack p k) = active k" "addr_of (save_stack p k) = addr_of k"
  "phys (save_stack p k) = phys k" "fs (save_stack p k) = fs k" "fresh (save_stack p k) = fresh k"
  "used_pids (save_stack p k) = used_pids k" "curr_ter (save_stack p k) = curr_ter k"
  "terminals (save_stack p k) = terminals k" "master_mask (save_stack p k) = master_mask k"
  "slave_mask (save_stack p k) = slave_mask k"
  by (simp_all add: save_stack_def upd_pcb_def)

lemma shell_state_sel:
  fixes k :: kernel and n :: int
  defines "s \<equiv> shell_state n k"
  assumes "paging_ok k" and "0 \<le> n" and "n < 3"
  shows "paging_ok s" "cursor_ok s" "vid_page s = screen_page k n" "vid_page s < 0x400000" "phys s = phys k"
    "fs s = fs k" "used_pids s = used_pids k" "curr_process s = n" "curr_ter s = curr_ter k"
    "prog_curr_pid (terminals s t) = prog_curr_pid (terminals k t)"
    "term_ok (terminals s t) = term_ok (terminals k t)" "saved_in (terminals k t) \<Longrightarrow> saved_in (terminals s t)"
    "i < 16 \<Longrightarrow> irq_masked i s \<longleftrightarrow> (if i = 1 then n \<noteq> curr_ter k else irq_masked i k)"
proof -
  let ?g = "send_eoi 0 (gate_keyboard n k)"
  let ?v = "change_vidmem (video_id n k) ?g"
  have t: "tabs s = tabs ?v" "active s = active ?v" "addr_of s = addr_of ?v"
    by (simp_all add: s_def shell_state_def Let_def)
  have "paging_ok ?g" using assms(2) paging_ok_cong [of ?g k] by simp
  then have "paging_ok ?v" using assms(3,4) by (intro change_vidmem_ok) (simp_all add: video_id_def)
  then show "paging_ok s" using paging_ok_cong [of s ?v] t by simp
  show v: "vid_page s = screen_page k n"
    using vid_page_screen [OF assms(3,4)] vid_page_cong [of s ?v] t(1) by (simp add: screen_page_def)
  have "backing n < 0x400000" using assms(3,4) by (elim terminal_cases) (simp_all add: backing_def)
  then show "vid_page s < 0x400000" unfolding v by (simp add: screen_page_def)
  show "irq_masked i s \<longleftrightarrow> (if i = 1 then n \<noteq> curr_ter k else irq_masked i k)" if "i < 16"
  proof -
    have "irq_masked i s = irq_masked i (gate_keyboard n k)" by (simp add: irq_masked_def s_def shell_state_def Let_def)
    with gate_masked [of i n k] that show ?thesis by simp
  qed
qed (simp_all add: s_def shell_state_def Let_def)

lemma stack_idem: "\<exists>s b. (q :: pcb) = q\<lparr>pcb_esp := s, pcb_ebp := b\<rparr>"
  by (intro exI [of _ "pcb_esp q"] exI [of _ "pcb_ebp q"]) simp

lemma shell_state_blocks: "\<exists>s b. pcbs (shell_state n k) q = (pcbs k q)\<lparr>pcb_esp := s, pcb_ebp := b\<rparr>"
  using stack_idem
  by (cases "n = 0") (auto simp: shell_state_def save_stack_def upd_pcb_def reset_cursor_def save_cursor_def Let_def)

lemma shell_start:
  fixes k :: kernel
  assumes "paging_ok k" and s: "curr_process k = s" "0 \<le> s" "s < 3" and "next_terminal s = n"
    and "prog_curr_pid (terminals k n) = -1" and "runnable k (map of_char ''shell'') i"
    and "get_new_pid k = p" "p \<noteq> ERROR"
  shows "\<exists>e k'. PT_handler k = Some (Enter e, k') \<and> curr_process k' = n \<and> prog_curr_pid (terminals k' n) = p \<and>
    (\<forall>t. t \<noteq> n \<longrightarrow> prog_curr_pid (terminals k' t) = prog_curr_pid (terminals k t)) \<and>
    used_pids k' = (used_pids k)(p := 1) \<and> curr_ter k' = curr_ter k \<and> fs k' = fs k \<and>
    vid_page k' = screen_page k' n \<and> maps_range k' 0x08048000 (prog_page p + 0x48000) 0x3B8000 \<and>
    esp0 (tss k') = 0x800000 - 4 - word_of_int p * 0x2000 \<and> paging_ok k' \<and> cursor_ok k' \<and>
    (\<forall>t. term_ok (terminals k' t) = term_ok (terminals k t)) \<and> 0 \<le> p \<and> p < 6 \<and>
    ((\<forall>t. saved_in (terminals k t)) \<longrightarrow> (\<forall>t. saved_in (terminals k' t))) \<and>
    (\<forall>i < 16. irq_masked i k' \<longleftrightarrow> (if i = 1 then n \<noteq> curr_ter k else irq_masked i k)) \<and>
    (\<forall>a. kernel_addr a \<longrightarrow> phys k' a = phys k a) \<and>
    pcb_pid (pcbs k' (get_pcb_by_pid p)) = p \<and> (p < 3 \<longrightarrow> par_pid (pcbs k' (get_pcb_by_pid p)) = p) \<and>
    block_ok (pcbs k' (get_pcb_by_pid p)) \<and>
    (\<forall>q. q \<noteq> get_pcb_by_pid p \<longrightarrow> (\<exists>s b. pcbs k' q = (pcbs k q)\<lparr>pcb_esp := s, pcb_ebp := b\<rparr>))"
proof -
  let ?s = "shell_state n k"
  have n: "0 \<le> n" "n < 3" using s(2,3) assms(5) by auto
  note sel = shell_state_sel [OF assms(1) n]
  have nn: "(curr_process k + 1) smod 3 = n" using next_process_cases [OF s(2,3)] assms(5) s(1) by simp
  have r: "runnable ?s (command_name (shell_command ?s)) i"
    unfolding shell_command_name by (rule runnable_agree [OF assms(7,1) sel(1,6)]) (simp add: sel)
  have p: "get_new_pid ?s = p" using assms(8) by (simp add: get_new_pid_def sel)
  have "command_name (shell_command ?s) \<noteq> []" by (simp add: shell_command_name)
  from runnable_runs [OF r this sel(1,2,4) p assms(9), unfolded sel(7,8)] obtain e k' where k': "sys_execute (shell_command ?s) ?s = Some (Enter e, k')"
    "used_pids k' = (used_pids k)(p := 1)" "esp0 (tss k') = 0x800000 - 4 - word_of_int p * 0x2000"
    "prog_curr_pid (terminals k' n) = p" "maps_range k' 0x08048000 (prog_page p + 0x48000) 0x3B8000"
    "paging_ok k'" "exec_frame p ?s k'" "0 \<le> p" "p < 6"
    "pcb_pid (pcbs k' (get_pcb_by_pid p)) = p" "par_pid (pcbs k' (get_pcb_by_pid p)) = par_pid (new_block p ?s)"
    "block_ok (pcbs k' (get_pcb_by_pid p))" "\<forall>q. q \<noteq> get_pcb_by_pid p \<longrightarrow> pcbs k' q = pcbs ?s q"
    by blast
  have "\<forall>q. q \<noteq> get_pcb_by_pid p \<longrightarrow> (\<exists>s b. pcbs k' q = (pcbs k q)\<lparr>pcb_esp := s, pcb_ebp := b\<rparr>)"
    using k'(13) shell_state_blocks by metis
  moreover have "p < 3 \<longrightarrow> par_pid (pcbs k' (get_pcb_by_pid p)) = p" using k'(11) by (simp add: new_block_def Let_def)
  moreover have "PT_handler k = Some (Enter e, k')"
    using k'(1) by (simp add: PT_handler_def switch_eq nn assms(6) start_shell_eq Let_def)
  moreover have "irq_masked i k' = irq_masked i ?s" for i
    using k'(7) by (simp add: irq_masked_def exec_frame_def)
  moreover have "vid_page k' = screen_page k' n" using k'(7) sel(3,9) by (simp add: exec_frame_def screen_page_def)
  ultimately show ?thesis
    using k' sel by (intro exI [of _ e] exI [of _ k']) (simp add: exec_frame_def)
qed

text \<open>
  C20. A terminal without a program gets a shell: when the next terminal has no program, the image
  holds a shell and a slot is free, the timer interrupt enters the shell, in the lowest free slot,
  as the program of that terminal, with the shell's memory at the program address, the video address
  leading to that terminal's screen and the keyboard open exactly if it is shown; the programs of
  the other terminals stay, and no byte of the kernel's page changes.
\<close>

theorem shell_starts:
  fixes k :: kernel
  defines "n \<equiv> (if curr_process k = 2 then 0 else curr_process k + 1)" and "p \<equiv> get_new_pid k"
  assumes "paging_ok k" and "0 \<le> curr_process k" "curr_process k < 3"
    and "prog_curr_pid (terminals k n) = -1" and "runnable k (map of_char ''shell'') i" and "p \<noteq> ERROR"
  shows "\<exists>e k'. PT_handler k = Some (Enter e, k') \<and> curr_process k' = n \<and> prog_curr_pid (terminals k' n) = p \<and>
    (\<forall>t. t \<noteq> n \<longrightarrow> prog_curr_pid (terminals k' t) = prog_curr_pid (terminals k t)) \<and>
    used_pids k' = (used_pids k)(p := 1) \<and> vid_page k' = screen_page k' n \<and>
    maps_range k' 0x08048000 (prog_page p + 0x48000) 0x3B8000 \<and>
    (\<forall>i < 16. irq_masked i k' \<longleftrightarrow> (if i = 1 then n \<noteq> curr_ter k else irq_masked i k)) \<and>
    (\<forall>a. kernel_addr a \<longrightarrow> phys k' a = phys k a)"
proof -
  have n: "next_terminal (curr_process k) = n" and p: "get_new_pid k = p" by (simp_all add: n_def p_def)
  show ?thesis
    using shell_start [OF assms(3) refl assms(4,5) n assms(6,7) p assms(8)] by blast
qed

text \<open>A machine before the first timer interrupt.\<close>

definition demo_boot :: kernel where
  "demo_boot = demo_machine\<lparr>terminals := (\<lambda>_. zero_terminal\<lparr>prog_curr_pid := -1\<rparr>), curr_process := 2\<rparr>"

lemma demo_machine_runnable: "runnable demo_machine (map of_char ''shell'') 0"
proof -
  have "kernel_addr (0x600040 + of_nat j)" if "j < 64" for j
    using that by (simp add: kernel_addr_def unat_word_ariths wsimps)
  then have "dir_in_kernel (fs demo_machine)"
    by (simp add: dir_in_kernel_def demo_machine_fs_sel dentry_addr_def) (simp add: demo_machine_fs)
  moreover have "lookup (vmem demo_machine) (fs demo_machine) (map of_char ''shell'') = Some 0"
    using demo_machine_name by (simp add: lookup_def demo_machine_fs_sel)
  moreover have "take 4 demo_program = ELF_MAGIC" "length demo_program = 32" by code_simp+
  ultimately show ?thesis
    by (simp add: runnable_def demo_machine_inode demo_machine_contents demo_machine_file demo_machine_fs_sel)
qed

lemma demo_boot_sel:
  "paging_ok demo_boot" "curr_process demo_boot = 2" "prog_curr_pid (terminals demo_boot t) = -1"
  "runnable demo_boot (map of_char ''shell'') 0" "used_pids demo_boot = (\<lambda>_. 0)" "curr_ter demo_boot = 0"
proof -
  show ok: "paging_ok demo_boot"
    using demo_machine_paging(1) paging_ok_cong [of demo_boot demo_machine] by (simp add: demo_boot_def)
  show "runnable demo_boot (map of_char ''shell'') 0"
    by (rule runnable_agree [OF demo_machine_runnable demo_machine_paging(1) ok]) (simp_all add: demo_boot_def)
  show "curr_ter demo_boot = 0" by (simp add: demo_boot_def demo_machine_def boot_kernel_def)
qed (simp_all add: demo_boot_def demo_machine_sel)

theorem shell_starts_witness:
  "\<exists>e k'. PT_handler demo_boot = Some (Enter e, k') \<and> prog_curr_pid (terminals k' 0) = 0 \<and> \<not> irq_masked 1 k'"
proof -
  have "get_new_pid demo_boot = 0" by (simp add: get_new_pid_def demo_boot_sel)
  then show ?thesis
    using shell_starts [of demo_boot 0] demo_boot_sel(1,4)
    by (auto simp: demo_boot_sel(2,3,5,6) dest!: spec [of _ "1 :: nat"])
qed

subsection \<open>The end of a shell\<close>

lemma exit_msg: "\<exists>n t. puts (lit (''-- Exited Root Process --'' @ [CHR 0x0A])) k = Some (n, fold putc t k)"
proof -
  have "is_cstr (lit (''-- Exited Root Process --'' @ [CHR 0x0A])) 26" by code_simp
  from puts_cstr [OF this] show ?thesis by blast
qed

lemma lowest_free:
  assumes "used_pids k n = 0" and "0 \<le> n" and "n < 6" and "\<forall>j. 0 \<le> j \<and> j < n \<longrightarrow> used_pids k j \<noteq> 0"
  shows "get_new_pid k = n"
proof -
  have e: "get_new_pid k \<noteq> ERROR" using assms(1-3) unfolding pids.search_full slot_list by auto
  then have "0 \<le> get_new_pid k" "used_pids k (get_new_pid k) = 0" using get_new_pid_range by blast+
  moreover have "\<not> n < get_new_pid k" using pids.search_lowest [OF e, of n] assms(1-3) unfolding slot_list by auto
  ultimately show ?thesis using assms(4) by force
qed

text \<open>A root shell that ends makes room for a new one.\<close>

lemma sys_halt_root:
  fixes k :: kernel and n :: int
  defines "p \<equiv> get_pcb_by_pid n"
  assumes "paging_ok k" and "cursor_ok k" and "vid_page k < 0x400000"
    and "prog_curr_pid (terminals k (curr_process k)) = n" and "0 \<le> n" and "n < 3" and "pcb_pid (pcbs k p) = n"
    and "par_pid (pcbs k p) = n"
    and "\<forall>i. 0 \<le> i \<and> i < 8 \<and> enabled (fdt (pcbs k p) i) \<longrightarrow> fot_ptr (fdt (pcbs k p) i) \<noteq> NULL_fot"
    and "runnable k (map of_char ''shell'') i" and "\<forall>j. 0 \<le> j \<and> j < n \<longrightarrow> used_pids k j \<noteq> 0"
  shows "\<exists>e k'. sys_halt a status k = Some (Enter e, k') \<and> used_pids k' = (used_pids k)(n := 1) \<and>
    prog_curr_pid (terminals k' (curr_process k)) = n \<and> esp0 (tss k') = 0x800000 - 4 - word_of_int n * 0x2000 \<and>
    maps_range k' 0x08048000 (prog_page n + 0x48000) 0x3B8000 \<and>
    pcb_pid (pcbs k' p) = n \<and> par_pid (pcbs k' p) = n \<and>
    block_ok (pcbs k' p) \<and> (\<forall>j. 0 \<le> j \<and> j < 8 \<longrightarrow> (enabled (fdt (pcbs k' p) j) \<longleftrightarrow> j < 2)) \<and>
    (\<forall>q. q \<noteq> p \<longrightarrow> (\<exists>d. pcbs k' q = (pcbs k q)\<lparr>divisor := d\<rparr>)) \<and> paging_ok k' \<and> exec_frame n k k'"
proof -
  obtain k4 where g: "gone n k k4" and ex: "sys_halt a status k =
       (case puts (lit (''-- Exited Root Process --'' @ [CHR 0x0A])) k4 of
         None \<Rightarrow> None
       | Some (_, k5) \<Rightarrow>
           (case sys_execute (shell_command k5) k5 of
              None \<Rightarrow> None
            | Some (Ret r, k6) \<Rightarrow> Some (leave_process status p k6)
            | Some (other, k6) \<Rightarrow> Some (other, k6)))"
    using sys_halt_eq [OF assms(2-6), of a status] assms(6-10) unfolding p_def by auto
  note g = g [unfolded gone_def Let_def, folded p_def, unfolded assms(9)]
  have f4: "exec_frame n k k4" "paging_ok k4" using g by blast+
  obtain m t where msg: "puts (lit (''-- Exited Root Process --'' @ [CHR 0x0A])) k4 = Some (m, fold putc t k4)"
    using exit_msg by blast
  define k5 where "k5 = fold putc t k4"
  have v4: "cursor_ok k4" "vid_page k4 < 0x400000" using f4(1) assms(4) by (simp_all add: exec_frame_def)
  then have f5: "exec_frame n k4 k5" "paging_ok k5" "out_frame k4 k5"
    using msg_exec_frame [OF f4(2)] unfolding k5_def by auto
  note d = out_frameD [OF f5(3)]
  have f: "exec_frame n k k5" using f4(1) f5(1) exec_frame_trans by blast
  then have v5: "cursor_ok k5" "vid_page k5 < 0x400000" "fs k5 = fs k" "curr_process k5 = curr_process k"
    "\<forall>a. kernel_addr a \<longrightarrow> phys k5 a = phys k a"
    using assms(4) by (simp_all add: exec_frame_def)
  have u: "used_pids k5 = (used_pids k)(n := 0)" using d g by simp
  have n: "get_new_pid k5 = n"
    using assms(6,7,12) by (intro lowest_free) (auto simp: u)
  have "runnable k5 (command_name (shell_command k5)) i"
    unfolding shell_command_name by (rule runnable_agree [OF assms(11,2) f5(2) v5(3)]) (use v5(5) in blast)
  note r = this
  have "command_name (shell_command k5) \<noteq> []" by (simp add: shell_command_name)
  moreover have "n \<noteq> ERROR" using assms(6) by simp
  ultimately obtain e k' where k': "sys_execute (shell_command k5) k5 = Some (Enter e, k')"
    "used_pids k' = (used_pids k5)(n := 1)" "prog_curr_pid (terminals k' (curr_process k)) = n"
    "esp0 (tss k') = 0x800000 - 4 - word_of_int n * 0x2000" "pcb_pid (pcbs k' p) = n"
    "par_pid (pcbs k' p) = par_pid (new_block n k5)" "block_ok (pcbs k' p)"
    "\<forall>j. 0 \<le> j \<and> j < 8 \<longrightarrow> (enabled (fdt (pcbs k' p) j) \<longleftrightarrow> j < 2)"
    "\<forall>q. q \<noteq> p \<longrightarrow> pcbs k' q = pcbs k5 q" "paging_ok k'"
    "maps_range k' 0x08048000 (prog_page n + 0x48000) 0x3B8000" "exec_frame n k5 k'"
    using runnable_runs [OF r _ f5(2) v5(1,2) n] unfolding v5(4) p_def by blast
  have "par_pid (new_block n k5) = n" using assms(7) by (simp add: new_block_def Let_def)
  moreover have "\<forall>q. q \<noteq> p \<longrightarrow> (\<exists>d. pcbs k' q = (pcbs k q)\<lparr>divisor := d\<rparr>)" using k'(9) d g by simp
  moreover have "exec_frame n k k'" using f k'(12) exec_frame_trans by blast
  ultimately show ?thesis
    unfolding ex msg option.case prod.case k5_def [symmetric] using k' u by (intro exI [of _ e] exI [of _ k']) simp
qed

text \<open>
  C21. A terminal never stays without a program: when the root shell of a terminal ends, \<open>sys_halt\<close>
  enters a new shell in the same slot, on the same terminal, with the slot's memory and kernel stack and
  fresh standard descriptors; nothing of the other terminals and of the memory of the other slots changes, of the other
  processes at most the divisor of the clock, and no byte of the image.
\<close>

theorem root_shell_restarts:
  fixes k :: kernel and n :: int
  defines "p \<equiv> get_pcb_by_pid n"
  assumes "paging_ok k" and "cursor_ok k" and "vid_page k < 0x400000"
    and "prog_curr_pid (terminals k (curr_process k)) = n" and "0 \<le> n" and "n < 3" and "pcb_pid (pcbs k p) = n"
    and "par_pid (pcbs k p) = n"
    and "\<forall>i. 0 \<le> i \<and> i < 8 \<and> enabled (fdt (pcbs k p) i) \<longrightarrow> fot_ptr (fdt (pcbs k p) i) \<noteq> NULL_fot"
    and "runnable k (map of_char ''shell'') i" and "\<forall>j. 0 \<le> j \<and> j < n \<longrightarrow> used_pids k j \<noteq> 0"
  shows "\<exists>e k'. sys_halt a status k = Some (Enter e, k') \<and> used_pids k' = (used_pids k)(n := 1) \<and>
    prog_curr_pid (terminals k' (curr_process k)) = n \<and> esp0 (tss k') = 0x800000 - 4 - word_of_int n * 0x2000 \<and>
    maps_range k' 0x08048000 (prog_page n + 0x48000) 0x3B8000 \<and>
    (\<forall>j. 0 \<le> j \<and> j < 8 \<longrightarrow> (enabled (fdt (pcbs k' p) j) \<longleftrightarrow> j < 2)) \<and>
    (\<forall>q. q \<noteq> p \<longrightarrow> (\<exists>d. pcbs k' q = (pcbs k q)\<lparr>divisor := d\<rparr>)) \<and>
    (\<forall>t. t \<noteq> curr_process k \<longrightarrow> terminals k' t = terminals k t) \<and> (\<forall>a. kernel_addr a \<longrightarrow> phys k' a = phys k a) \<and>
    (\<forall>m a. 0 \<le> m \<and> m \<noteq> n \<and> in_slot m a \<longrightarrow> phys k' a = phys k a)"
proof -
  have f: "exec_frame n k k' \<Longrightarrow> (\<forall>t. t \<noteq> curr_process k \<longrightarrow> terminals k' t = terminals k t) \<and>
      (\<forall>a. kernel_addr a \<longrightarrow> phys k' a = phys k a) \<and> (\<forall>m a. 0 \<le> m \<and> m \<noteq> n \<and> in_slot m a \<longrightarrow> phys k' a = phys k a)" for k'
    using in_slot_other [OF _ _ assms(6)] unfolding exec_frame_def by blast
  show ?thesis using sys_halt_root [OF assms(2-7), of i a status] assms(8-12) f unfolding p_def by blast
qed

text \<open>A machine with one shell, which is about to end.\<close>

definition demo_root :: kernel where
  "demo_root = demo_machine\<lparr>terminals := (\<lambda>_. zero_terminal), pcbs := (\<lambda>_. zero_pcb), used_pids := (\<lambda>i. if i = 0 then 1 else 0)\<rparr>"

theorem root_shell_restarts_witness:
  "\<exists>e k'. sys_halt 0 0 demo_root = Some (Enter e, k') \<and> prog_curr_pid (terminals k' (curr_process demo_root)) = 0 \<and> used_pids k' 0 = 1"
proof -
  have ok: "paging_ok demo_root" "vid_page demo_root < 0x400000" "cursor_ok demo_root"
    using demo_machine_paging demo_machine_sel(9) paging_ok_cong [of demo_root demo_machine] vid_page_cong [of demo_root demo_machine]
    by (simp_all add: demo_root_def cursor_ok_def)
  have "runnable demo_root (map of_char ''shell'') 0"
    by (rule runnable_agree [OF demo_machine_runnable demo_machine_paging(1) ok(1)]) (simp_all add: demo_root_def)
  moreover have "prog_curr_pid (terminals demo_root t) = 0" "pcbs demo_root q = zero_pcb" for t q
    by (simp_all add: demo_root_def zero_terminal_def)
  ultimately show ?thesis
    using root_shell_restarts [of demo_root 0 0 0 0] ok by (auto simp: zero_pcb_def zero_fdt_entry_def)
qed

end
