(* ===== verification/Idt.thy ===== *)
theory Idt
  imports Pit
begin

section \<open>Interrupt descriptors and exceptions\<close>

text \<open>
  \<open>src/student-distrib/idt.c\<close> and the descriptor macros of \<open>x86_desc.h\<close>: the table of
  interrupt gates, the handlers of the processor's exceptions, and the first state of the
  terminals, which \<open>init_idt\<close> sets up too.

  The loop over the device interrupts makes 16 steps over arrays of four elements. What lies
  behind the arrays is not known: it is the pair of arguments \<open>beyond\<close> and \<open>beyond_h\<close>.
\<close>

subsection \<open>Exception handlers\<close>

definition DE_handler :: "u8 \<Rightarrow> kernel \<Rightarrow> (flow \<times> kernel) option" where
  "DE_handler regA = blue_screen regA (lit ''Divide by Zero Error'')"

definition DB_handler :: "u8 \<Rightarrow> kernel \<Rightarrow> (flow \<times> kernel) option" where
  "DB_handler regA = blue_screen regA (lit ''Debug Exception'')"

definition NI_handler :: "u8 \<Rightarrow> kernel \<Rightarrow> (flow \<times> kernel) option" where
  "NI_handler regA = blue_screen regA (lit ''Non-Maskable Interrupt'')"

definition BP_handler :: "u8 \<Rightarrow> kernel \<Rightarrow> (flow \<times> kernel) option" where
  "BP_handler regA = blue_screen regA (lit ''Breakpoint Exception'')"

definition OF_handler :: "u8 \<Rightarrow> kernel \<Rightarrow> (flow \<times> kernel) option" where
  "OF_handler regA = blue_screen regA (lit ''Overflow'')"

definition BR_handler :: "u8 \<Rightarrow> kernel \<Rightarrow> (flow \<times> kernel) option" where
  "BR_handler regA = blue_screen regA (lit ''Bound Range Exceeded'')"

definition UD_handler :: "u8 \<Rightarrow> kernel \<Rightarrow> (flow \<times> kernel) option" where
  "UD_handler regA = blue_screen regA (lit ''Invalid Opcode'')"

definition NM_handler :: "u8 \<Rightarrow> kernel \<Rightarrow> (flow \<times> kernel) option" where
  "NM_handler regA = blue_screen regA (lit ''Device Not Available'')"

definition DF_handler :: "u8 \<Rightarrow> kernel \<Rightarrow> (flow \<times> kernel) option" where
  "DF_handler regA = blue_screen regA (lit ''Double Fault'')"

definition CP_handler :: "u8 \<Rightarrow> kernel \<Rightarrow> (flow \<times> kernel) option" where
  "CP_handler regA = blue_screen regA (lit ''Coprocessor Segment Overrun'')"

definition TS_handler :: "u8 \<Rightarrow> kernel \<Rightarrow> (flow \<times> kernel) option" where
  "TS_handler regA = blue_screen regA (lit ''Invalid TSS'')"

definition NP_handler :: "u8 \<Rightarrow> kernel \<Rightarrow> (flow \<times> kernel) option" where
  "NP_handler regA = blue_screen regA (lit ''Segment Not Present'')"

definition SS_handler :: "u8 \<Rightarrow> kernel \<Rightarrow> (flow \<times> kernel) option" where
  "SS_handler regA = blue_screen regA (lit ''Stack Segment Fault'')"

definition GP_handler :: "u8 \<Rightarrow> kernel \<Rightarrow> (flow \<times> kernel) option" where
  "GP_handler regA = blue_screen regA (lit ''General Protection Fault'')"

definition PF_handler :: "u8 \<Rightarrow> kernel \<Rightarrow> (flow \<times> kernel) option" where
  "PF_handler regA = blue_screen regA (lit ''Page Fault'')"

definition MF_handler :: "u8 \<Rightarrow> kernel \<Rightarrow> (flow \<times> kernel) option" where
  "MF_handler regA = blue_screen regA (lit ''x87 Floating Point Exception'')"

definition AC_handler :: "u8 \<Rightarrow> kernel \<Rightarrow> (flow \<times> kernel) option" where
  "AC_handler regA = blue_screen regA (lit ''Alignment Check Exception'')"

definition MC_handler :: "u8 \<Rightarrow> kernel \<Rightarrow> (flow \<times> kernel) option" where
  "MC_handler regA = blue_screen regA (lit ''Machine Check Exception'')"

definition XF_handler :: "u8 \<Rightarrow> kernel \<Rightarrow> (flow \<times> kernel) option" where
  "XF_handler regA = blue_screen regA (lit ''SIMD Floating Point Exception'')"

definition VE_handler :: "u8 \<Rightarrow> kernel \<Rightarrow> (flow \<times> kernel) option" where
  "VE_handler regA = blue_screen regA (lit ''Virtualization Exception'')"

definition SX_handler :: "u8 \<Rightarrow> kernel \<Rightarrow> (flow \<times> kernel) option" where
  "SX_handler regA = blue_screen regA (lit ''Security Exception'')"

definition SYS_handler :: "kernel \<Rightarrow> (int \<times> kernel) option" where
  "SYS_handler k = printf (lit (''A system call was made'' @ [CHR 0x0A])) (pushed []) k"

subsection \<open>The table\<close>

abbreviation (input) DE_EXC :: int where "DE_EXC \<equiv> 0x00"
abbreviation (input) DB_EXC :: int where "DB_EXC \<equiv> 0x01"
abbreviation (input) NI_EXC :: int where "NI_EXC \<equiv> 0x02"
abbreviation (input) BP_EXC :: int where "BP_EXC \<equiv> 0x03"
abbreviation (input) OF_EXC :: int where "OF_EXC \<equiv> 0x04"
abbreviation (input) BR_EXC :: int where "BR_EXC \<equiv> 0x05"
abbreviation (input) UD_EXC :: int where "UD_EXC \<equiv> 0x06"
abbreviation (input) NM_EXC :: int where "NM_EXC \<equiv> 0x07"
abbreviation (input) DF_EXC :: int where "DF_EXC \<equiv> 0x08"
abbreviation (input) CP_EXC :: int where "CP_EXC \<equiv> 0x09"
abbreviation (input) TS_EXC :: int where "TS_EXC \<equiv> 0x0A"
abbreviation (input) NP_EXC :: int where "NP_EXC \<equiv> 0x0B"
abbreviation (input) SS_EXC :: int where "SS_EXC \<equiv> 0x0C"
abbreviation (input) GP_EXC :: int where "GP_EXC \<equiv> 0x0D"
abbreviation (input) PF_EXC :: int where "PF_EXC \<equiv> 0x0E"
abbreviation (input) MF_EXC :: int where "MF_EXC \<equiv> 0x10"
abbreviation (input) AC_EXC :: int where "AC_EXC \<equiv> 0x11"
abbreviation (input) MC_EXC :: int where "MC_EXC \<equiv> 0x12"
abbreviation (input) XF_EXC :: int where "XF_EXC \<equiv> 0x13"
abbreviation (input) VE_EXC :: int where "VE_EXC \<equiv> 0x14"
abbreviation (input) SX_EXC :: int where "SX_EXC \<equiv> 0x1E"
abbreviation (input) KB_INT :: int where "KB_INT \<equiv> 0x21"
abbreviation (input) RT_INT :: int where "RT_INT \<equiv> 0x28"
abbreviation (input) PT_INT :: int where "PT_INT \<equiv> 0x20"
abbreviation (input) SYS_CALL :: int where "SYS_CALL \<equiv> 0x80"
abbreviation (input) NUM_EXCEPTIONS :: nat where "NUM_EXCEPTIONS \<equiv> 20"
abbreviation (input) NUM_INTERRUPTS :: nat where "NUM_INTERRUPTS \<equiv> 16"
abbreviation (input) KERNEL_CS :: u16 where "KERNEL_CS \<equiv> 0x10"

definition SET_IDT_ENTRY :: "u32 \<Rightarrow> idt_desc \<Rightarrow> idt_desc" where
  "SET_IDT_ENTRY h e = e\<lparr>offset_31_16 := ucast (drop_bit 16 (h AND 0xFFFF0000)), offset_15_00 := ucast (h AND 0xFFFF)\<rparr>"

definition set_gate :: "2 word \<Rightarrow> int \<Rightarrow> u32 \<Rightarrow> kernel \<Rightarrow> kernel" where
  "set_gate dpl vec h k = k\<lparr>idt := (idt k)(vec := (SET_IDT_ENTRY h (idt k vec))\<lparr>seg_selector := KERNEL_CS,
     gate_present := True, gate_dpl := dpl, gate_size := True, reserved0 := False, reserved1 := True,
     reserved2 := True, reserved3 := False, reserved4 := 0\<rparr>)\<rparr>"

definition exc_vect :: "int list" where
  "exc_vect = [DE_EXC, DB_EXC, BP_EXC, OF_EXC, BR_EXC, UD_EXC, NM_EXC, DF_EXC, CP_EXC, TS_EXC,
     NP_EXC, SS_EXC, GP_EXC, PF_EXC, MF_EXC, AC_EXC, MC_EXC, XF_EXC, VE_EXC, SX_EXC]"

definition exc_handlers :: "handler list" where
  "exc_handlers = [DE_h, DB_h, BP_h, OF_h, BR_h, UD_h, NM_h, DF_h, CP_h, TS_h, NP_h, SS_h, GP_h, PF_h,
     MF_h, AC_h, MC_h, XF_h, VE_h, SX_h]"

definition int_vect :: "int list" where
  "int_vect = [NI_EXC, KB_INT, RT_INT, PT_INT]"

definition int_handlers :: "handler list" where
  "int_handlers = [NI_h, KB_wrapper, RT_wrapper, PT_wrapper]"

definition handler_addr :: "kernel \<Rightarrow> handler \<Rightarrow> u32" where
  "handler_addr k h = addr_of k (sym_handler h)"

definition init_idt :: "(nat \<Rightarrow> int) \<Rightarrow> (nat \<Rightarrow> u32) \<Rightarrow> kernel \<Rightarrow> kernel" where
  "init_idt beyond beyond_h k =
     (let k1 = fold (\<lambda>i k. set_gate 0 (exc_vect ! i) (handler_addr k (exc_handlers ! i)) k) [0..<NUM_EXCEPTIONS] k;
          k2 = fold (\<lambda>i k. set_gate 0 (if i < 4 then int_vect ! i else beyond (i - 4))
                 (if i < 4 then handler_addr k (int_handlers ! i) else beyond_h (i - 4)) k) [0..<NUM_INTERRUPTS] k1;
          k3 = set_gate 3 SYS_CALL (handler_addr k2 SYS_wrapper) k2;
          k4 = fold (\<lambda>t. upd_terminal t (\<lambda>s. s\<lparr>buf_len := 0, prog_par_pid := -1, prog_curr_pid := -1\<rparr>)) [0, 1, 2] k3
      in k4\<lparr>curr_ter := 0\<rparr>)"

text \<open>What the handler behind an exception gate does.\<close>

fun run_exception :: "handler \<Rightarrow> u8 \<Rightarrow> kernel \<Rightarrow> (flow \<times> kernel) option" where
  "run_exception DE_h regA k = DE_handler regA k"
| "run_exception DB_h regA k = DB_handler regA k"
| "run_exception NI_h regA k = NI_handler regA k"
| "run_exception BP_h regA k = BP_handler regA k"
| "run_exception OF_h regA k = OF_handler regA k"
| "run_exception BR_h regA k = BR_handler regA k"
| "run_exception UD_h regA k = UD_handler regA k"
| "run_exception NM_h regA k = NM_handler regA k"
| "run_exception DF_h regA k = DF_handler regA k"
| "run_exception CP_h regA k = CP_handler regA k"
| "run_exception TS_h regA k = TS_handler regA k"
| "run_exception NP_h regA k = NP_handler regA k"
| "run_exception SS_h regA k = SS_handler regA k"
| "run_exception GP_h regA k = GP_handler regA k"
| "run_exception PF_h regA k = PF_handler regA k"
| "run_exception MF_h regA k = MF_handler regA k"
| "run_exception AC_h regA k = AC_handler regA k"
| "run_exception MC_h regA k = MC_handler regA k"
| "run_exception XF_h regA k = XF_handler regA k"
| "run_exception VE_h regA k = VE_handler regA k"
| "run_exception SX_h regA k = SX_handler regA k"
| "run_exception _ regA k = None"

lemmas handler_defs = DE_handler_def DB_handler_def NI_handler_def BP_handler_def OF_handler_def BR_handler_def UD_handler_def
  NM_handler_def DF_handler_def CP_handler_def TS_handler_def NP_handler_def SS_handler_def GP_handler_def
  PF_handler_def MF_handler_def AC_handler_def MC_handler_def XF_handler_def VE_handler_def SX_handler_def

subsection \<open>Gates\<close>

text \<open>A gate as the processor reads it: where it leads, its type and the privilege to raise it.\<close>

definition gate_offset :: "idt_desc \<Rightarrow> u32" where
  "gate_offset d = push_bit 16 (ucast (offset_31_16 d)) OR ucast (offset_15_00 d)"

definition gate_type :: "idt_desc \<Rightarrow> nat" where
  "gate_type d = of_bool (reserved3 d) + 2 * of_bool (reserved2 d) + 4 * of_bool (reserved1 d) + 8 * of_bool (gate_size d)"

text \<open>A present 32-bit interrupt gate (type 14) of the kernel's code segment.\<close>

definition leads_to :: "idt_desc \<Rightarrow> u32 \<Rightarrow> 2 word \<Rightarrow> bool" where
  "leads_to d h dpl \<longleftrightarrow> gate_present d \<and> gate_offset d = h \<and> seg_selector d = 0x10 \<and> gate_type d = 14 \<and>
     \<not> reserved0 d \<and> gate_dpl d = dpl"

lemma mask_low: "(0xFFFF :: u32) = mask 16" "(0xFFFF0000 :: u32) = push_bit 16 (mask 16)"
  by (simp_all add: mask_eq_exp_minus_1 push_bit_eq_mult)

lemma gate_offset_set: "gate_offset (SET_IDT_ENTRY h e) = h"
proof (rule bit_word_eqI)
  fix n assume "n < LENGTH(32)"
  then show "bit (gate_offset (SET_IDT_ENTRY h e)) n \<longleftrightarrow> bit h n"
    by (auto simp: gate_offset_def SET_IDT_ENTRY_def mask_low bit_simps)
qed

lemma set_gate_sel [simp]:
  "leads_to (idt (set_gate dpl v h k) v) h dpl" "u \<noteq> v \<Longrightarrow> idt (set_gate dpl v h k) u = idt k u"
  "addr_of (set_gate dpl v h k) = addr_of k" "terminals (set_gate dpl v h k) = terminals k"
proof -
  have "gate_offset (d\<lparr>seg_selector := a, gate_present := b, gate_dpl := c, gate_size := e, reserved0 := f,
      reserved1 := g, reserved2 := i, reserved3 := j, reserved4 := l\<rparr>) = gate_offset d" for d a b c e f g i j l
    by (simp add: gate_offset_def)
  then show "leads_to (idt (set_gate dpl v h k) v) h dpl"
    by (simp add: leads_to_def set_gate_def gate_offset_set gate_type_def)
qed (simp_all add: set_gate_def)

text \<open>A loop over a table of gates: each vector ends up with the last handler it was given.\<close>

definition set_gates :: "(int \<times> u32) list \<Rightarrow> kernel \<Rightarrow> kernel" where
  "set_gates gs = fold (\<lambda>(v, h). set_gate 0 v h) gs"

lemma set_gates_skip: "v \<notin> fst ` set gs \<Longrightarrow> idt (set_gates gs k) v = idt k v"
  by (induction gs arbitrary: k) (auto simp: set_gates_def)

lemma set_gates_last:
  "v \<notin> fst ` set hs \<Longrightarrow> leads_to (idt (set_gates (gs @ (v, h) # hs) k) v) h 0"
  using set_gates_skip [of v hs] by (simp add: set_gates_def)

lemma set_gates_dpl:
  "gate_dpl (idt k u) = 0 \<Longrightarrow> gate_dpl (idt (set_gates gs k) u) = 0"
proof (induction gs arbitrary: k)
  case (Cons g gs)
  obtain v h where g: "g = (v, h)" by fastforce
  have "gate_dpl (idt (set_gate 0 v h k) u) = 0"
    using Cons.prems by (cases "u = v") (simp_all add: set_gate_def)
  from Cons.IH [OF this] show ?case by (simp add: set_gates_def g)
qed (simp add: set_gates_def)

lemma set_gates_addr [simp]:
  "addr_of (set_gates gs k) = addr_of k" "terminals (set_gates gs k) = terminals k"
  by (induction gs arbitrary: k) (auto simp: set_gates_def)

definition exc_gates :: "kernel \<Rightarrow> (int \<times> u32) list" where
  "exc_gates k = map (\<lambda>(v, h). (v, handler_addr k h)) (zip exc_vect exc_handlers)"

definition int_gates :: "(nat \<Rightarrow> int) \<Rightarrow> (nat \<Rightarrow> u32) \<Rightarrow> kernel \<Rightarrow> (int \<times> u32) list" where
  "int_gates beyond beyond_h k = map (\<lambda>(v, h). (v, handler_addr k h)) (zip int_vect int_handlers) @
     map (\<lambda>i. (beyond i, beyond_h i)) [0..<12]"

lemma fold_set_gate:
  "fold (\<lambda>i k'. set_gate 0 (v i) (h i (addr_of k')) k') is k = set_gates (map (\<lambda>i. (v i, h i (addr_of k))) is) k"
  by (induction "is" arbitrary: k) (simp_all add: set_gates_def)

lemma handler_addr_gates [simp]: "handler_addr (set_gates gs k) h = handler_addr k h"
  by (simp add: handler_addr_def)

lemma init_idt_eq:
  "init_idt beyond beyond_h k =
     (fold (\<lambda>t. upd_terminal t (\<lambda>s. s\<lparr>buf_len := 0, prog_par_pid := -1, prog_curr_pid := -1\<rparr>)) [0, 1, 2]
       (set_gate 3 0x80 (handler_addr k SYS_wrapper)
         (set_gates (exc_gates k @ int_gates beyond beyond_h k) k)))\<lparr>curr_ter := 0\<rparr>"
proof -
  have 1: "fold (\<lambda>i k. set_gate 0 (exc_vect ! i) (handler_addr k (exc_handlers ! i)) k) [0..<20] k =
      set_gates (exc_gates k) k" for k
    unfolding handler_addr_def fold_set_gate [where h = "\<lambda>i a. a (sym_handler (exc_handlers ! i))"]
    by (simp add: handler_addr_def exc_gates_def exc_vect_def exc_handlers_def upt_rec)
  have "[0..<16] = [0, 1, 2, 3] @ map (\<lambda>i. i + 4) [0..<12]" by code_simp
  then have 2: "fold (\<lambda>i k. set_gate 0 (if i < 4 then int_vect ! i else beyond (i - 4))
      (if i < 4 then handler_addr k (int_handlers ! i) else beyond_h (i - 4)) k) [0..<16] k =
      set_gates (int_gates beyond beyond_h k) k" for k
    unfolding handler_addr_def
      fold_set_gate [where h = "\<lambda>i a. if i < 4 then a (sym_handler (int_handlers ! i)) else beyond_h (i - 4)"]
    by (simp add: handler_addr_def int_gates_def int_vect_def int_handlers_def comp_def)
  have "int_gates beyond beyond_h (set_gates gs k) = int_gates beyond beyond_h k" for gs
    by (simp add: int_gates_def)
  moreover have "set_gates (gs @ hs) k = set_gates hs (set_gates gs k)" for gs hs by (simp add: set_gates_def)
  ultimately show ?thesis by (simp add: init_idt_def 1 2 Let_def)
qed

lemma set_gates_mem:
  assumes "(v, h) \<in> set gs" and "distinct (map fst gs)" and "v \<notin> fst ` set hs"
  shows "leads_to (idt (set_gates (gs @ hs) k) v) h 0"
proof -
  obtain as bs where gs: "gs = as @ (v, h) # bs" using assms(1) by (auto dest: split_list)
  then have "v \<notin> fst ` set (bs @ hs)" using assms(2,3) by (auto simp: image_iff)
  from set_gates_last [OF this, of as h k] show ?thesis by (simp add: gs)
qed

text \<open>The gates that the two tables ask for.\<close>

definition known_gates :: "kernel \<Rightarrow> (int \<times> u32) list" where
  "known_gates k = exc_gates k @ map (\<lambda>(v, h). (v, handler_addr k h)) (zip int_vect int_handlers)"

lemma known_vectors: "map fst (known_gates k) = exc_vect @ int_vect"
  by (simp add: known_gates_def exc_gates_def exc_vect_def exc_handlers_def int_vect_def int_handlers_def)

lemma init_idt_idt:
  "idt (init_idt beyond beyond_h k) = idt (set_gate 3 0x80 (handler_addr k SYS_wrapper)
     (set_gates (known_gates k @ map (\<lambda>i. (beyond i, beyond_h i)) [0..<12]) k))"
  by (simp add: init_idt_eq known_gates_def int_gates_def upd_terminal_def)

lemma init_idt_gate:
  assumes "(v, h) \<in> set (zip exc_vect exc_handlers @ zip int_vect int_handlers)" and "v \<notin> beyond ` {0..<12}"
  shows "leads_to (idt (init_idt beyond beyond_h k) v) (handler_addr k h) 0"
proof -
  have d: "distinct (exc_vect @ int_vect)" "0x80 \<notin> set (exc_vect @ int_vect)" by code_simp+
  have m: "(v, handler_addr k h) \<in> set (known_gates k)"
    using imageI [OF assms(1), of "\<lambda>(v, h). (v, handler_addr k h)"] by (simp add: known_gates_def exc_gates_def image_Un)
  then have "v \<in> set (map fst (known_gates k))" by force
  then have "v \<noteq> 0x80" using d(2) unfolding known_vectors by auto
  moreover have "leads_to (idt (set_gates (known_gates k @ map (\<lambda>i. (beyond i, beyond_h i)) [0..<12]) k) v)
      (handler_addr k h) 0"
    using m d(1) assms(2) by (intro set_gates_mem) (auto simp: known_vectors image_iff)
  ultimately show ?thesis by (simp add: init_idt_idt)
qed

text \<open>The messages of the handlers are texts without NUL.\<close>

fun exc_message :: "handler \<Rightarrow> string" where
  "exc_message DE_h = ''Divide by Zero Error''"
| "exc_message DB_h = ''Debug Exception''"
| "exc_message NI_h = ''Non-Maskable Interrupt''"
| "exc_message BP_h = ''Breakpoint Exception''"
| "exc_message OF_h = ''Overflow''"
| "exc_message BR_h = ''Bound Range Exceeded''"
| "exc_message UD_h = ''Invalid Opcode''"
| "exc_message NM_h = ''Device Not Available''"
| "exc_message DF_h = ''Double Fault''"
| "exc_message CP_h = ''Coprocessor Segment Overrun''"
| "exc_message TS_h = ''Invalid TSS''"
| "exc_message NP_h = ''Segment Not Present''"
| "exc_message SS_h = ''Stack Segment Fault''"
| "exc_message GP_h = ''General Protection Fault''"
| "exc_message PF_h = ''Page Fault''"
| "exc_message MF_h = ''x87 Floating Point Exception''"
| "exc_message AC_h = ''Alignment Check Exception''"
| "exc_message MC_h = ''Machine Check Exception''"
| "exc_message XF_h = ''SIMD Floating Point Exception''"
| "exc_message VE_h = ''Virtualization Exception''"
| "exc_message SX_h = ''Security Exception''"
| "exc_message _ = []"

lemma run_exception_message: "h \<in> set (NI_h # exc_handlers) \<Longrightarrow> run_exception h a k = blue_screen a (lit (exc_message h)) k"
  by (cases h) (simp_all add: handler_defs exc_handlers_def)

lemma exc_message_cstr: "is_cstr (lit (exc_message h)) (length (exc_message h))" "length (exc_message h) < 64"
proof -
  have "0 \<notin> set (map of_char (exc_message h) :: u8 list)"
    by (cases h; hypsubst; code_simp)
  then show "is_cstr (lit (exc_message h)) (length (exc_message h))"
    by (intro is_cstrI) (auto simp: lit_def image_iff dest!: nth_mem)
  show "length (exc_message h) < 64" by (cases h) simp_all
qed

subsection \<open>Properties\<close>

text \<open>
  C27. \<open>init_idt\<close> leads interrupts to their handlers: each vector of the two tables that is not among the twelve
  values that the loop reads from behind the device table gets a present 32-bit interrupt gate of the kernel that only the
  kernel may raise, leading to the handler beside it. The system call vector gets a gate that programs
  may raise, whatever lies behind the tables, and every other vector whose gate had privilege level 0 before has it afterwards.
\<close>

theorem init_idt_dispatch:
  fixes k :: kernel and beyond :: "nat \<Rightarrow> int" and beyond_h :: "nat \<Rightarrow> u32"
  defines "k' \<equiv> init_idt beyond beyond_h k"
  shows "(\<forall>(v, h) \<in> set (zip exc_vect exc_handlers @ zip int_vect int_handlers).
      v \<notin> beyond ` {0..<12} \<longrightarrow> leads_to (idt k' v) (handler_addr k h) 0) \<and>
    leads_to (idt k' 0x80) (handler_addr k SYS_wrapper) 3 \<and>
    (\<forall>v. v \<noteq> 0x80 \<and> gate_dpl (idt k v) = 0 \<longrightarrow> gate_dpl (idt k' v) = 0)"
proof (intro conjI)
  show "\<forall>(v, h) \<in> set (zip exc_vect exc_handlers @ zip int_vect int_handlers).
      v \<notin> beyond ` {0..<12} \<longrightarrow> leads_to (idt k' v) (handler_addr k h) 0"
    using init_idt_gate [of _ _ beyond beyond_h k] unfolding k'_def by blast
  show "\<forall>v. v \<noteq> 0x80 \<and> gate_dpl (idt k v) = 0 \<longrightarrow> gate_dpl (idt k' v) = 0"
    using set_gates_dpl [of k] by (simp add: k'_def init_idt_idt)
qed (simp add: k'_def init_idt_idt)

theorem init_idt_dispatch_witness:
  "leads_to (idt (init_idt (\<lambda>_. 0xFF) (\<lambda>_. 0) boot_kernel) 0x0E) (handler_addr boot_kernel PF_h) 0 \<and>
   gate_dpl (idt (init_idt (\<lambda>_. 0xFF) (\<lambda>_. 0) boot_kernel) 0xFF) = 0"
proof -
  have "(0x0E, PF_h) \<in> set (zip exc_vect exc_handlers)" by code_simp
  moreover have "gate_dpl (idt boot_kernel 0xFF) = 0" by (simp add: boot_kernel_def zero_idt_desc_def)
  ultimately show ?thesis
    using init_idt_dispatch [of "\<lambda>_. 0xFF" "\<lambda>_. 0" boot_kernel]
    by (auto dest!: bspec [of _ _ "(0x0E, PF_h)"])
qed

text \<open>
  The sixteen steps over four elements can redirect an exception: for some values behind the
  tables the gate of the page fault does not lead to its handler.
\<close>

lemma init_idt_overrun:
  "\<exists>beyond beyond_h. gate_offset (idt (init_idt beyond beyond_h k) 0x0E) \<noteq> handler_addr k PF_h"
proof -
  let ?h = "handler_addr k PF_h + 1"
  have "map (\<lambda>i. (0x0E :: int, ?h)) [0..<12] = map (\<lambda>i. (0x0E, ?h)) [0..<11] @ [(0x0E, ?h)]"
    by (simp add: upt_rec)
  then have "leads_to (idt (set_gates (known_gates k @ map (\<lambda>i. (0x0E, ?h)) [0..<12]) k) 0x0E) ?h 0"
    using set_gates_last [of "0x0E" "[]" "known_gates k @ map (\<lambda>i. (0x0E, ?h)) [0..<11]" ?h k] by simp
  then have "gate_offset (idt (init_idt (\<lambda>_. 0x0E) (\<lambda>_. ?h) k) 0x0E) = ?h"
    by (simp add: init_idt_idt leads_to_def)
  then show ?thesis by (intro exI [of _ "\<lambda>_. 0x0E"] exI [of _ "\<lambda>_. ?h"]) simp
qed

text \<open>
  C12. Every exception ends the program that raised it and nothing else: whichever of the handlers
  in the exception table or the handler of the non-maskable interrupt runs in a process that is not one of the
  root shells, it resumes the parent inside its \<open>sys_execute\<close>, on the stack it had there, which
  then returns 256; the slot is free again and of the other processes at most the divisor of the
  clock has changed.
\<close>

theorem exceptions_end_program:
  fixes k :: kernel and n :: int
  defines "p \<equiv> get_pcb_by_pid n"
  assumes "h \<in> set (NI_h # exc_handlers)" and "paging_ok k" and "cursor_ok k" and "vid_page k < 0x400000"
    and "prog_curr_pid (terminals k (curr_process k)) = n" and "3 \<le> n" and "n < 6" and "pcb_pid (pcbs k p) = n"
    and "0 \<le> par_pid (pcbs k p)" and "par_pid (pcbs k p) < 6"
    and "\<forall>i. 0 \<le> i \<and> i < 8 \<and> enabled (fdt (pcbs k p) i) \<longrightarrow> fot_ptr (fdt (pcbs k p) i) \<noteq> NULL_fot"
  shows "\<exists>s k'. run_exception h a k = Some (Ret_to_exec s, k') \<and> exec_return s = 256 \<and>
    esp k' = par_esp (pcbs k p) \<and> ebp k' = par_ebp (pcbs k p) \<and> used_pids k' = (used_pids k)(n := 0) \<and>
    pcbs k' p = zero_pcb \<and> (\<forall>q. q \<noteq> p \<longrightarrow> (\<exists>d. pcbs k' q = (pcbs k q)\<lparr>divisor := d\<rparr>))"
proof -
  note c = exc_message_cstr [of h]
  show ?thesis
    unfolding run_exception_message [OF assms(2)] p_def
    using blue_screen_child [OF assms(3-5) c(1) _ assms(6-8)] assms(9-12) c(2) unfolding p_def by simp
qed

theorem exceptions_end_program_witness:
  "\<exists>s k'. run_exception PF_h 0 demo_child = Some (Ret_to_exec s, k') \<and> exec_return s = 256 \<and>
     esp k' = 0x7FDF00 \<and> used_pids k' 3 = 0"
proof -
  have "PF_h \<in> set (NI_h # exc_handlers)" by code_simp
  then show ?thesis
    using exceptions_end_program [of PF_h demo_child 3 0, unfolded demo_child_sel(4,5)] demo_child_sel(1-3)
    by (auto simp: zero_pcb_def zero_fdt_entry_def)
qed

end
