(* ===== verification/Boot.thy ===== *)
theory Boot
  imports Idt
begin

section \<open>Start-up\<close>

text \<open>
  \<open>entry\<close> of \<open>src/student-distrib/kernel.c\<close>: the checks on what the boot loader passes, the
  descriptors of the local descriptor table and the task state segment, and the initialisation of
  every component up to the idle loop.

  \<open>boot_env\<close> holds what the code reads and does not set: what lies behind the tables of
  \<open>init_idt\<close>, the bytes read from the registers of the clock, and the uninitialised address of
  the file system image.
\<close>

subsection \<open>Operations\<close>

record boot_env =
  behind_vect :: "nat \<Rightarrow> int"
  behind_handlers :: "nat \<Rightarrow> u32"
  regB :: u8
  regA :: u8
  stale_addr :: u32

datatype boot_end = Returned | Idle

definition SET_LDT_PARAMS :: "u32 \<Rightarrow> u32 \<Rightarrow> seg_desc \<Rightarrow> seg_desc" where
  "SET_LDT_PARAMS addr lim d = d\<lparr>base_31_24 := ucast (drop_bit 24 (addr AND 0xFF000000)),
     base_23_16 := ucast (drop_bit 16 (addr AND 0x00FF0000)), base_15_00 := ucast (addr AND 0x0000FFFF),
     seg_lim_19_16 := ucast (drop_bit 16 (lim AND 0x000F0000)), seg_lim_15_00 := ucast (lim AND 0x0000FFFF)\<rparr>"

definition SET_TSS_PARAMS :: "u32 \<Rightarrow> u32 \<Rightarrow> seg_desc \<Rightarrow> seg_desc" where
  "SET_TSS_PARAMS addr lim d = d\<lparr>base_31_24 := ucast (drop_bit 24 (addr AND 0xFF000000)),
     base_23_16 := ucast (drop_bit 16 (addr AND 0x00FF0000)), base_15_00 := ucast (addr AND 0x0000FFFF),
     seg_lim_19_16 := ucast (drop_bit 16 (lim AND 0x000F0000)), seg_lim_15_00 := ucast (lim AND 0x0000FFFF)\<rparr>"

abbreviation (input) KERNEL_LDT :: u16 where "KERNEL_LDT \<equiv> 0x38"
abbreviation (input) TSS_SIZE :: u32 where "TSS_SIZE \<equiv> 104"

text \<open>The sizes that \<open>x86_desc.S\<close> computes: the last byte of four descriptors and of the segment.\<close>

definition ldt_size :: u32 where
  "ldt_size = 4 * 8 - 1"

definition tss_size :: u32 where
  "tss_size = TSS_SIZE - 1"

definition construct_ldt :: "kernel \<Rightarrow> kernel" where
  "construct_ldt k =
     (let the_ldt_desc = zero_seg_desc\<lparr>granularity := False, opsize := True, seg_reserved := False,
            seg_avail := False, seg_present := True, seg_dpl := 0, seg_sys := False, seg_type := 2\<rparr>
      in k\<lparr>ldt_desc_ptr := SET_LDT_PARAMS (addr_of k sym_ldt) ldt_size the_ldt_desc\<rparr>)"

definition construct_tss :: "kernel \<Rightarrow> kernel" where
  "construct_tss k =
     (let the_tss_desc = zero_seg_desc\<lparr>granularity := False, opsize := False, seg_reserved := False,
            seg_avail := False, seg_lim_19_16 := ucast (TSS_SIZE AND 0x000F0000), seg_present := True,
            seg_dpl := 0, seg_sys := False, seg_type := 9, seg_lim_15_00 := ucast (TSS_SIZE AND 0x0000FFFF)\<rparr>
      in k\<lparr>tss_desc_ptr := SET_TSS_PARAMS (addr_of k sym_tss) tss_size the_tss_desc,
           tss := (tss k)\<lparr>ldt_segment_selector := KERNEL_LDT, ss0 := KERNEL_DS, esp0 := 0x800000\<rparr>\<rparr>)"

text \<open>The fields of the boot loader's structures that the code reads, at their byte offsets.\<close>

abbreviation (input) mbi_flags :: "mem \<Rightarrow> u32 \<Rightarrow> u32" where "mbi_flags m a \<equiv> u32_at m a"
abbreviation (input) mbi_mods_addr :: "mem \<Rightarrow> u32 \<Rightarrow> u32" where "mbi_mods_addr m a \<equiv> u32_at m (a + 24)"
abbreviation (input) mbi_mmap_length :: "mem \<Rightarrow> u32 \<Rightarrow> u32" where "mbi_mmap_length m a \<equiv> u32_at m (a + 44)"
abbreviation (input) mbi_mmap_addr :: "mem \<Rightarrow> u32 \<Rightarrow> u32" where "mbi_mmap_addr m a \<equiv> u32_at m (a + 48)"
abbreviation (input) mod_start :: "mem \<Rightarrow> u32 \<Rightarrow> u32" where "mod_start m a \<equiv> u32_at m a"
abbreviation (input) mmap_size :: "mem \<Rightarrow> u32 \<Rightarrow> u32" where "mmap_size m a \<equiv> u32_at m a"
abbreviation (input) MULTIBOOT_BOOTLOADER_MAGIC :: u32 where "MULTIBOOT_BOOTLOADER_MAGIC \<equiv> 0x2BADB002"

definition CHECK_FLAG :: "u32 \<Rightarrow> nat \<Rightarrow> bool" where
  "CHECK_FLAG flags b \<longleftrightarrow> flags AND push_bit b 1 \<noteq> 0"

text \<open>
  The address of the image: that of the first module, when bits 0, 1 and 3 of the flags are all
  set, since the three tests are nested. The loop over the modules only counts.
\<close>

definition image_addr :: "mem \<Rightarrow> u32 \<Rightarrow> u32 \<Rightarrow> u32" where
  "image_addr m mbi stale =
     (let flags = mbi_flags m mbi in
      if CHECK_FLAG flags 0 then
        if CHECK_FLAG flags 1 then
          if CHECK_FLAG flags 3 then mod_start m (mbi_mods_addr m mbi) else stale
        else stale
      else stale)"

text \<open>The loop over the memory map; it has no effect but may fail to end.\<close>

partial_function (option) mmap_walk :: "mem \<Rightarrow> u32 \<Rightarrow> u32 \<Rightarrow> u32 option" where
  "mmap_walk m stop mmap =
     (if mmap < stop then mmap_walk m stop (mmap + mmap_size m mmap + 4) else Some mmap)"

text \<open>Everything after the checks, in the order of the code.\<close>

definition initialise :: "boot_env \<Rightarrow> u32 \<Rightarrow> kernel \<Rightarrow> kernel" where
  "initialise env img k =
     (let k1 = construct_tss (construct_ldt k);
          k2 = init_idt (behind_vect env) (behind_handlers env) k1;
          k3 = i8259_init k2;
          k4 = init_pit (init_rtc (regB env) (regA env) k3);
          k5 = enable_irq PT_IRQ_NUM (enable_irq KB_IRQ_NUM (enable_irq RTC_IRQ_NUM k4));
          k6 = init_pid (init_paging k5)
      in sti (k6\<lparr>fs := file_system_init (vmem k6) img\<rparr>))"

definition entry :: "boot_env \<Rightarrow> u32 \<Rightarrow> u32 \<Rightarrow> kernel \<Rightarrow> (boot_end \<times> kernel) option" where
  "entry env magic addr k0 =
     (let k = clear k0 in
      if magic \<noteq> MULTIBOOT_BOOTLOADER_MAGIC then Some (Returned, k)
      else let m = vmem k; flags = mbi_flags m addr; img = image_addr m addr (stale_addr env) in
        if CHECK_FLAG flags 4 \<and> CHECK_FLAG flags 5 then Some (Returned, k)
        else case (if CHECK_FLAG flags 6
                   then mmap_walk m (mbi_mmap_addr m addr + mbi_mmap_length m addr) (mbi_mmap_addr m addr)
                   else Some 0) of
               None \<Rightarrow> None
             | Some _ \<Rightarrow> Some (Idle, initialise env img k))"

subsection \<open>The memory map\<close>

declare mmap_walk.simps [code]

text \<open>A memory map as the boot loader lays it out: each entry behind its size, one after the other.\<close>

fun entries_at :: "mem \<Rightarrow> u32 \<Rightarrow> nat list \<Rightarrow> bool" where
  "entries_at m a [] \<longleftrightarrow> True"
| "entries_at m a (s # ss) \<longleftrightarrow> u32_at m a = of_nat s \<and> entries_at m (a + of_nat s + 4) ss"

definition map_length :: "nat list \<Rightarrow> nat" where
  "map_length ss = sum_list (map (\<lambda>s. s + 4) ss)"

lemma map_length_simps [simp]: "map_length [] = 0" "map_length (s # ss) = s + 4 + map_length ss"
  by (simp_all add: map_length_def)

lemma mmap_walk_entries:
  assumes "entries_at m a ss" and "unat a + map_length ss = unat stop"
  shows "mmap_walk m stop a = Some stop"
  using assms
proof (induction ss arbitrary: a)
  case Nil
  then have "a = stop" by (simp add: word_unat_eq_iff)
  then show ?case by (subst mmap_walk.simps) simp
next
  case (Cons s ss)
  let ?b = "a + of_nat s + 4"
  have lt: "unat a + (s + 4) < 2 ^ 32" using Cons.prems(2) unsigned_less [of stop, where 'a = nat] by simp
  have "a + of_nat s + 4 = a + of_nat (s + 4)" by (simp add: add.assoc)
  then have "unat ?b = unat a + (s + 4)" using lt by (simp add: unat_word_ariths wsimps)
  then have "mmap_walk m stop ?b = Some stop" using Cons by simp
  moreover have "a < stop" using Cons.prems(2) by (simp add: word_less_nat_alt)
  ultimately show ?case using Cons.prems(1) by (subst mmap_walk.simps) simp
qed

text \<open>An entry whose size wraps to nothing keeps the loop where it is.\<close>

lemma mmap_walk_stuck:
  assumes "a < stop" and "u32_at m a = -4"
  shows "mmap_walk m stop a = None"
proof -
  have "\<not> (b < n \<and> u32_at m' b = -4)" if "mmap_walk m' n b = Some y" for m' n b y
    by (rule mmap_walk.raw_induct [where P = "\<lambda>m' n b y. \<not> (b < n \<and> u32_at m' b = -4)", OF _ that])
      (auto split: if_splits)
  with assms show ?thesis by (cases "mmap_walk m stop a") auto
qed

subsection \<open>Descriptors\<close>

text \<open>A segment descriptor as the processor reads it.\<close>

definition desc_base :: "seg_desc \<Rightarrow> u32" where
  "desc_base d = push_bit 24 (ucast (base_31_24 d)) OR push_bit 16 (ucast (base_23_16 d)) OR ucast (base_15_00 d)"

definition desc_limit :: "seg_desc \<Rightarrow> u32" where
  "desc_limit d = push_bit 16 (ucast (seg_lim_19_16 d)) OR ucast (seg_lim_15_00 d)"

lemma mask_bytes: "(0xFF000000 :: u32) = push_bit 24 (mask 8)" "(0x00FF0000 :: u32) = push_bit 16 (mask 8)"
  "(0x000F0000 :: u32) = push_bit 16 (mask 4)"
  by (simp_all add: mask_eq_exp_minus_1 push_bit_eq_mult)

lemma desc_base_set: "desc_base (SET_TSS_PARAMS a l d) = a"
proof (rule bit_word_eqI)
  fix n assume "n < LENGTH(32)"
  then show "bit (desc_base (SET_TSS_PARAMS a l d)) n \<longleftrightarrow> bit a n"
    by (cases "n < 24") (auto simp: desc_base_def SET_TSS_PARAMS_def mask_bytes mask_low bit_simps)
qed

lemma desc_limit_set: "l < 2 ^ 20 \<Longrightarrow> desc_limit (SET_TSS_PARAMS a l d) = l"
proof (rule bit_word_eqI)
  fix n assume "n < LENGTH(32)" and "l < 2 ^ 20"
  moreover have "bit l n \<Longrightarrow> n < 20"
    using high_bits_clear [of l 20 n] \<open>l < 2 ^ 20\<close> by (cases "n < 20") (auto simp: word_less_nat_alt)
  ultimately show "bit (desc_limit (SET_TSS_PARAMS a l d)) n \<longleftrightarrow> bit l n"
    by (auto simp: desc_limit_def SET_TSS_PARAMS_def mask_bytes mask_low bit_simps)
qed

lemma ldt_params: "SET_LDT_PARAMS = SET_TSS_PARAMS"
  by (intro ext) (simp add: SET_LDT_PARAMS_def SET_TSS_PARAMS_def)

subsection \<open>The initialised state\<close>

lemma set_gates_only: "set_gates gs k = k\<lparr>idt := idt (set_gates gs k)\<rparr>"
proof (induction gs arbitrary: k)
  case (Cons g gs)
  obtain v h where g: "g = (v, h)" by fastforce
  have "set_gates (g # gs) k = set_gates gs (set_gate 0 v h k)" by (simp add: set_gates_def g)
  also have "\<dots> = (set_gate 0 v h k)\<lparr>idt := idt (set_gates gs (set_gate 0 v h k))\<rparr>" by (rule Cons.IH)
  finally show ?case by (simp add: set_gate_def)
qed (simp add: set_gates_def)

text \<open>\<open>init_idt\<close> changes the table, the terminals and the terminal that is shown.\<close>

definition first_terminal :: "terminal_state \<Rightarrow> terminal_state" where
  "first_terminal t = t\<lparr>buf_len := 0, prog_par_pid := -1, prog_curr_pid := -1\<rparr>"

lemma init_idt_only:
  "init_idt b bh k = k\<lparr>idt := idt (init_idt b bh k), curr_ter := 0,
     terminals := (\<lambda>t. if t \<in> {0, 1, 2} then first_terminal (terminals k t) else terminals k t)\<rparr>"
proof -
  obtain i where "set_gates (exc_gates k @ int_gates b bh k) k = k\<lparr>idt := i\<rparr>" using set_gates_only by blast
  then show ?thesis
    by (simp add: init_idt_eq set_gate_def upd_terminal_def first_terminal_def fun_eq_iff)
qed

text \<open>The state when the devices are set up and paging is still off.\<close>

definition devices :: "boot_env \<Rightarrow> kernel \<Rightarrow> kernel" where
  "devices env k = enable_irq 0 (enable_irq 1 (enable_irq 8 (init_pit (init_rtc (regB env) (regA env)
     (i8259_init (init_idt (behind_vect env) (behind_handlers env) (construct_tss (construct_ldt k))))))))"

lemma initialise_eq:
  "initialise env img k = (let k6 = init_pid (init_paging (devices env k))
     in sti (k6\<lparr>fs := file_system_init (vmem k6) img\<rparr>))"
  by (simp add: initialise_def devices_def Let_def)

lemma construct_sel [simp]:
  "phys (construct_tss (construct_ldt k)) = phys k" "tabs (construct_tss (construct_ldt k)) = tabs k"
  "addr_of (construct_tss (construct_ldt k)) = addr_of k" "terminals (construct_tss (construct_ldt k)) = terminals k"
  "active (construct_tss (construct_ldt k)) = active k" "idt (construct_tss (construct_ldt k)) = idt k"
  "screen_x (construct_tss (construct_ldt k)) = screen_x k" "screen_y (construct_tss (construct_ldt k)) = screen_y k"
  by (simp_all add: construct_tss_def construct_ldt_def Let_def)

lemma devices_sel:
  "phys (devices env k) = phys k" "tabs (devices env k) = tabs k" "addr_of (devices env k) = addr_of k"
  "active (devices env k) = active k" "curr_process (devices env k) = 2" "curr_ter (devices env k) = 0"
  "terminals (devices env k) = (\<lambda>t. if t \<in> {0, 1, 2} then first_terminal (terminals k t) else terminals k t)"
  "screen_x (devices env k) = screen_x k" "screen_y (devices env k) = screen_y k"
  "idt (devices env k) = idt (init_idt (behind_vect env) (behind_handlers env) (construct_tss (construct_ldt k)))"
proof -
  let ?k1 = "construct_tss (construct_ldt k)"
  obtain i where i: "init_idt (behind_vect env) (behind_handlers env) ?k1 = ?k1\<lparr>idt := i, curr_ter := 0,
     terminals := (\<lambda>t. if t \<in> {0, 1, 2} then first_terminal (terminals k t) else terminals k t)\<rparr>"
    using init_idt_only [of "behind_vect env" "behind_handlers env" ?k1] unfolding construct_sel by blast
  note defs = devices_def init_pit_def init_rtc_def rtc_set_frequency_def i8259_init_def cli_and_save_def
    restore_flags_def outb_def cli_def Let_def
  show "idt (devices env k) = idt (init_idt (behind_vect env) (behind_handlers env) ?k1)"
    by (simp add: defs enable_irq_def)
  show "phys (devices env k) = phys k" "tabs (devices env k) = tabs k" "addr_of (devices env k) = addr_of k"
    "active (devices env k) = active k" "curr_process (devices env k) = 2" "curr_ter (devices env k) = 0"
    "terminals (devices env k) = (\<lambda>t. if t \<in> {0, 1, 2} then first_terminal (terminals k t) else terminals k t)"
    "screen_x (devices env k) = screen_x k" "screen_y (devices env k) = screen_y k"
    by (simp_all add: defs i)
qed

lemma devices_pic: "pic_sync m0 s0 (devices env k)"
proof -
  let ?i = "i8259_init (init_idt (behind_vect env) (behind_handlers env) (construct_tss (construct_ldt k)))"
  have flag: "pic_sync m0 s0 (k\<lparr>if_flag := b\<rparr>) = pic_sync m0 s0 k" for k b by (simp add: pic_sync_def)
  have "pic_sync m0 s0 (init_rtc b a k)" if "pic_sync m0 s0 k" for k a b
    using that by (simp add: init_rtc_def rtc_set_frequency_def cli_and_save_def restore_flags_def cli_def Let_def
        pic_sync_def outb_def)
  moreover have "pic_sync m0 s0 (init_pit k)" if "pic_sync m0 s0 k" for k
    using that by (simp add: init_pit_def Let_def pic_sync_def outb_def)
  ultimately show ?thesis
    unfolding devices_def using pic_sync_init by (intro pic_sync_enable) blast
qed

lemma devices_masked: "n < 16 \<Longrightarrow> irq_masked n (devices env k) \<longleftrightarrow> n \<notin> {0, 1, 2, 8}"
proof -
  assume n: "n < 16"
  let ?i = "i8259_init (init_idt (behind_vect env) (behind_handlers env) (construct_tss (construct_ldt k)))"
  have "\<forall>n < 8. bit (0xFB :: u8) n \<longleftrightarrow> n \<noteq> 2" "\<forall>n < 8. bit (0xFF :: u8) n" by code_simp+
  then have "irq_masked n ?i \<longleftrightarrow> n \<noteq> 2"
    using n by (auto simp: irq_masked_def i8259_init_def Let_def)
  moreover have "irq_masked n (init_pit (init_rtc b a k)) = irq_masked n k" for a b k
    by (simp add: irq_masked_def init_pit_def init_rtc_def rtc_set_frequency_def cli_and_save_def restore_flags_def
        cli_def outb_def Let_def)
  ultimately show ?thesis unfolding devices_def using n by (auto simp: pic.masked_enable)
qed

lemma initialise_sel:
  fixes k :: kernel and env :: boot_env and img :: u32
  defines "k' \<equiv> initialise env img k"
  assumes "pt_frame k \<noteq> vpt_frame k" and "\<And>i. \<not> pte_present (vidmem_page_table (tabs k) i)"
  shows "paging_ok k'" "vid_page k' = VIDEO" "if_flag k'" "fs k' = file_system_init (vmem k') img" "phys k' = phys k"
    "curr_process k' = 2" "curr_ter k' = 0" "0 \<le> j \<Longrightarrow> j < 6 \<Longrightarrow> used_pids k' j = 0"
    "t \<in> {0, 1, 2} \<Longrightarrow> terminals k' t = first_terminal (terminals k t)" "pic_sync m0 s0 k'"
    "n < 16 \<Longrightarrow> irq_masked n k' \<longleftrightarrow> n \<notin> {0, 1, 2, 8}" "screen_x k' = screen_x k" "screen_y k' = screen_y k"
    "idt k' = idt (init_idt (behind_vect env) (behind_handlers env) (construct_tss (construct_ldt k)))"
    "t \<notin> {0, 1, 2} \<Longrightarrow> terminals k' t = terminals k t"
proof -
  let ?d = "devices env k"
  let ?p = "init_paging ?d"
  note d = devices_sel [of env k]
  have more: "master_mask (init_paging k) = master_mask k" "slave_mask (init_paging k) = slave_mask k"
    "outs (init_paging k) = outs k" "idt (init_paging k) = idt k" for k
    by (simp_all add: init_paging_def enable_paging_def Let_def)
  note k' = k'_def initialise_eq Let_def sti_def init_pid_def
  have "paging_ok ?p" using assms(2,3) by (intro init_paging_ok) (simp_all add: pt_frame_def vpt_frame_def d)
  then show "paging_ok k'" using paging_ok_cong [of k' ?p] by (simp add: k')
  have "vid_page ?p = VIDEO" using init_paging_tables(3) [of "0xB8" ?d] by (simp add: vid_page_def)
  then show "vid_page k' = VIDEO" using vid_page_cong [of k' ?p] by (simp add: k')
  have "paddr k' = paddr ?p" by (intro paddr_cong) (simp_all add: k')
  moreover have "paddr (init_pid ?p) = paddr ?p" by (intro paddr_cong) (simp_all add: init_pid_def)
  ultimately have "vmem k' = vmem (init_pid ?p)"
    by (intro ext) (simp add: vmem_def k' split: option.split)
  then show "fs k' = file_system_init (vmem k') img" by (simp add: k')
  have "pic_sync m0 s0 k' = pic_sync m0 s0 ?d" by (simp add: pic_sync_def k' more)
  then show "pic_sync m0 s0 k'" by (simp add: devices_pic)
  have "irq_masked n k' = irq_masked n ?d" by (simp add: irq_masked_def k' more)
  then show "n < 16 \<Longrightarrow> irq_masked n k' \<longleftrightarrow> n \<notin> {0, 1, 2, 8}" by (simp add: devices_masked)
qed (auto simp: k'_def initialise_eq Let_def sti_def init_pid_def devices_sel
    init_paging_def enable_paging_def)

lemma clear_boot:
  assumes "active k = None"
  shows "clear k = k\<lparr>phys := phys (clear k)\<rparr>" and "cells_of (page_of (phys (clear k)) VIDEO) = (\<lambda>_. (SPACE, ATTRIB))"
    and "\<not> a - VIDEO < 4000 \<Longrightarrow> phys (clear k) a = phys k a"
    and "kernel_addr a \<Longrightarrow> phys (clear k) a = phys k a"
proof -
  have m: "maps_page k VIDEO VIDEO" using assms by (simp add: maps_page_def paddr_def)
  have c: "clear k = k\<lparr>phys := overlay VIDEO (pg_clear (page_of (phys k) VIDEO)) (phys k)\<rparr>"
    using clear_page [OF m, of "page_of (phys k) VIDEO" "phys k"] by (simp add: overlay_self)
  then show "clear k = k\<lparr>phys := phys (clear k)\<rparr>" by simp
  have "cells_of (page_of (overlay VIDEO v m) VIDEO) = cells_of v" for v m by (rule ext) (simp add: cells_of_def)
  then show "cells_of (page_of (phys (clear k)) VIDEO) = (\<lambda>_. (SPACE, ATTRIB))" by (simp add: c cells_of_clear)
  show p: "phys (clear k) a = phys k a" if "\<not> a - VIDEO < 4000" for a
    using con_frame_phys [OF clear_refine(2) [OF m] that] by (simp add: reset_cursor_def save_cursor_def upd_terminal_def)
  assume "kernel_addr a"
  then have "\<not> a - VIDEO < 4000" by (auto simp: kernel_addr_def word_less_nat_alt unat_sub_if')
  then show "phys (clear k) a = phys k a" by (rule p)
qed

lemma mmap_walk_map:
  "entries_at m a ss \<Longrightarrow> unat a + map_length ss < 2 ^ 32 \<Longrightarrow>
     mmap_walk m (a + of_nat (map_length ss)) a = Some (a + of_nat (map_length ss))"
  by (rule mmap_walk_entries) (simp_all add: unat_word_ariths wsimps)

subsection \<open>Properties\<close>

text \<open>
  C40. The loop over the boot loader's memory map ends: for a map laid out as entries behind their
  sizes that fits the address space, the loop leaves at exactly the end of the map.
\<close>

theorem mmap_walk_ends:
  "entries_at m a ss \<Longrightarrow> unat a + map_length ss < 2 ^ 32 \<Longrightarrow>
     mmap_walk m (a + of_nat (map_length ss)) a = Some (a + of_nat (map_length ss))"
  by (rule mmap_walk_map)

theorem mmap_walk_ends_witness:
  "mmap_walk (\<lambda>a. if a = 0x1000 \<or> a = 0x1018 then 20 else 0) 0x1030 0x1000 = Some 0x1030"
  using mmap_walk_ends [of "\<lambda>a. if a = 0x1000 \<or> a = 0x1018 then 20 else 0" "0x1000" "[20, 20]"]
  by (simp add: u32_at_def le32_def)

text \<open>The descriptors that \<open>entry\<close> constructs describe the objects they are meant for.\<close>

lemma descriptors_describe:
  "desc_base (ldt_desc_ptr (construct_tss (construct_ldt k))) = addr_of k sym_ldt \<and>
   desc_limit (ldt_desc_ptr (construct_tss (construct_ldt k))) = 31 \<and>
   seg_type (ldt_desc_ptr (construct_tss (construct_ldt k))) = 2 \<and>
   desc_base (tss_desc_ptr (construct_tss (construct_ldt k))) = addr_of k sym_tss \<and>
   desc_limit (tss_desc_ptr (construct_tss (construct_ldt k))) = 103 \<and>
   seg_type (tss_desc_ptr (construct_tss (construct_ldt k))) = 9"
  by (simp add: construct_tss_def construct_ldt_def Let_def ldt_params desc_base_set desc_limit_set
      ldt_size_def tss_size_def) (simp add: SET_TSS_PARAMS_def)

text \<open>What \<open>entry\<close> leaves behind when it reaches the idle loop.\<close>

lemma entry_up:
  fixes k :: kernel and env :: boot_env and addr :: u32
  defines "m \<equiv> vmem (clear k)"
  assumes "active k = None" and "pt_frame k \<noteq> vpt_frame k" and "\<forall>i. \<not> pte_present (vidmem_page_table (tabs k) i)"
    and "CHECK_FLAG (u32_at m addr) 0" and "CHECK_FLAG (u32_at m addr) 1" and "CHECK_FLAG (u32_at m addr) 3"
    and "\<not> (CHECK_FLAG (u32_at m addr) 4 \<and> CHECK_FLAG (u32_at m addr) 5)"
    and "CHECK_FLAG (u32_at m addr) 6 \<longrightarrow> entries_at m (u32_at m (addr + 48)) ss \<and>
      u32_at m (addr + 44) = of_nat (map_length ss) \<and> unat (u32_at m (addr + 48)) + map_length ss < 2 ^ 32"
    and "u32_at m (u32_at m (addr + 24)) = img"
  shows "\<exists>k'. entry env 0x2BADB002 addr k = Some (Idle, k') \<and> paging_ok k' \<and> vid_page k' = 0xB8000 \<and>
    cells_of (page_of (phys k') 0xB8000) = (\<lambda>_. (SPACE, ATTRIB)) \<and> if_flag k' \<and>
    (\<forall>m0 s0. pic_sync m0 s0 k') \<and> (\<forall>n < 16. irq_masked n k' \<longleftrightarrow> n \<notin> {0, 1, 2, 8}) \<and>
    fs k' = file_system_init (vmem k') img \<and> (\<forall>j. 0 \<le> j \<and> j < 6 \<longrightarrow> used_pids k' j = 0) \<and>
    (\<forall>t \<in> {0, 1, 2}. terminals k' t = (terminals k t)\<lparr>buf_len := 0, prog_par_pid := -1, prog_curr_pid := -1\<rparr>) \<and>
    curr_ter k' = 0 \<and> curr_process k' = 2 \<and> leads_to (idt k' 0x80) (handler_addr k SYS_wrapper) 3 \<and>
    (\<forall>a. kernel_addr a \<longrightarrow> phys k' a = phys k a) \<and> (\<forall>t. t \<notin> {0, 1, 2} \<longrightarrow> terminals k' t = terminals k t)"
proof -
  let ?c = "clear k"
  note c = clear_boot [OF assms(2)]
  have "tabs ?c = tabs k" "addr_of ?c = addr_of k" "terminals ?c = terminals k" by (subst c(1), simp)+
  note cs = this
  have f: "pt_frame ?c \<noteq> vpt_frame ?c" "\<And>i. \<not> pte_present (vidmem_page_table (tabs ?c) i)"
    using assms(3,4) by (simp_all add: pt_frame_def vpt_frame_def cs)
  note s = initialise_sel [OF f, where env = env and img = img]
  let ?k = "initialise env img ?c"
  have i: "image_addr m addr (stale_addr env) = img"
    using assms(5-7,10) by (simp add: image_addr_def Let_def)
  have w: "\<exists>r. (if CHECK_FLAG (u32_at m addr) 6
      then mmap_walk m (u32_at m (addr + 48) + u32_at m (addr + 44)) (u32_at m (addr + 48)) else Some 0) = Some r"
    using mmap_walk_map [of m "u32_at m (addr + 48)" ss] assms(9) by (cases "CHECK_FLAG (u32_at m addr) 6") simp_all
  then have "entry env 0x2BADB002 addr k = Some (Idle, ?k)"
    using assms(8) i by (auto simp: entry_def m_def [symmetric] Let_def)
  moreover have "leads_to (idt ?k 0x80) (handler_addr k SYS_wrapper) 3"
    by (simp add: s(14) init_idt_idt handler_addr_def cs)
  ultimately show ?thesis
    using s c(2,4) cs by (intro exI [of _ ?k]) (simp add: first_terminal_def)
qed

text \<open>
  C18. \<open>entry\<close> brings the machine up: started by a compliant boot loader that passes the image as
  its first module, it reaches the idle loop with the screen cleared, paging on and well formed,
  interrupts on, exactly the timer, the keyboard, the clock and the cascade unmasked on both
  chips, the image open, no process slot in use, no program on any of the three terminals, the
  first terminal shown and up next, the system call gate open to programs, and the kernel's page
  untouched.
\<close>

theorem entry_boots:
  fixes k :: kernel and env :: boot_env and addr :: u32
  defines "m \<equiv> vmem (clear k)"
  assumes "active k = None" and "pt_frame k \<noteq> vpt_frame k" and "\<forall>i. \<not> pte_present (vidmem_page_table (tabs k) i)"
    and "CHECK_FLAG (u32_at m addr) 0" and "CHECK_FLAG (u32_at m addr) 1" and "CHECK_FLAG (u32_at m addr) 3"
    and "\<not> (CHECK_FLAG (u32_at m addr) 4 \<and> CHECK_FLAG (u32_at m addr) 5)"
    and "CHECK_FLAG (u32_at m addr) 6 \<longrightarrow> entries_at m (u32_at m (addr + 48)) ss \<and>
      u32_at m (addr + 44) = of_nat (map_length ss) \<and> unat (u32_at m (addr + 48)) + map_length ss < 2 ^ 32"
    and "u32_at m (u32_at m (addr + 24)) = img"
  shows "\<exists>k'. entry env 0x2BADB002 addr k = Some (Idle, k') \<and> paging_ok k' \<and> vid_page k' = 0xB8000 \<and>
    cells_of (page_of (phys k') 0xB8000) = (\<lambda>_. (SPACE, ATTRIB)) \<and> if_flag k' \<and>
    (\<forall>m0 s0. pic_sync m0 s0 k') \<and> (\<forall>n < 16. irq_masked n k' \<longleftrightarrow> n \<notin> {0, 1, 2, 8}) \<and>
    fs k' = file_system_init (vmem k') img \<and> (\<forall>j. 0 \<le> j \<and> j < 6 \<longrightarrow> used_pids k' j = 0) \<and>
    (\<forall>t \<in> {0, 1, 2}. terminals k' t = (terminals k t)\<lparr>buf_len := 0, prog_par_pid := -1, prog_curr_pid := -1\<rparr>) \<and>
    curr_ter k' = 0 \<and> curr_process k' = 2 \<and> leads_to (idt k' 0x80) (handler_addr k SYS_wrapper) 3 \<and>
    (\<forall>a. kernel_addr a \<longrightarrow> phys k' a = phys k a)"
  using entry_up [OF assms(2-4)] assms(5-10) unfolding m_def by blast

text \<open>A machine whose boot loader passed the image of a shell.\<close>

definition loader_mem :: mem where
  "loader_mem a = (if a = 0x10000 then 0x0B else if a = 0x1001A then 2 else if a = 0x20002 then 0x60
     else if 0x400000 \<le> a then image_mem a else 0)"

definition demo_loaded :: kernel where
  "demo_loaded = boot_kernel\<lparr>phys := loader_mem\<rparr>"

definition demo_env :: boot_env where
  "demo_env = \<lparr>behind_vect = (\<lambda>_. 0x30), behind_handlers = (\<lambda>_. 0), regB = 0x02, regA = 0x26, stale_addr = 0\<rparr>"

lemma demo_loaded_start:
  "active demo_loaded = None" "pt_frame demo_loaded \<noteq> vpt_frame demo_loaded"
  "\<not> pte_present (vidmem_page_table (tabs demo_loaded) i)"
  using boot_frames by (simp_all add: demo_loaded_def pt_frame_def vpt_frame_def) (simp add: boot_kernel_def)

lemma demo_loaded_word:
  assumes "\<forall>j < 4. \<not> a + of_nat j - VIDEO < 4000"
  shows "u32_at (vmem (clear demo_loaded)) a = u32_at loader_mem a"
proof -
  have "active (clear demo_loaded) = None" using clear_boot(1) [OF demo_loaded_start(1)] demo_loaded_start(1)
    by (metis (no_types, lifting) kernel.select_convs kernel.surjective kernel.update_convs)
  then have "vmem (clear demo_loaded) b = phys (clear demo_loaded) b" for b by (simp add: vmem_def paddr_def)
  moreover have "phys (clear demo_loaded) b = loader_mem b" if "\<not> b - VIDEO < 4000" for b
    using clear_boot(3) [OF demo_loaded_start(1) that] by (simp add: demo_loaded_def)
  ultimately show ?thesis
    using assms [rule_format, of 0] assms [rule_format, of 1] assms [rule_format, of 2] assms [rule_format, of 3]
    by (simp add: u32_at_def)
qed

lemma demo_loaded_info:
  "u32_at (vmem (clear demo_loaded)) 0x10000 = 11" "u32_at (vmem (clear demo_loaded)) 0x10018 = 0x20000"
  "u32_at (vmem (clear demo_loaded)) 0x20000 = 0x600000"
proof -
  have j: "j < 4 \<Longrightarrow> j = 0 \<or> j = 1 \<or> j = 2 \<or> j = 3" for j :: nat by linarith
  have *: "\<forall>j < 4. \<not> 0x10000 + of_nat j - VIDEO < 4000" "\<forall>j < 4. \<not> 0x10018 + of_nat j - VIDEO < 4000"
    "\<forall>j < 4. \<not> 0x20000 + of_nat j - VIDEO < 4000"
    by (auto dest!: j)
  show "u32_at (vmem (clear demo_loaded)) 0x10000 = 11" "u32_at (vmem (clear demo_loaded)) 0x10018 = 0x20000"
    "u32_at (vmem (clear demo_loaded)) 0x20000 = 0x600000"
    unfolding demo_loaded_word [OF *(1)] demo_loaded_word [OF *(2)] demo_loaded_word [OF *(3)]
    by (simp_all add: u32_at_def le32_def loader_mem_def)
qed

lemma flags_11: "CHECK_FLAG 11 0" "CHECK_FLAG 11 1" "CHECK_FLAG 11 3" "\<not> CHECK_FLAG 11 4" "\<not> CHECK_FLAG 11 6"
  by code_simp+

theorem entry_boots_witness:
  "\<exists>k'. entry demo_env 0x2BADB002 0x10000 demo_loaded = Some (Idle, k') \<and> if_flag k' \<and> \<not> irq_masked 8 k' \<and>
     file_system_addr (fs k') = 0x600000 \<and> curr_process k' = 2"
proof -
  have f: "file_system_addr (file_system_init m a) = a" for m a by (simp add: file_system_init_def)
  show ?thesis
    using entry_boots [of demo_loaded "0x10000" "[]" "0x600000" demo_env, simplified demo_loaded_info]
      demo_loaded_start flags_11
    by (auto simp: demo_loaded_info f dest!: spec [of _ "8 :: nat"])
qed

end
