(* ===== verification/Frames.thy ===== *)
theory Frames
  imports Boot
begin

section \<open>What output and editing keep\<close>

text \<open>
  The operations of the console and of the keyboard, as the rest of the kernel sees them: what they
  rely on survives, and processes, interrupt lines and the kernel's memory stay as they are.
\<close>

subsection \<open>Two relations\<close>

text \<open>
  The part of the state that output and line editing rely on, and the part that they leave alone.
  \<open>keeps\<close> relates two states when the first part survives and the second is the same; it is
  reflexive and transitive, so it follows the code from operation to operation.
\<close>

definition display_ok :: "kernel \<Rightarrow> bool" where
  "display_ok k \<longleftrightarrow> paging_ok k \<and> cursor_ok k \<and> (\<forall>t. saved_in (terminals k t)) \<and> vid_page k < 0x400000"

text \<open>A block of which at most the files, the arguments and the counters of the clock have changed.\<close>

definition same_block :: "pcb \<Rightarrow> pcb \<Rightarrow> bool" where
  "same_block q q' \<longleftrightarrow> pcb_pid q' = pcb_pid q \<and> par_pid q' = par_pid q \<and> par_pcb_ptr q' = par_pcb_ptr q \<and>
     par_esp q' = par_esp q \<and> par_ebp q' = par_ebp q \<and> pcb_esp q' = pcb_esp q \<and> pcb_ebp q' = pcb_ebp q \<and>
     (block_ok q \<longrightarrow> block_ok q')"

text \<open>The slot of the program that runs.\<close>

definition current :: "kernel \<Rightarrow> int" where
  "current k = prog_curr_pid (terminals k (curr_process k))"

definition same_processes :: "kernel \<Rightarrow> kernel \<Rightarrow> bool" where
  "same_processes k k' \<longleftrightarrow> curr_process k' = curr_process k \<and> fs k' = fs k \<and> used_pids k' = used_pids k \<and>
     tss k' = tss k \<and> master_mask k' = master_mask k \<and> slave_mask k' = slave_mask k \<and>
     page_directory (tabs k') 32 = page_directory (tabs k) 32 \<and> (\<forall>q. same_block (pcbs k q) (pcbs k' q)) \<and>
     (\<forall>t. prog_curr_pid (terminals k' t) = prog_curr_pid (terminals k t)) \<and>
     (\<forall>a. kernel_addr a \<or> other_mem (current k) a \<longrightarrow> phys k' a = phys k a)"

lemma same_block_refl [simp]: "same_block q q"
  by (simp add: same_block_def)

lemma same_block_trans: "same_block q q' \<Longrightarrow> same_block q' q'' \<Longrightarrow> same_block q q''"
  by (simp add: same_block_def)

lemma same_processes_trans:
  assumes "same_processes k k'" and "same_processes k' k''"
  shows "same_processes k k''"
proof -
  have "current k' = current k" using assms(1) by (simp add: same_processes_def current_def)
  then have "phys k'' a = phys k a" if "kernel_addr a \<or> other_mem (current k) a" for a
    using assms that unfolding same_processes_def by auto
  moreover have "same_block (pcbs k q) (pcbs k'' q)" for q
    using assms same_block_trans unfolding same_processes_def by blast
  ultimately show ?thesis using assms by (simp add: same_processes_def)
qed

definition keeps :: "kernel \<Rightarrow> kernel \<Rightarrow> bool" where
  "keeps k k' \<longleftrightarrow> (display_ok k \<longrightarrow> display_ok k' \<and> same_processes k k')"

lemma keeps_refl [intro, simp]: "keeps k k"
  by (simp add: keeps_def same_processes_def)

lemma keeps_trans [trans]: "keeps k k' \<Longrightarrow> keeps k' k'' \<Longrightarrow> keeps k k''"
  unfolding keeps_def using same_processes_trans by blast

text \<open>
  The laws that such a relation needs to follow the code through loops and waits, and through the
  steps of a run: this is what the proofs below use of \<open>keeps\<close>, those about system calls of
  \<open>serves\<close>, and those about the machine of its two relations.
\<close>

locale frame_relation =
  fixes R :: "kernel \<Rightarrow> kernel \<Rightarrow> bool"
  assumes stays: "R k k"
    and follows: "R k k' \<Longrightarrow> R k' k'' \<Longrightarrow> R k k''"
begin

lemma over_fold: "(\<And>x k. R k (f x k)) \<Longrightarrow> R k (fold f xs k)"
  by (induction xs arbitrary: k) (auto intro: stays follows)

lemma over_spin:
  assumes "spin over k hs = Some (k', hs')" and "list_all P hs" and "\<And>h k k'. P h \<Longrightarrow> h k = Some k' \<Longrightarrow> R k k'"
  shows "R k k' \<and> list_all P hs'"
  using assms(1,2)
proof (induction over k hs rule: spin.induct)
  case (2 over k h hs)
  show ?case
  proof (cases "over k")
    case False
    with 2 obtain k1 where k1: "h k = Some k1" "spin over k1 hs = Some (k', hs')" by (auto split: option.splits)
    with 2 False have "R k1 k' \<and> list_all P hs'" by simp
    with k1(1) 2(3) show ?thesis using follows [OF assms(3)] by auto
  qed (use 2 stays in auto)
qed (use stays in \<open>auto split: if_splits\<close>)

end

text \<open>A step relation whose steps keep an invariant and stay in the frame does so over a whole run.\<close>

locale framed_run = frame_relation R for R :: "kernel \<Rightarrow> kernel \<Rightarrow> bool" +
  fixes inv :: "kernel \<Rightarrow> bool" and next_state :: "kernel \<Rightarrow> kernel \<Rightarrow> bool"
  assumes one_step: "next_state k k' \<Longrightarrow> inv k \<Longrightarrow> inv k' \<and> R k k'"
begin

lemma whole_run: "rtranclp next_state k k' \<Longrightarrow> inv k \<Longrightarrow> inv k' \<and> R k k'"
  by (induction rule: rtranclp_induct) (use stays follows one_step in blast)+

end

interpretation keeping: frame_relation keeps
  by unfold_locales (auto intro: keeps_trans)

lemma con_frame_keeps:
  assumes "display_ok k" and "con_frame (vid_page k) k k'" and "cursor_ok k'" and "\<forall>t. saved_in (terminals k' t)"
  shows "display_ok k' \<and> same_processes k k'"
proof -
  note d = con_frameD [OF assms(2)]
  have "paging_ok k'" "vid_page k' = vid_page k"
    using assms(1) paging_ok_cong [of k' k] vid_page_cong [of k' k] d by (simp_all add: display_ok_def)
  moreover have "phys k' a = phys k a" if "kernel_addr a \<or> other_mem (current k) a" for a
    using con_frame_phys [OF assms(2)] kernel_not_video other_not_video that assms(1) by (auto simp: display_ok_def)
  ultimately show ?thesis
    using assms(1,3,4) d con_frame_terminal(8) [OF assms(2)] by (simp add: display_ok_def same_processes_def)
qed

lemma keeps_putc: "keeps k (putc c k)"
proof -
  have "display_ok (putc c k) \<and> same_processes k (putc c k)" if d: "display_ok k"
  proof -
    have m: "maps_page k VIDEO (vid_page k)" using d maps_video by (simp add: display_ok_def)
    with d show ?thesis
      using putc_refine(2,3) [OF m, of c] putc_saved [OF m, of c] con_frame_keeps [OF d] by (simp add: display_ok_def)
  qed
  then show ?thesis by (simp add: keeps_def)
qed

lemma keeps_putcs: "keeps k (fold putc cs k)"
  by (rule keeping.over_fold) (rule keeps_putc)

lemma same_processes_out: "same_processes k (k'\<lparr>outs := ws\<rparr>) = same_processes k k'"
  by (simp add: same_processes_def)

text \<open>Updates of fields that neither part mentions.\<close>

lemma display_ok_cong:
  assumes "tabs k' = tabs k" "active k' = active k" "addr_of k' = addr_of k" "screen_x k' = screen_x k"
    "screen_y k' = screen_y k" and "\<And>t. saved_in (terminals k' t) = saved_in (terminals k t)"
  shows "display_ok k' = display_ok k"
  using assms paging_ok_cong [of k' k] vid_page_cong [of k' k] by (simp add: display_ok_def cursor_ok_def)

lemma keeps_cong:
  assumes "tabs k' = tabs k" "active k' = active k" "addr_of k' = addr_of k" "screen_x k' = screen_x k"
    "screen_y k' = screen_y k" "\<And>t. saved_in (terminals k t) \<Longrightarrow> saved_in (terminals k' t)" "same_processes k k'"
  shows "keeps k k'"
  using assms paging_ok_cong [of k' k] vid_page_cong [of k' k] by (auto simp: keeps_def display_ok_def cursor_ok_def)

lemma keeps_text:
  assumes "\<And>s. saved_in (f s) = saved_in s" and "\<And>s. prog_curr_pid (f s) = prog_curr_pid s"
  shows "keeps k (upd_terminal t f k)"
  by (rule keeps_cong) (auto simp: assms same_processes_def upd_terminal_def)

lemma keeps_eoi: "keeps k (send_eoi n k)"
  by (rule keeps_cong) (simp_all add: same_processes_def)

lemma keeps_set_cursor: "keeps k (set_cursor k)"
proof -
  have "display_ok (set_cursor k) \<and> same_processes k (set_cursor k)" if "display_ok k"
  proof (rule con_frame_keeps [OF that set_cursor_frame])
    show "cursor_ok (set_cursor k)" "\<forall>t. saved_in (terminals (set_cursor k) t)"
      using that by (auto simp: display_ok_def cursor_ok_def saved_in_def set_cursor_def save_cursor_def upd_terminal_def
          update_cursor_def outb_def Let_def)
  qed
  then show ?thesis by (simp add: keeps_def)
qed


lemma keeps_screen_backspace: "keeps k (screen_backspace k)"
proof -
  have "display_ok (screen_backspace k) \<and> same_processes k (screen_backspace k)" if d: "display_ok k"
  proof -
    have m: "maps_page k VIDEO (vid_page k)" and c: "cursor_ok k" and s: "\<forall>t. saved_in (terminals k t)"
      using d maps_video by (simp_all add: display_ok_def)
    note r = backspace_refine [OF m c]
    have "terminals (screen_backspace k) = terminals k \<or>
        screen_x_save (terminals (screen_backspace k) (curr_process k)) = screen_x (screen_backspace k) \<and>
        screen_y_save (terminals (screen_backspace k) (curr_process k)) = screen_y (screen_backspace k)"
      by (simp add: screen_backspace_def put_cell_def set_cursor_def save_cursor_def upd_terminal_def
          update_cursor_def outb_def Let_def)
    then have "saved_in (terminals (screen_backspace k) (curr_process k))"
      using r(2) s by (auto simp: saved_in_def cursor_ok_def)
    then have "\<forall>t. saved_in (terminals (screen_backspace k) t)"
      using con_frame_terminal(1) [OF r(3)] s by metis
    with con_frame_keeps [OF d r(3,2)] show ?thesis by blast
  qed
  then show ?thesis by (simp add: keeps_def)
qed

lemma keeps_clear: "keeps k (reset_cursor (clear k))"
proof -
  have "display_ok (reset_cursor (clear k)) \<and> same_processes k (reset_cursor (clear k))" if d: "display_ok k"
  proof -
    have m: "maps_page k VIDEO (vid_page k)" using d maps_video by (simp add: display_ok_def)
    note r = clear_refine [OF m]
    have "saved_in (terminals (reset_cursor (clear k)) (curr_process k))"
      using con_frameD(6) [OF r(2)] by (simp add: reset_cursor_def save_cursor_def upd_terminal_def saved_in_def)
    then have "\<forall>t. saved_in (terminals (reset_cursor (clear k)) t)"
      using con_frame_terminal(1) [OF r(2)] d unfolding display_ok_def by metis
    with con_frame_keeps [OF d r(2,3)] show ?thesis by blast
  qed
  then show ?thesis by (simp add: keeps_def)
qed

subsection \<open>Editing\<close>

lemma keeps_flag: "keeps k (k\<lparr>if_flag := b\<rparr>)"
  by (rule keeps_cong) (simp_all add: same_processes_def)

lemma keeps_modifiers:
  "keeps k (k\<lparr>shift_pressed := b\<rparr>)" "keeps k (k\<lparr>control_pressed := b\<rparr>)" "keeps k (k\<lparr>alt_pressed := b\<rparr>)"
  "keeps k (k\<lparr>caps_lock_on := b\<rparr>)"
  by (rule keeps_cong; simp add: same_processes_def)+

lemma keeps_retype: "keeps k (retype_buffer k)"
  unfolding retype_buffer_def by (rule keeping.over_fold) (rule keeps_putc)

lemma keeps_print_char: "keeps k (print_char c k)"
proof -
  have "keeps k (putc c (upd_terminal (curr_ter k) (\<lambda>t. t\<lparr>typing := (typing t)(buf_len t := c), buf_len := buf_len t + 1\<rparr>) k))"
    by (rule keeps_trans [OF keeps_text keeps_putc]) (simp_all add: saved_in_def)
  then show ?thesis by (simp add: print_char_def)
qed

lemma keeps_backspace: "keeps k (backspace k)"
proof -
  have "keeps k (upd_terminal (curr_ter k) (\<lambda>t. t\<lparr>buf_len := buf_len t - 1, typing := (typing t)(buf_len t - 1 := 0)\<rparr>)
      (screen_backspace k))"
    by (rule keeps_trans [OF keeps_screen_backspace keeps_text]) (simp_all add: saved_in_def)
  then show ?thesis by (simp add: backspace_def)
qed

lemma keeps_enter: "keeps k (enter_key k)"
  unfolding enter_key_def
  by (rule keeps_trans [OF keeps_text keeps_putc]) (simp_all add: saved_in_def commit_line_def Let_def)

lemma keeps_control_l: "keeps k (control_l k)"
proof -
  have "keeps (cli k) (retype_buffer (set_cursor (reset_cursor (clear (cli k)))))"
    by (rule keeps_trans [OF keeps_trans [OF keeps_clear keeps_set_cursor] keeps_retype])
  then have "keeps k (retype_buffer (set_cursor (reset_cursor (clear (cli k)))))"
    using keeps_trans [OF keeps_flag] by (simp add: cli_def)
  then show ?thesis
    using keeps_trans keeps_flag by (simp add: control_l_def cli_and_save_def restore_flags_def)
qed

lemma keeps_recall:
  assumes "recall_line k = Some k'"
  shows "keeps k k'"
proof -
  define k1 where "k1 = fold (\<lambda>_. backspace) [0..<nat (buf_len (shown k))] k"
  define k2 where "k2 = upd_terminal (curr_ter k1) (\<lambda>t. t\<lparr>typing := copy_upto 128 (history t) (typing t)\<rparr>) k1"
  have "keeps k k1" unfolding k1_def by (rule keeping.over_fold) (rule keeps_backspace)
  also have "keeps k1 k2" unfolding k2_def by (rule keeps_text) (simp_all add: saved_in_def)
  also obtain n :: u32 where n: "k' = retype_buffer (upd_terminal (curr_ter k2) (\<lambda>t. t\<lparr>buf_len := sint n\<rparr>) k2)"
    using assms unfolding recall_line_def Let_def k1_def [symmetric] k2_def [symmetric]
    by (cases "strlen (history (shown k2))") auto
  have "keeps k2 k'"
    unfolding n by (rule keeps_trans [OF keeps_text keeps_retype]) (simp_all add: saved_in_def)
  finally show ?thesis .
qed

lemma keeps_handle_char: "keeps k (handle_char c k)"
  using keeps_backspace keeps_enter keeps_print_char by (simp add: handle_char_def)


subsection \<open>Switching\<close>

lemma vcopy_low:
  assumes "\<forall>i < n. \<forall>p. paddr k (dest + of_nat i) = Some p \<longrightarrow> unat p < 0x400000" and "0x400000 \<le> unat a"
  shows "phys (vcopy dest src n k) a = phys k a"
proof -
  have "phys (fold (\<lambda>i k. vwrite (dest + of_nat i) (vmem k (src + of_nat i)) k) is k) a = phys k a"
    if "\<forall>i \<in> set is. \<forall>p. paddr k (dest + of_nat i) = Some p \<longrightarrow> unat p < 0x400000" for "is" k
    using that
  proof (induction "is" arbitrary: k)
    case (Cons i "is")
    let ?k = "vwrite (dest + of_nat i) (vmem k (src + of_nat i)) k"
    have "paddr ?k = paddr k" by (intro paddr_cong) simp_all
    moreover have "phys ?k a = phys k a" using Cons.prems assms(2) by (auto simp: vwrite_def split: option.split)
    ultimately show ?case using Cons by simp
  qed simp
  then show ?thesis using assms(1) by (simp add: vcopy_def)
qed

lemma low_page:
  fixes F :: u32
  assumes "F < 0x400000" and "unat F mod 0x1000 = 0" and "i < 4096"
  shows "unat (F + of_nat i) < 0x400000"
proof -
  have F: "unat F < 0x400000" using assms(1) by (simp add: word_less_nat_alt)
  then have "unat (F + of_nat i) = unat F + i" using assms(2,3) by (intro unat_page(1)) simp_all
  moreover obtain q where "unat F = 0x1000 * q" using assms(2) by auto
  moreover from this have "q \<le> 1023" using F by simp
  ultimately show ?thesis using assms(3) by simp
qed

lemma vwrite_only: "\<exists>m. vwrite a b k = k\<lparr>phys := m\<rparr>"
  by (cases "paddr k a") (auto simp: vwrite_def intro: exI [of _ "phys k"])

lemma vcopy_only: "\<exists>m. vcopy dest src n k = k\<lparr>phys := m\<rparr>"
proof -
  have "\<exists>m. fold (\<lambda>i k. vwrite (dest + of_nat i) (vmem k (src + of_nat i)) k) xs k = k\<lparr>phys := m\<rparr>" for xs
  proof (induction xs arbitrary: k)
    case (Cons i xs)
    obtain m where "vwrite (dest + of_nat i) (vmem k (src + of_nat i)) k = k\<lparr>phys := m\<rparr>" using vwrite_only by blast
    with Cons.IH [of "k\<lparr>phys := m\<rparr>"] show ?case by auto
  next
    case Nil
    show ?case by (rule exI [of _ "phys k"]) simp
  qed
  then show ?thesis by (simp add: vcopy_def)
qed

lemma low_target:
  assumes "maps_page k va F" and "F < 0x400000" and "unat F mod 0x1000 = 0"
  shows "\<forall>i < 4096. \<forall>p. paddr k (va + of_nat i) = Some p \<longrightarrow> unat p < 0x400000"
  using assms low_page by (auto simp: maps_page_def)

lemma backing_low: "0 \<le> t \<Longrightarrow> t < 3 \<Longrightarrow> backing t < 0x400000 \<and> unat (backing t) mod 0x1000 = 0"
  by (elim terminal_cases) (simp_all add: backing_def)

lemma vid_page_aligned: "vid_page k < 0x400000 \<Longrightarrow> unat (vid_page k) mod 0x1000 = 0"
proof -
  have "unat (0x1000 * ucast (f :: 20 word) :: u32) = 0x1000 * unat f" for f
  proof -
    have "unat f < 2 ^ 20" using unsigned_less [of f] by simp
    then show ?thesis by (simp add: unat_word_ariths unsigned_ucast_eq take_bit_nat_eq_self)
  qed
  then show ?thesis by (simp add: vid_page_def)
qed

lemma swap_only:
  assumes "paging_ok k" and "vid_page k < 0x400000" and "0 \<le> old" and "old < 3"
  shows "\<exists>m. swap_vid_mem old new k = k\<lparr>phys := m\<rparr> \<and> (\<forall>a. 0x400000 \<le> unat a \<longrightarrow> m a = phys k a)"
proof -
  let ?k1 = "vcopy (backing old) VIDEO 4096 k"
  obtain m1 where m1: "?k1 = k\<lparr>phys := m1\<rparr>" using vcopy_only by blast
  obtain m2 where m2: "vcopy VIDEO (backing new) 4096 ?k1 = ?k1\<lparr>phys := m2\<rparr>" using vcopy_only by blast
  note b = backing_low [OF assms(3,4)]
  have "phys ?k1 a = phys k a" if "0x400000 \<le> unat a" for a
    using low_target [OF maps_backing [OF assms(1,3,4)]] b that by (intro vcopy_low) auto
  moreover have "maps_page ?k1 VIDEO (vid_page k)"
    using maps_video [OF assms(1)] maps_page_cong [of ?k1 k] by (simp add: m1)
  then have "phys (vcopy VIDEO (backing new) 4096 ?k1) a = phys ?k1 a" if "0x400000 \<le> unat a" for a
    using low_target assms(2) vid_page_aligned [OF assms(2)] that by (intro vcopy_low) auto
  ultimately show ?thesis
    unfolding swap_vid_mem_def backing_def [symmetric] Let_def m2 by (intro exI [of _ m2]) (simp add: m1)
qed

lemma keeps_switch:
  assumes "0 \<le> old" and "old < 3"
  shows "keeps k (snd (switch_ter old new k))"
proof -
  let ?k = "snd (switch_ter old new k)"
  have "display_ok ?k \<and> same_processes k ?k" if d: "display_ok k"
  proof -
    note sel = switch_ter_sel [where k = k and old = old and new = new]
    have v: "vid_page ?k = backing old" "paging_ok ?k" using sel(6,7) assms d by (simp_all add: display_ok_def)
    have "display_ok ?k"
      using d v backing_low [OF assms] sel(1,3,4) by (simp add: display_ok_def cursor_ok_def)
    moreover obtain m where m: "swap_vid_mem old new k = k\<lparr>phys := m\<rparr>" "\<forall>a. 0x400000 \<le> unat a \<longrightarrow> m a = phys k a"
      using swap_only assms d unfolding display_ok_def by blast
    have "\<forall>a. kernel_addr a \<or> other_mem (current k) a \<longrightarrow> m a = phys k a"
      using m(2) by (auto simp: kernel_addr_def other_mem_def)
    then have "same_processes k ?k"
      by (cases "active k") (simp_all add: same_processes_def switch_ter_def m(1) change_vidmem_def
          update_cursor_def kdefs Let_def)
    ultimately show ?thesis ..
  qed
  then show ?thesis by (simp add: keeps_def)
qed

lemma ter_fold: "(\<And>x k. curr_ter (f x k) = curr_ter k) \<Longrightarrow> curr_ter (fold f xs k) = curr_ter k"
  by (induction xs arbitrary: k) simp_all

lemma recall_line_ter: "recall_line k = Some k' \<Longrightarrow> curr_ter k' = curr_ter k"
proof -
  have p: "curr_ter (putc c k) = curr_ter k" for c k by (rule out_frameD(7) [OF putc_self_out])
  have "curr_ter (screen_backspace k) = curr_ter k" for k
    by (rule out_frameD(7) [OF screen_backspace_out [OF out_frame_refl]])
  then have "curr_ter (backspace k) = curr_ter k" for k by (simp add: backspace_def)
  moreover have "curr_ter (retype_buffer k) = curr_ter k" for k
    unfolding retype_buffer_def by (rule ter_fold) (rule p)
  moreover assume "recall_line k = Some k'"
  ultimately show ?thesis by (auto simp: recall_line_def Let_def ter_fold split: option.splits)
qed

lemma keeps_key_down:
  assumes "0 \<le> curr_ter k" and "curr_ter k < 3"
  shows "keeps k (key_down c k)"
proof -
  have "keeps k (switch_terminal_or_return n k)" for n
    using keeps_trans [OF keeps_switch [OF assms] keeps_eoi] keeps_eoi by (simp add: switch_terminal_or_return_def)
  then show ?thesis
    using keeps_trans [OF keeps_control_l keeps_eoi] keeps_trans [OF keeps_handle_char keeps_eoi] by (simp add: key_down_def)
qed

lemma keeps_keyboard:
  assumes "KB_handler c k = Some k'" and "0 \<le> curr_ter k" and "curr_ter k < 3"
  shows "keeps k k'"
proof -
  obtain k1 where k1: "(if c = 0x48 then recall_line k else Some k) = Some k1"
    using assms(1) by (cases "if c = 0x48 then recall_line k else Some k") (auto simp: KB_handler_def)
  have k: "keeps k k1" using k1 keeps_recall by (auto split: if_splits)
  have "curr_ter k1 = curr_ter k" using k1 recall_line_ter by (auto split: if_splits)
  then have d: "keeps k1 (key_down c k1)" using assms(2,3) by (intro keeps_key_down) simp_all
  have "keeps k1 k'"
    using assms(1) d keeps_trans [OF keeps_modifiers(1) keeps_eoi] keeps_trans [OF keeps_modifiers(2) keeps_eoi]
      keeps_trans [OF keeps_modifiers(3) keeps_eoi] keeps_trans [OF keeps_modifiers(4) keeps_eoi] keeps_eoi
    unfolding KB_handler_def k1 by auto
  with k show ?thesis by (rule keeps_trans)
qed

end
