(* ===== verification/Services.thy ===== *)
theory Services
  imports Frames
begin

section \<open>What a system call keeps\<close>

text \<open>
  The system calls other than \<open>execute\<close> and \<open>halt\<close> serve the program that runs: they may print, open and
  close files, set the clock, wait for a key and fill a buffer of the program, but they leave the
  processes, the interrupt lines and the kernel's memory alone.
\<close>

subsection \<open>The program that runs\<close>

abbreviation (input) block :: "kernel \<Rightarrow> int \<Rightarrow> pcb" where
  "block k n \<equiv> pcbs k (get_pcb_by_pid n)"

text \<open>The program address leads to the memory of its slot, and the next trap will use its kernel stack.\<close>

definition in_context :: "kernel \<Rightarrow> bool" where
  "in_context k \<longleftrightarrow> (let d = page_directory (tabs k) 32 in
     0 \<le> current k \<and> current k < 6 \<and> pde_present d \<and> pde_page_size d \<and>
     0x400000 * (ucast (pde_address d) div 1024) = prog_page (current k) \<and>
     esp0 (tss k) = 0x800000 - 4 - word_of_int (current k) * 0x2000)"

definition sound :: "kernel \<Rightarrow> bool" where
  "sound k \<longleftrightarrow> display_ok k \<and> kb_ok k \<and> in_context k"

definition serves :: "kernel \<Rightarrow> kernel \<Rightarrow> bool" where
  "serves k k' \<longleftrightarrow> (sound k \<longrightarrow> sound k' \<and> same_processes k k')"

lemma serves_refl [intro, simp]: "serves k k"
  by (simp add: serves_def same_processes_def)

lemma serves_trans [trans]: "serves k k' \<Longrightarrow> serves k' k'' \<Longrightarrow> serves k k''"
  unfolding serves_def using same_processes_trans by blast

interpretation serving: frame_relation serves
  by unfold_locales (auto intro: serves_trans)

lemma in_context_same: "same_processes k k' \<Longrightarrow> in_context k \<Longrightarrow> in_context k'"
  by (simp add: in_context_def current_def same_processes_def)

lemma serves_keeps:
  assumes "keeps k k'" and "kb_ok k \<Longrightarrow> kb_ok k'"
  shows "serves k k'"
  using assms in_context_same by (auto simp: serves_def keeps_def sound_def)

lemma serves_out:
  assumes "keeps k k'" and "out_frame k k'"
  shows "serves k k'"
  using assms(1) by (rule serves_keeps) (simp add: kb_ok_def term_ok_out [OF assms(2)] out_frameD [OF assms(2)])

lemma serves_putc: "serves k (putc c k)"
  by (rule serves_out [OF keeps_putc putc_self_out])

lemma serves_putcs: "serves k (fold putc cs k)"
  by (rule serving.over_fold) (rule serves_putc)

lemma serves_cong:
  assumes "tabs k' = tabs k" "active k' = active k" "addr_of k' = addr_of k" "screen_x k' = screen_x k"
    "screen_y k' = screen_y k" "terminals k' = terminals k" "curr_ter k' = curr_ter k" "same_processes k k'"
  shows "serves k k'"
  using assms by (intro serves_keeps keeps_cong) (simp_all add: kb_ok_def)

lemma serves_block:
  assumes "\<And>q. same_block q (f q)"
  shows "serves k (upd_pcb p f k)"
  by (rule serves_cong) (use assms in \<open>simp_all add: same_processes_def upd_pcb_def\<close>)

lemma serves_flag: "serves k (k\<lparr>if_flag := b\<rparr>)"
  by (rule serves_cong) (simp_all add: same_processes_def)

lemma serves_stack: "serves k (k\<lparr>esp := s, ebp := b\<rparr>)"
  by (rule serves_cong) (simp_all add: same_processes_def)

lemma serves_flags: "serves k (k\<lparr>rtc_interrupt_flags := f\<rparr>)"
  by (rule serves_cong) (simp_all add: same_processes_def)

lemma serves_keyboard: "KB_handler c k = Some k' \<Longrightarrow> serves k k'"
proof -
  assume h: "KB_handler c k = Some k'"
  have "sound k' \<and> same_processes k k'" if s: "sound k"
  proof -
    have "kb_inv k" and t: "0 \<le> curr_ter k" "curr_ter k < 3"
      using s by (simp_all add: sound_def display_ok_def kb_inv_def kb_ok_def)
    then have "kb_ok k'" using KB_handler_inv [of k c] h by (simp add: kb_inv_def)
    moreover have "display_ok k' \<and> same_processes k k'"
      using keeps_keyboard [OF h t] s by (simp add: keeps_def sound_def)
    ultimately show ?thesis using s in_context_same by (auto simp: sound_def)
  qed
  then show ?thesis by (simp add: serves_def)
qed

subsection \<open>The clock\<close>

lemma serves_clock: "serves k (RT_handler k)"
  by (rule serves_cong) (simp_all add: RT_handler_def send_eoi_def outb_def same_processes_def Let_def)

lemma serves_frequency: "serves k (rtc_set_frequency a f k)"
  by (rule serves_cong) (simp_all add: rtc_set_frequency_def outb_def same_processes_def Let_def)

lemma same_block_clock [simp]:
  "same_block q (q\<lparr>prog_freq := f\<rparr>)" "same_block q (q\<lparr>pcb_count := c\<rparr>)" "same_block q (q\<lparr>divisor := d\<rparr>)"
  by (simp_all add: same_block_def block_ok_def)

lemma serves_divisor: "serves k (update_divisor i k)"
  by (simp add: update_divisor_def serves_block)

lemma serves_higher: "serves k (k\<lparr>higher_freq := f\<rparr>)"
  by (rule serves_cong) (simp_all add: same_processes_def)

lemma serves_rtc_open: "serves k (snd (rtc_open a v k))"
  using serves_trans [OF serves_block serves_frequency] by (simp add: rtc_open_def Let_def)

lemma serves_rtc_close: "serves k (snd (rtc_close a fd k))"
  unfolding rtc_close_def Let_def snd_conv
  by (rule serves_trans [OF serves_trans [OF serves_higher serves_frequency] serving.over_fold]) (rule serves_divisor)

lemma serves_rtc_write: "serves k (snd (rtc_write a fd buf n k))"
proof -
  let ?freq = "\<lambda>p f k. upd_pcb p (\<lambda>q. q\<lparr>prog_freq := f\<rparr>) k"
  have up: "serves k (rtc_set_frequency a h (fold update_divisor xs ((?freq p f k)\<lparr>higher_freq := g\<rparr>)))"
    for a h xs p f g k
    by (rule serves_trans [OF serves_trans [OF serves_trans [OF serves_block serves_higher] serving.over_fold] serves_frequency])
      (auto intro: serves_divisor)
  have same: "serves k (rtc_set_frequency a h (upd_pcb p (\<lambda>q. q\<lparr>divisor := d\<rparr>) (?freq p f k)))" for a h d p f k
    by (rule serves_trans [OF serves_trans [OF serves_block serves_block] serves_frequency]) simp_all
  show ?thesis
    using up [where xs = "[0, 1, 2, 3, 4, 5]", simplified] same by (simp add: rtc_write_def Let_def)
qed

subsection \<open>Waiting\<close>

text \<open>The interrupts that may break into a wait without taking the processor away from the program.\<close>

definition device :: "interrupt \<Rightarrow> bool" where
  "device h \<longleftrightarrow> h = RT_int \<or> (\<exists>c. h = KB_int c)"

lemma serves_device: "device h \<Longrightarrow> h k = Some k' \<Longrightarrow> serves k k'"
  using serves_clock serves_keyboard by (auto simp: device_def RT_int_def KB_int_def)

lemmas serves_spin = serving.over_spin [of _ _ _ _ _ device, OF _ _ serves_device]

text \<open>
  A read of the clock in two parts: up to its first wait, and what follows each interrupt it waited for,
  up to the next wait or to the end.
\<close>

definition flag_down :: "kernel \<Rightarrow> kernel" where
  "flag_down k = k\<lparr>rtc_interrupt_flags := (rtc_interrupt_flags k)(curr_process k := 0)\<rparr>"

definition tick_wait :: "u32 \<Rightarrow> kernel \<Rightarrow> kernel" where
  "tick_wait p k = flag_down (sti (upd_pcb p (\<lambda>q. q\<lparr>pcb_count := divisor q\<rparr>) k))"

definition tick_taken :: "u32 \<Rightarrow> kernel \<Rightarrow> kernel" where
  "tick_taken p k =
     (let k1 = upd_pcb p (\<lambda>q. q\<lparr>pcb_count := pcb_count q - 1\<rparr>) k
      in if pcb_count (pcbs k1 p) > 0 then flag_down k1 else k1)"

lemma rtc_loop_parts:
  "rtc_read_loop p k hs = (case wait_flag (flag_down k) hs of
     None \<Rightarrow> None
   | Some (k1, hs1) \<Rightarrow>
       if pcb_count (pcbs (tick_taken p k1) p) > 0
       then rtc_read_loop p (upd_pcb p (\<lambda>q. q\<lparr>pcb_count := pcb_count q - 1\<rparr>) k1) hs1
       else Some (tick_taken p k1, hs1))"
  by (subst rtc_read_loop.simps) (auto simp: flag_down_def tick_taken_def Let_def split: option.split)

lemma serves_flag_down: "serves k (flag_down k)"
  unfolding flag_down_def by (rule serves_flags)

lemma serves_tick_wait: "serves k (tick_wait p k)"
  unfolding tick_wait_def sti_def by (rule serves_trans [OF serves_trans [OF serves_block serves_flag] serves_flag_down]) simp

lemma serves_tick_taken: "serves k (tick_taken p k)"
proof -
  have "serves k (upd_pcb p (\<lambda>q. q\<lparr>pcb_count := pcb_count q - 1\<rparr>) k)" by (rule serves_block) simp
  then show ?thesis using serves_trans [OF _ serves_flag_down] by (simp add: tick_taken_def Let_def)
qed

lemma serves_rtc_loop:
  assumes "rtc_read_loop p k hs = Some (k', hs')" and "list_all device hs"
  shows "serves k k' \<and> list_all device hs'"
  using assms
proof (induction p k hs rule: rtc_read_loop.induct)
  case (1 p k hs)
  let ?k0 = "k\<lparr>rtc_interrupt_flags := (rtc_interrupt_flags k)(curr_process k := 0)\<rparr>"
  obtain k1 hs1 where w: "wait_flag ?k0 hs = Some (k1, hs1)"
    using 1(2) by (subst (asm) rtc_read_loop.simps) (auto split: option.splits)
  let ?k2 = "upd_pcb p (\<lambda>q. q\<lparr>pcb_count := pcb_count q - 1\<rparr>) k1"
  have s: "serves ?k0 k1 \<and> list_all device hs1"
    using serves_spin [OF w [unfolded wait_flag_def] 1(3)] .
  have k2: "serves k ?k2"
    using s serves_trans [OF serves_trans [OF serves_flags] serves_block] by auto
  show ?case
  proof (cases "pcb_count (pcbs ?k2 p) > 0")
    case True
    then have "rtc_read_loop p ?k2 hs1 = Some (k', hs')"
      using 1(2) w by (subst (asm) rtc_read_loop.simps) (simp add: Let_def)
    with 1(1) [OF w refl refl] True s have "serves ?k2 k' \<and> list_all device hs'" by simp
    with k2 show ?thesis using serves_trans by blast
  next
    case False
    then have "k' = ?k2 \<and> hs' = hs1"
      using 1(2) w by (subst (asm) rtc_read_loop.simps) (simp add: Let_def)
    with k2 s show ?thesis by simp
  qed
qed

lemma serves_rtc_read:
  assumes "rtc_read fd buf n k hs = Some (r, k', hs')" and "list_all device hs"
  shows "serves k k'"
proof -
  have "serves k (sti (upd_pcb p (\<lambda>q. q\<lparr>pcb_count := divisor q\<rparr>) k))" for p
    unfolding sti_def by (rule serves_trans [OF serves_block serves_flag]) simp
  then show ?thesis
    using assms serves_rtc_loop serves_trans by (auto simp: rtc_read_def Let_def split: if_splits) blast
qed

subsection \<open>Memory of the program\<close>

text \<open>Where a program's own stores and those that a call makes for it can go.\<close>

definition user_area :: "u32 \<Rightarrow> bool" where
  "user_area a \<longleftrightarrow> unat a div 0x400000 = 32 \<or> unat a div 0x400000 = 33"

lemma walk_vidmap:
  assumes "paging_ok k" and "unat a div 0x400000 = 33" and "walk (addr_of k) (tabs k) a = Some p"
  shows "0xB8000 \<le> p \<and> p < 0xBC000"
proof -
  let ?i = "unat a div 0x1000 mod 1024"
  let ?e = "vidmem_page_table (tabs k) (int ?i)"
  have "table_at (addr_of k) (tabs k) (vpt_frame k) i = Some (vidmem_page_table (tabs k) i)" for i
    using assms(1) by (auto simp: table_at_def paging_ok_def pt_frame_def vpt_frame_def)
  then have e: "pte_present ?e" "p = 0x1000 * ucast (pte_address ?e) + a mod 0x1000"
    using assms by (auto simp: walk_def div_4MB(2) div_4KB paging_ok_def pd_ok_def Let_def split: if_splits)
  have "?i = 0"
  proof (rule ccontr)
    assume "?i \<noteq> 0"
    then have "0 < int ?i \<and> int ?i < 1024" by simp
    with e(1) assms(1) show False unfolding paging_ok_def vpt_ok_def Let_def by blast
  qed
  with e assms(1) have "pte_address ?e \<in> {0xB8, 0xB9, 0xBA, 0xBB}"
    by (simp add: paging_ok_def vpt_ok_def Let_def)
  then show ?thesis
    using e(2) by (auto simp: word_le_nat_alt word_less_nat_alt unat_word_ariths unat_mod_distrib)
qed

lemma user_target:
  assumes "sound k" and "user_area a" and "paddr k a = Some p"
  shows "\<not> kernel_addr p \<and> \<not> other_mem (current k) p"
proof -
  have ok: "paging_ok k" and c: "0 \<le> current k" "current k < 6" using assms(1) by (simp_all add: sound_def display_ok_def in_context_def Let_def)
  then have w: "walk (addr_of k) (tabs k) a = Some p" using assms(3) by (simp add: paddr_def paging_ok_def)
  show ?thesis
  proof (cases "unat a div 0x400000 = 33")
    case True
    from walk_vidmap [OF ok this w] show ?thesis by (simp add: kernel_addr_def other_mem_def word_le_nat_alt word_less_nat_alt)
  next
    case False
    then have "p = prog_page (current k) + a mod 0x400000"
      using assms(1,2) w by (auto simp: walk_def div_4MB(2) user_area_def sound_def in_context_def Let_def)
    then have "unat p = 0x400000 * nat (current k + 2) + unat a mod 0x400000" using prog_page_unat [OF c] by simp
    moreover from this have "in_slot (current k) p" by (simp add: in_slot_def)
    moreover have "2 \<le> nat (current k + 2)" using c(1) by simp
    ultimately show ?thesis by (simp add: kernel_addr_def other_mem_def)
  qed
qed

lemma vstore_only: "\<exists>m. vstore a bs k = k\<lparr>phys := m\<rparr>"
proof (induction bs arbitrary: a k)
  case (Cons b bs)
  obtain m where "vwrite a b k = k\<lparr>phys := m\<rparr>" using vwrite_only by blast
  with Cons.IH [of "a + 1" "k\<lparr>phys := m\<rparr>"] show ?case by auto
next
  case Nil
  show ?case by (rule exI [of _ "phys k"]) simp
qed

lemma serves_memory:
  assumes "\<And>a. sound k \<Longrightarrow> kernel_addr a \<or> other_mem (current k) a \<Longrightarrow> m a = phys k a"
  shows "serves k (k\<lparr>phys := m\<rparr>)"
proof -
  have "display_ok (k\<lparr>phys := m\<rparr>) = display_ok k" by (rule display_ok_cong) simp_all
  moreover have "sound k \<Longrightarrow> same_processes k (k\<lparr>phys := m\<rparr>)" using assms by (simp add: same_processes_def)
  ultimately show ?thesis using in_context_same by (auto simp: serves_def sound_def kb_ok_def)
qed

lemma serves_vwrite:
  assumes "user_area a"
  shows "serves k (vwrite a b k)"
proof (cases "paddr k a")
  case (Some p)
  then have "serves k (k\<lparr>phys := (phys k)(p := b)\<rparr>)"
    using user_target [OF _ assms] by (intro serves_memory) auto
  with Some show ?thesis by (simp add: vwrite_def)
qed (simp add: vwrite_def)

definition buffer_ok :: "u32 \<Rightarrow> nat \<Rightarrow> bool" where
  "buffer_ok a n \<longleftrightarrow> (\<forall>i < n. user_area (a + of_nat i))"

lemma buffer_ok_less: "buffer_ok a n \<Longrightarrow> m \<le> n \<Longrightarrow> buffer_ok a m"
  by (simp add: buffer_ok_def)

lemma serves_vstore: "buffer_ok a (length bs) \<Longrightarrow> serves k (vstore a bs k)"
proof (induction bs arbitrary: a k)
  case (Cons b bs)
  have a: "user_area a" "buffer_ok (a + 1) (length bs)"
    using Cons.prems by (auto simp: buffer_ok_def add.assoc dest: spec [of _ 0] spec [of _ "Suc _"])
  from serves_trans [OF serves_vwrite [OF a(1)] Cons.IH [OF a(2)]] show ?case by simp
qed simp

subsection \<open>Files\<close>

lemma same_block_fdt:
  assumes "\<And>e. enabled (f e) \<Longrightarrow> enabled e \<and> fot_ptr (f e) = fot_ptr e"
  shows "same_block q (upd_fdt i f q)"
  using assms by (auto simp: same_block_def block_ok_def upd_fdt_def)

lemma serves_file_read:
  assumes "buffer_ok buf (unat (word_of_int n :: u32))"
  shows "serves k (snd (file_read fd buf n k))"
proof -
  define r where "r = read_data (vmem k) (fs k) (inode_idx (fdt (pcbs k (get_curr_pcb k)) fd))
    (file_position (fdt (pcbs k (get_curr_pcb k)) fd)) (word_of_int n)"
  have "length (snd r) \<le> unat (word_of_int n :: u32)"
    unfolding r_def by (cases "inode_idx (fdt (pcbs k (get_curr_pcb k)) fd) < num_inodes (fs k)")
      (simp_all add: read_data_eq Let_def, simp add: read_data_def not_less)
  then have "serves k (vstore buf (snd r) k)" using assms buffer_ok_less by (intro serves_vstore) blast
  moreover have "snd (file_read fd buf n k) = upd_pcb (get_curr_pcb k) (upd_fdt fd (\<lambda>e. e\<lparr>file_position :=
      file_position e + word_of_int (fst r)\<rparr>)) (vstore buf (snd r) k)"
    by (simp add: file_read_def r_def Let_def split_beta)
  moreover have "serves (vstore buf (snd r) k) \<dots>" by (rule serves_block [OF same_block_fdt]) simp
  ultimately show ?thesis using serves_trans by simp
qed

lemma serves_dir_read:
  assumes "dir_read fd buf n k = Some (r, k')" and "buffer_ok buf 32"
  shows "serves k k'"
proof -
  have "serves k (upd_pcb p (upd_fdt fd (\<lambda>e. e\<lparr>file_position := file_position e + 1\<rparr>)) (vstore buf (bytes v 32) k))" for p v
    by (rule serves_trans [OF serves_vstore serves_block [OF same_block_fdt]]) (use assms(2) in simp_all)
  then show ?thesis
    using assms(1) by (auto simp: dir_read_def Let_def split: if_splits prod.splits)
qed

lemma serves_terminal_write: "serves k (snd (terminal_write fd buf n k))"
proof -
  have "serves k (fold (\<lambda>i k. let c = vmem k (buf + of_nat i) in if c \<noteq> 0 then putc c k else k) xs k)" for xs
    by (rule serving.over_fold) (simp add: serves_putc Let_def)
  then show ?thesis using serves_putcs by (simp add: terminal_write_def)
qed

lemma serves_text:
  assumes "\<And>s. saved_in (f s) = saved_in s" and "\<And>s. prog_curr_pid (f s) = prog_curr_pid s"
    and "\<And>s. term_ok s \<Longrightarrow> term_ok (f s)"
  shows "serves k (upd_terminal t f k)"
  by (rule serves_keeps [OF keeps_text]) (use assms in \<open>auto simp: kb_ok_def\<close>)

text \<open>A read of the keyboard in two parts: up to its wait, and what follows when a line has been entered.\<close>

definition line_wait :: "kernel \<Rightarrow> kernel" where
  "line_wait k = upd_terminal (curr_process k) (\<lambda>t. t\<lparr>buffer_updated := 0\<rparr>) (sti k)"

definition line_taken :: "u32 \<Rightarrow> int \<Rightarrow> kernel \<Rightarrow> int \<times> kernel" where
  "line_taken buf n k =
     (let copied = copy_upto n (typed (terminals k (curr_process k))) (fresh k);
          k1 = vstore buf (bytes (end_line [0..<nat n] (copied(n - 1 := 0))) (nat n)) (clear_buffer k)
      in (written_bytes (terminals k1 (curr_process k1)), k1))"

lemma terminal_read_parts:
  assumes "buf \<noteq> 0" and "0 \<le> n"
  shows "terminal_read fd buf n k hs =
    map_option (\<lambda>(k3, hs'). (fst (line_taken buf (min n 128) k3), snd (line_taken buf (min n 128) k3), hs'))
      (spin (\<lambda>k. buffer_updated (terminals k (curr_process k)) \<noteq> 0) (line_wait k) hs)"
proof -
  have "(if n > 128 then 128 else n) = min n 128" "curr_process (sti k) = curr_process k" "\<not> min n 128 < 0"
    using assms(2) by (simp_all add: sti_def)
  then show ?thesis
    using assms by (simp add: terminal_read_def line_wait_def line_taken_def Let_def split: option.split)
qed

lemma serves_line_wait: "serves k (line_wait k)"
  unfolding line_wait_def sti_def by (rule serves_trans [OF serves_flag serves_text]) (simp_all add: saved_in_def term_ok_def)

lemma serves_line_taken:
  assumes "buffer_ok buf (nat n)"
  shows "serves k (snd (line_taken buf n k))"
proof -
  have "cprefix 128 (zero_range 0 128 v) = []" for v
    by (simp add: cprefix_def bytes_def upt_rec [of 0 128])
  then have "serves k (clear_buffer k)" unfolding clear_buffer_def
    by (intro serves_text) (simp_all add: saved_in_def term_ok_def del: zero_range_def)
  then show ?thesis
    using assms serves_trans [OF _ serves_vstore] by (simp add: line_taken_def Let_def)
qed

lemma serves_terminal_read:
  assumes "terminal_read fd buf n k hs = Some (r, k', hs')" and "list_all device hs" and "buffer_ok buf (nat n)"
  shows "serves k k'"
proof (cases "buf = 0 \<or> n < 0")
  case False
  then obtain k3 where k3: "spin (\<lambda>k. buffer_updated (terminals k (curr_process k)) \<noteq> 0) (line_wait k) hs = Some (k3, hs')"
    and k': "k' = snd (line_taken buf (min n 128) k3)"
    using assms(1) terminal_read_parts [of buf n fd k hs] by auto
  have "buffer_ok buf (nat (min n 128))" using assms(3) by (rule buffer_ok_less) simp
  from serves_trans [OF serves_trans [OF serves_line_wait conjunct1 [OF serves_spin [OF k3 assms(2)]]] serves_line_taken [OF this]]
  show ?thesis by (simp add: k')
qed (use assms(1) in \<open>auto simp: terminal_read_def Let_def split: if_splits\<close>)

lemma serves_open:
  assumes "sys_open a fname k = Some (r, k')"
  shows "serves k k'"
proof -
  let ?fd = "get_new_fd k" and ?p = "get_curr_pcb k"
  obtain x d where rd: "read_dentry_by_name (vmem k) (fs k) fname (fresh k) = Some (x, d)"
    using assms by (auto simp: sys_open_def split: option.splits)
  then have x: "x = ERROR \<or> x = 0" by (auto simp: read_dentry_by_name_def Let_def split: option.splits if_splits)
  show ?thesis
  proof (cases "x = ERROR \<or> ?fd = ERROR")
    case False
    then obtain n where n: "strlen fname = Some n"
      using assms rd by (auto simp: sys_open_def Let_def split: option.splits)
    define rtc where "rtc = (strncmp fname (lit ''rtc'') n = 0)"
    obtain f where f: "fot_of (if de_file_type d = 1 then dir_fot else if rtc then rtc_fot else file_fot) = Some f"
      by (cases "de_file_type d = 1"; cases rtc) auto
    let ?k = "upd_pcb ?p (open_entry ?fd d rtc) k"
    have k': "k' = snd (call_open a (fot_open f) fname ?k)"
      using sys_open_eq [OF n _ _ rtc_def f, of k a] rd x False assms by auto
    have "same_block q (open_entry ?fd d rtc q)" for q
      by (auto simp: same_block_def block_ok_def open_entry_def upd_fdt_def std_entry_def opened_def)
    then have "serves k ?k" by (rule serves_block)
    also have "serves ?k k'"
      unfolding k' using serves_rtc_open by (cases "fot_open f") simp_all
    finally show ?thesis .
  next
    case True
    then have "sys_open a fname k = Some (ERROR, k)" using rd by (cases "x = ERROR") (simp_all add: sys_open_def Let_def)
    with assms show ?thesis by simp
  qed
qed

lemma serves_call_close: "serves k (snd (call_close a f fd k))"
  using serves_rtc_close by (cases f) simp_all

lemma serves_close:
  assumes "sys_close a fd k = Some (r, k')"
  shows "serves k k'"
proof (cases "fd < 2 \<or> fdt_flag (pcbs k (get_curr_pcb k)) fd \<noteq> Some True")
  case False
  let ?k = "upd_pcb (get_curr_pcb k) (upd_fdt fd (\<lambda>e. e\<lparr>enabled := False\<rparr>)) k"
  obtain f :: fot where f: "call_close a (fot_close f) fd ?k = (r, k')"
    using assms False by (auto simp: sys_close_def Let_def)
  have "serves k ?k" by (rule serves_block [OF same_block_fdt]) simp
  with serves_call_close [of ?k a "fot_close f" fd] show ?thesis using serves_trans by (simp add: f)
qed (use assms in \<open>auto simp: sys_close_def split: option.splits if_splits\<close>)

lemma serves_write:
  assumes "sys_write a fd buf n k = Some (r, k')"
  shows "serves k k'"
proof -
  have "serves k (snd (call_write a f fd buf n k))" for f
    using serves_rtc_write serves_terminal_write by (cases f) simp_all
  then show ?thesis using assms by (auto simp: sys_write_def Let_def split: if_splits option.splits) (metis snd_conv)
qed

lemma serves_read:
  fixes n :: u32
  assumes "sys_read fd buf (sint n) k hs = Some (r, k', hs')" and "list_all device hs"
    and "buffer_ok buf (max 32 (unat n))"
  shows "serves k k'"
proof -
  have b: "buffer_ok buf 32" "buffer_ok buf (unat (word_of_int (sint n) :: u32))" "buffer_ok buf (nat (sint n))"
  proof -
    have "nat (sint n) \<le> unat n" by (cases "0 \<le> sint n") (simp_all add: sint_nonneg)
    then show "buffer_ok buf 32" "buffer_ok buf (unat (word_of_int (sint n) :: u32))" "buffer_ok buf (nat (sint n))"
      using assms(3) by (auto elim: buffer_ok_less)
  qed
  have "serves k k'" if "call_read f fd buf (sint n) k hs = Some (r, k', hs')" for f
    using that assms(2) b serves_rtc_read serves_file_read [OF b(2), of k fd] serves_dir_read serves_terminal_read
    by (cases f) (auto split: prod.splits)
  then show ?thesis using assms(1) by (auto simp: sys_read_def Let_def split: if_splits option.splits)
qed

lemma serves_not_implemented:
  assumes "not_implemented k = Some (r, k')"
  shows "serves k k'"
proof -
  have "\<exists>m t. printf (lit (''Not implemented yet'' @ [CHR 0x0A])) (pushed []) k = Some (m, fold putc t k)"
  proof (rule lit_msg)
    show "0 \<notin> set (map of_char (''Not implemented yet'' @ [CHR 0x0A]) :: u8 list)" by code_simp
  qed (simp_all add: expand.simps)
  with assms serves_putcs show ?thesis by (auto simp: not_implemented_def)
qed

lemma serves_getargs:
  fixes n :: u32
  assumes "-1 \<le> arg_len (pcbs k (get_curr_pcb k))" and "buffer_ok buf (unat n + 1)"
  shows "serves k (snd (sys_getargs buf (sint n) k))"
proof -
  let ?l = "arg_len (pcbs k (get_curr_pcb k))"
  show ?thesis
  proof (cases "buf = 0 \<or> ?l = ERROR \<or> sint n < ?l")
    case False
    then have l: "0 \<le> ?l" "?l \<le> sint n" using assms(1) by (auto simp: ERROR_def)
    then have "?l \<le> int (unat n)" using sint_nonneg [of n] by linarith
    then have "nat ?l \<le> unat n" by (simp add: nat_le_iff del: of_nat_unat)
    then have "user_area (buf + of_nat (nat ?l))" "buffer_ok buf (nat ?l)"
      using assms(2) by (auto simp: buffer_ok_def)
    then have w: "serves k (vwrite (buf + word_of_int ?l) 0 k)" and b: "buffer_ok buf (length (bytes v (nat ?l)))" for v
      using l(1) serves_vwrite by simp_all
    show ?thesis
      using False serves_trans [OF w serves_vstore [OF b]] serves_vstore [OF b] by (simp add: sys_getargs_def Let_def)
  qed (auto simp: sys_getargs_def Let_def)
qed

lemma serves_get_vidmem: "serves k (snd (get_vidmem k))"
proof -
  let ?k = "snd (get_vidmem k)"
  have "?k = k\<lparr>tabs := tabs ?k, active := active ?k\<rparr> \<and> page_table (tabs ?k) = page_table (tabs k) \<and>
      page_directory (tabs ?k) 32 = page_directory (tabs k) 32"
    by (cases "active k") (simp_all add: get_vidmem_def kdefs Let_def)
  then have only: "\<exists>t a. ?k = k\<lparr>tabs := t, active := a\<rparr> \<and> page_table t = page_table (tabs k) \<and>
      page_directory t 32 = page_directory (tabs k) 32" by blast
  then have "vid_page ?k = vid_page k" by (auto simp: vid_page_def)
  then have "display_ok k \<Longrightarrow> display_ok ?k"
    using only get_vidmem_ok [of k] by (auto simp: display_ok_def cursor_ok_def)
  moreover have "same_processes k ?k" using only by (auto simp: same_processes_def)
  ultimately have "keeps k ?k" by (simp add: keeps_def)
  then show ?thesis by (rule serves_keeps) (use only in \<open>auto simp: kb_ok_def\<close>)
qed

lemma serves_vidmap: "serves k (snd (sys_vidmap a k))"
proof (cases "a = 0 \<or> sint a < 0x8000000 \<or> sint a > 0x8400000")
  case False
  then have "sint a = int (unat a)" by (intro sint_nonneg) auto
  then have a: "0x8000000 \<le> unat a" "unat a \<le> 0x8400000" using False by linarith+
  have "user_area (a + of_nat i)" if "i < 4" for i
  proof -
    have "unat (a + of_nat i) = unat a + i" using a that by (simp add: unat_word_ariths wsimps)
    then show ?thesis using a that by (simp add: user_area_def) linarith
  qed
  then have b: "buffer_ok a (length [w, x, y, z])" for w x y z :: u8 by (simp add: buffer_ok_def)
  show ?thesis
    using False serves_trans [OF serves_get_vidmem serves_vstore [OF b]]
    by (simp add: sys_vidmap_def split_beta del: vstore.simps)
qed (auto simp: sys_vidmap_def)

subsection \<open>Every call but two\<close>

text \<open>The buffers that a call fills lie where the program may store; a directory entry takes 32 bytes whatever is asked for.\<close>

definition buffers_ok :: "u32 \<Rightarrow> u32 \<Rightarrow> u32 \<Rightarrow> u32 \<Rightarrow> bool" where
  "buffers_ok eax ebx ecx edx \<longleftrightarrow> (eax = 3 \<longrightarrow> buffer_ok ecx (max 32 (unat edx))) \<and> (eax = 7 \<longrightarrow> buffer_ok ebx (unat ecx + 1))"

lemma call_cases:
  assumes "eax - 1 < (10 :: u32)"
  shows "eax \<in> {1, 2, 3, 4, 5, 6, 7, 8, 9, 10}"
proof -
  have "unat (eax - 1) < 10" using assms by (simp add: word_less_nat_alt)
  then have "unat (eax - 1) \<in> {0, 1, 2, 3, 4, 5, 6, 7, 8, 9}" by auto
  moreover have "eax = of_nat (unat (eax - 1)) + 1" by simp
  ultimately show ?thesis by (elim insertE emptyE) (simp_all only:, simp_all)
qed

lemma serves_call:
  assumes "SYS_handler_wrapper a eax ebx ecx edx k hs = Some (f, k', hs')" and "list_all device hs"
    and "eax \<noteq> 1" and "eax \<noteq> 2" and "buffers_ok eax ebx ecx edx" and "-1 \<le> arg_len (pcbs k (get_curr_pcb k))"
  shows "serves k k'"
proof -
  let ?k = "sti k"
  have st: "serves k ?k" unfolding sti_def by (rule serves_flag)
  have arg: "-1 \<le> arg_len (pcbs ?k (get_curr_pcb ?k))" using assms(6) by (simp add: sti_def get_curr_pcb_def)
  have "serves ?k k'"
  proof (cases "eax - 1 < 10")
    case False
    then show ?thesis using assms(1) by (simp add: SYS_handler_wrapper_def not_less)
  next
    case True
    from call_cases [OF True] assms(3,4) consider "eax = 3" | "eax = 4" | "eax = 5" | "eax = 6" | "eax = 7" | "eax = 8"
      | "eax = 9" | "eax = 10" by auto
    then show ?thesis
    proof cases
      case 1
      with assms obtain r where "sys_read (sint ebx) ecx (sint edx) ?k hs = Some (r, k', hs')"
        by (auto simp: SYS_handler_wrapper_def)
      then show ?thesis by (rule serves_read) (use 1 assms in \<open>simp_all add: buffers_ok_def\<close>)
    next
      case 5
      with assms have "k' = snd (sys_getargs ebx (sint ecx) ?k)" by (auto simp: SYS_handler_wrapper_def split: prod.splits)
      with serves_getargs [OF arg, of ebx ecx] 5 assms(5) show ?thesis by (simp add: buffers_ok_def)
    next
      case 6
      with assms have "k' = snd (sys_vidmap ebx ?k)" by (auto simp: SYS_handler_wrapper_def split: prod.splits)
      with serves_vidmap show ?thesis by simp
    qed (use assms(1) serves_write serves_open serves_close serves_not_implemented in
        \<open>auto simp: SYS_handler_wrapper_def sys_set_handler_def sys_sigreturn_def Let_def\<close>)
  qed
  with st show ?thesis by (rule serves_trans)
qed

end
