(* ===== verification/Machine.thy ===== *)
theory Machine
  imports Services
begin

section \<open>The running machine\<close>

text \<open>
  The interrupts and the programs together, once the three shells run: a step relation over the
  whole state, with the timer, the keyboard, the clock, the system calls and exceptions of the
  program that runs and its own stores, and the invariant of every state it reaches.
\<close>

subsection \<open>Families of processes\<close>

text \<open>
  A terminal has a chain of processes: the program that runs on it, the one that started it, and so
  on to the root shell, which has the slot with the number of the terminal. The three chains share
  no slot, and a slot outside them is free.
\<close>

definition alive :: "kernel \<Rightarrow> int \<Rightarrow> bool" where
  "alive k n \<longleftrightarrow> used_pids k n \<noteq> 0 \<and> pcb_pid (block k n) = n \<and> block_ok (block k n)"

fun chain :: "kernel \<Rightarrow> int \<Rightarrow> int list \<Rightarrow> bool" where
  "chain k t [] = False"
| "chain k t [n] = (n = t \<and> alive k n \<and> par_pid (block k n) = n)"
| "chain k t (n # m # ns) = (3 \<le> n \<and> n < 6 \<and> alive k n \<and> par_pid (block k n) = m \<and>
     par_pcb_ptr (block k n) = get_pcb_by_pid m \<and> chain k t (m # ns))"

definition families :: "(int \<Rightarrow> int list) \<Rightarrow> int list" where
  "families C = C 0 @ C 1 @ C 2"

definition family :: "kernel \<Rightarrow> (int \<Rightarrow> int list) \<Rightarrow> bool" where
  "family k C \<longleftrightarrow> (\<forall>t \<in> {0, 1, 2}. chain k t (C t) \<and> hd (C t) = prog_curr_pid (terminals k t)) \<and>
     distinct (families C) \<and> (\<forall>n. 0 \<le> n \<and> n < 6 \<longrightarrow> (used_pids k n \<noteq> 0 \<longleftrightarrow> n \<in> set (families C)))"

lemma chain_slots: "chain k t ns \<Longrightarrow> 0 \<le> t \<Longrightarrow> t < 3 \<Longrightarrow> n \<in> set ns \<Longrightarrow> 0 \<le> n \<and> n < 6"
  by (induction k t ns rule: chain.induct) auto

lemma chain_root: "chain k t ns \<Longrightarrow> t \<in> set ns"
  by (induction k t ns rule: chain.induct) auto

lemma chain_live: "chain k t ns \<Longrightarrow> n \<in> set ns \<Longrightarrow> alive k n"
  by (induction k t ns rule: chain.induct) auto

lemma chain_keep:
  assumes "chain k t ns" and "\<forall>n \<in> set ns. used_pids k' n = used_pids k n \<and> same_block (block k n) (block k' n)"
  shows "chain k' t ns"
  using assms by (induction k t ns rule: chain.induct) (auto simp: alive_def same_block_def)

lemma chain_split:
  assumes "chain k t ns"
  obtains "ns = [t]" "par_pid (block k t) = t"
    | n m ms where "ns = n # m # ms" "3 \<le> n" "par_pid (block k n) = m" "par_pcb_ptr (block k n) = get_pcb_by_pid m"
proof (cases ns)
  case (Cons n ms)
  with assms that show ?thesis by (cases ms) auto
qed (use assms in simp)

lemma chain_hd: "chain k t ns \<Longrightarrow> ns \<noteq> [] \<and> hd ns \<in> set ns"
  by (cases ns) auto

lemma terminal_set: "0 \<le> t \<and> t < (3 :: int) \<longleftrightarrow> t \<in> {0, 1, 2}"
  by auto

text \<open>What the invariant of the families gives for each terminal.\<close>

lemma familyD:
  assumes "family k C" and "t \<in> {0, 1, 2}"
  shows "chain k t (C t)" and "hd (C t) = prog_curr_pid (terminals k t)" and "distinct (C t)"
    and "prog_curr_pid (terminals k t) \<in> set (C t)" and "0 \<le> prog_curr_pid (terminals k t)"
    and "prog_curr_pid (terminals k t) < 6" and "alive k (prog_curr_pid (terminals k t))" and "used_pids k t \<noteq> 0"
proof -
  show c: "chain k t (C t)" and h: "hd (C t) = prog_curr_pid (terminals k t)"
    using assms by (auto simp: family_def)
  show "distinct (C t)" using assms by (auto simp: family_def families_def)
  show m: "prog_curr_pid (terminals k t) \<in> set (C t)" using chain_hd [OF c] h by simp
  show "0 \<le> prog_curr_pid (terminals k t)" "prog_curr_pid (terminals k t) < 6"
    using chain_slots [OF c _ _ m] assms(2) by auto
  show "alive k (prog_curr_pid (terminals k t))" using chain_live [OF c m] .
  show "used_pids k t \<noteq> 0" using chain_live [OF c chain_root [OF c]] by (simp add: alive_def)
qed

lemma family_apart:
  assumes "family k C" and "s \<in> {0, 1, 2}" and "t \<in> {0, 1, 2}" and "s \<noteq> t" and "n \<in> set (C s)"
  shows "n \<notin> set (C t)"
  using assms by (auto simp: family_def families_def)

lemma family_others:
  assumes "family k C" and "s \<in> {0, 1, 2}" and "n \<in> set (C s)"
  shows "\<forall>t \<in> {0, 1, 2}. t \<noteq> s \<longrightarrow> prog_curr_pid (terminals k t) \<noteq> n"
proof (intro ballI impI notI)
  fix t assume t: "t \<in> {0, 1, 2}" "t \<noteq> s" and "prog_curr_pid (terminals k t) = n"
  then have "n \<in> set (C t)" using familyD(4) [OF assms(1) t(1)] by simp
  with family_apart [OF assms(1,2) t(1) _ assms(3)] t(2) show False by simp
qed

lemma family_keep:
  assumes "family k C" and "\<forall>t. prog_curr_pid (terminals k' t) = prog_curr_pid (terminals k t)"
    and "used_pids k' = used_pids k" and "\<forall>q. same_block (pcbs k q) (pcbs k' q)"
  shows "family k' C"
  using assms chain_keep [of k _ _ k'] unfolding family_def by simp

subsection \<open>The invariant\<close>

definition machine_ok :: "kernel \<Rightarrow> bool" where
  "machine_ok k \<longleftrightarrow> sound k \<and> curr_process k \<in> {0, 1, 2} \<and> \<not> irq_masked 0 k \<and>
     (\<exists>i. runnable k (map of_char ''shell'') i) \<and> (\<exists>C. family k C)"

text \<open>
  What a step between two timer interrupts leaves alone: the image, and the programs that wait for
  their turn with their saved stacks and their memory.
\<close>

definition calm :: "kernel \<Rightarrow> kernel \<Rightarrow> bool" where
  "calm k k' \<longleftrightarrow> curr_process k' = curr_process k \<and> fs k' = fs k \<and> (\<forall>a. kernel_addr a \<longrightarrow> phys k' a = phys k a) \<and>
     (\<forall>t. t \<noteq> curr_process k \<longrightarrow> prog_curr_pid (terminals k' t) = prog_curr_pid (terminals k t)) \<and>
     (\<forall>t \<in> {0, 1, 2}. t \<noteq> curr_process k \<longrightarrow>
       pcb_esp (block k' (prog_curr_pid (terminals k t))) = pcb_esp (block k (prog_curr_pid (terminals k t))) \<and>
       pcb_ebp (block k' (prog_curr_pid (terminals k t))) = pcb_ebp (block k (prog_curr_pid (terminals k t))) \<and>
       (\<forall>a. in_slot (prog_curr_pid (terminals k t)) a \<longrightarrow> phys k' a = phys k a))"

lemma calm_trans: "calm k k' \<Longrightarrow> calm k' k'' \<Longrightarrow> calm k k''"
  unfolding calm_def by metis

lemma serves_machine:
  assumes "serves k k'" and "machine_ok k"
  shows "machine_ok k' \<and> calm k k'"
proof -
  obtain i C where m: "sound k" "curr_process k \<in> {0, 1, 2}" "\<not> irq_masked 0 k" "runnable k (map of_char ''shell'') i" "family k C"
    using assms(2) by (auto simp: machine_ok_def)
  have s: "sound k'" "same_processes k k'" using assms(1) m(1) by (auto simp: serves_def)
  have "runnable k' (map of_char ''shell'') i"
    using m(1) s by (intro runnable_agree [OF m(4)]) (simp_all add: sound_def display_ok_def same_processes_def)
  moreover have "family k' C" using m(5) s(2) by (intro family_keep [OF m(5)]) (simp_all add: same_processes_def)
  ultimately have "machine_ok k'"
    using s m(2,3) by (auto simp: machine_ok_def same_processes_def irq_masked_def)
  moreover have "other_mem (current k) a" if "t \<in> {0, 1, 2}" "t \<noteq> curr_process k" "in_slot (prog_curr_pid (terminals k t)) a" for t a
    unfolding current_def
  proof (rule in_slot_other [OF that(3)])
    show "0 \<le> prog_curr_pid (terminals k t)" by (rule familyD(5) [OF m(5) that(1)])
    show "0 \<le> prog_curr_pid (terminals k (curr_process k))" by (rule familyD(5) [OF m(5,2)])
    show "prog_curr_pid (terminals k t) \<noteq> prog_curr_pid (terminals k (curr_process k))"
      using family_others [OF m(5,2) familyD(4) [OF m(5,2)]] that(1,2) by blast
  qed
  then have "\<forall>t \<in> {0, 1, 2}. t \<noteq> curr_process k \<longrightarrow> (\<forall>a. in_slot (prog_curr_pid (terminals k t)) a \<longrightarrow> phys k' a = phys k a)"
    using s(2) unfolding same_processes_def by blast
  ultimately show ?thesis using s(2) by (simp add: calm_def same_processes_def same_block_def)
qed

text \<open>The kernel stack that a trap uses is that of the program, so the calls find its block.\<close>

definition trap :: "nat \<Rightarrow> u32 \<Rightarrow> kernel \<Rightarrow> kernel" where
  "trap d b k = k\<lparr>esp := esp0 (tss k) - of_nat d, ebp := b\<rparr>"

lemma trap_block:
  assumes "in_context k" and "d < 0x1000"
  shows "get_curr_pcb (trap d b k) = get_pcb_by_pid (current k)"
proof -
  have c: "0 \<le> current k" "current k < 6" and e: "esp0 (tss k) = 0x800000 - 4 - word_of_int (current k) * 0x2000"
    using assms(1) by (simp_all add: in_context_def Let_def)
  have "esp (trap d b k) \<in> kernel_stack (current k)"
    using c assms(2) unfolding trap_def kernel_stack_def
    by (elim slot_cases) (simp_all add: e unat_sub word_le_nat_alt wsimps, linarith+)
  then show ?thesis by (rule get_curr_pcb_stack [OF c])
qed

lemma machine_trap: "machine_ok k \<Longrightarrow> machine_ok (trap d b k) \<and> calm k (trap d b k)"
  unfolding trap_def by (rule serves_machine [OF serves_stack])

subsection \<open>Starting a program\<close>

lemma in_context_maps:
  assumes "paging_ok k" and "maps_range k 0x08048000 (prog_page n + 0x48000) 0x3B8000"
    and "esp0 (tss k) = 0x800000 - 4 - word_of_int n * 0x2000" and "current k = n" and "0 \<le> n" and "n < 6"
  shows "in_context k"
proof -
  let ?d = "page_directory (tabs k) 32"
  have "paddr k (0x08048000 + of_nat 0) = Some (prog_page n + 0x48000 + of_nat 0)"
    using assms(2) unfolding maps_range_def by (elim allE) (erule mp, simp)
  then have w: "walk (addr_of k) (tabs k) 0x08048000 = Some (prog_page n + 0x48000)"
    using assms(1) by (simp add: paddr_def paging_ok_def)
  then have p: "pde_present ?d" by (auto simp: walk_def Let_def split: if_splits)
  then have z: "pde_page_size ?d" using assms(1) by (simp add: paging_ok_def pd_ok_def Let_def)
  have "0x400000 * (ucast (pde_address ?d) div 1024) = prog_page n"
    using w p z by (simp add: walk_def Let_def)
  with p z assms(3-6) show ?thesis by (simp add: in_context_def Let_def)
qed

text \<open>The state after a call that gives the processor to the program in slot \<open>n\<close> of the same terminal.\<close>

lemma machine_enters:
  assumes "machine_ok k" and "exec_frame j k k'" and "paging_ok k'"
    and "maps_range k' 0x08048000 (prog_page n + 0x48000) 0x3B8000"
    and "esp0 (tss k') = 0x800000 - 4 - word_of_int n * 0x2000"
    and "prog_curr_pid (terminals k' (curr_process k)) = n" and "0 \<le> n" and "n < 6" and "family k' C"
  shows "machine_ok k'"
proof -
  have f: "curr_process k' = curr_process k" "curr_ter k' = curr_ter k" "fs k' = fs k" "vid_page k' = vid_page k"
    "cursor_ok k'" "\<forall>t. term_ok (terminals k' t) = term_ok (terminals k t)" "master_mask k' = master_mask k"
    "slave_mask k' = slave_mask k" "(\<forall>t. saved_in (terminals k t)) \<longrightarrow> (\<forall>t. saved_in (terminals k' t))"
    "\<forall>a. kernel_addr a \<longrightarrow> phys k' a = phys k a"
    using assms(2) unfolding exec_frame_def by blast+
  have c: "current k' = n" using assms(6) by (simp add: current_def f(1))
  have k: "sound k" "paging_ok k" using assms(1) by (simp_all add: machine_ok_def sound_def display_ok_def)
  have "sound k'"
    using k(1) f(2,4,5,6,9) assms(3) in_context_maps [OF assms(3-5) c assms(7,8)]
    by (simp add: sound_def display_ok_def kb_ok_def)
  moreover obtain i where "runnable k (map of_char ''shell'') i" using assms(1) by (auto simp: machine_ok_def)
  then have "runnable k' (map of_char ''shell'') i"
    by (rule runnable_agree [OF _ k(2) assms(3) f(3)]) (use f(10) in blast)
  ultimately show ?thesis using assms(1,9) f(1,7,8) by (auto simp: machine_ok_def irq_masked_def)
qed

lemma calm_exec:
  assumes "machine_ok k" and "exec_frame n k k'" and "\<forall>t \<in> {0, 1, 2}. t \<noteq> curr_process k \<longrightarrow> prog_curr_pid (terminals k t) \<noteq> n"
    and "0 \<le> n" and "n < 6" and "\<forall>q. q \<noteq> get_pcb_by_pid n \<longrightarrow> (\<exists>d. pcbs k' q = (pcbs k q)\<lparr>divisor := d\<rparr>)"
  shows "calm k k'"
proof -
  obtain C where C: "family k C" using assms(1) by (auto simp: machine_ok_def)
  have "pcb_esp (block k' m) = pcb_esp (block k m) \<and> pcb_ebp (block k' m) = pcb_ebp (block k m) \<and>
      (\<forall>a. in_slot m a \<longrightarrow> phys k' a = phys k a)"
    if "t \<in> {0, 1, 2}" "t \<noteq> curr_process k" and m: "m = prog_curr_pid (terminals k t)" for t m
  proof -
    have mn: "m \<noteq> n" using assms(3) that by blast
    have "0 \<le> m" using familyD(5) [OF C that(1)] m by simp
    with mn assms(2,4) have "\<forall>a. in_slot m a \<longrightarrow> phys k' a = phys k a"
      using in_slot_other unfolding exec_frame_def by blast
    moreover from mn have "get_pcb_by_pid m \<noteq> get_pcb_by_pid n" using familyD(5,6) [OF C that(1)] assms(4,5) m by (simp add: pcb_inj)
    then obtain d where "block k' m = (block k m)\<lparr>divisor := d\<rparr>" using assms(6) by blast
    ultimately show ?thesis by simp
  qed
  moreover have "curr_process k' = curr_process k" "fs k' = fs k" "\<forall>a. kernel_addr a \<longrightarrow> phys k' a = phys k a"
    "t \<noteq> curr_process k \<Longrightarrow> terminals k' t = terminals k t" for t
    using assms(2) by (simp_all add: exec_frame_def)
  ultimately show ?thesis by (simp add: calm_def)
qed

text \<open>A new process joins the family of its terminal.\<close>

lemma family_grows:
  assumes C: "family k C" and s: "s \<in> {0, 1, 2}" and n: "0 \<le> n" "n < 6" "used_pids k n = 0"
    and u: "used_pids k' = (used_pids k)(n := 1)" and t: "\<forall>t. t \<noteq> s \<longrightarrow> terminals k' t = terminals k t"
    and h: "prog_curr_pid (terminals k' s) = n" and p: "pcb_pid (block k' n) = n" "block_ok (block k' n)"
    and par: "par_pcb_ptr (block k' n) = get_pcb_by_pid (prog_curr_pid (terminals k s))"
      "par_pid (block k' n) = prog_curr_pid (terminals k s)"
    and rest: "\<forall>q. q \<noteq> get_pcb_by_pid n \<longrightarrow> pcbs k' q = pcbs k q"
  shows "family k' (C(s := n # C s))"
proof -
  have new: "n \<notin> set (families C)" using C n by (auto simp: family_def)
  then have out: "n \<notin> set (C t)" if "t \<in> {0, 1, 2}" for t using that by (auto simp: families_def)
  have "n \<noteq> 0" "n \<noteq> 1" "n \<noteq> 2" using familyD(8) [OF C] n(3) by auto
  then have n3: "3 \<le> n" using n(1) by linarith
  have keep: "chain k' t (C t)" if "t \<in> {0, 1, 2}" for t
  proof (rule chain_keep [OF familyD(1) [OF C that]], intro ballI)
    fix m assume m: "m \<in> set (C t)"
    then have "0 \<le> m" "m < 6" "m \<noteq> n" using chain_slots [OF familyD(1) [OF C that]] that out [OF that] by auto
    then show "used_pids k' m = used_pids k m \<and> same_block (block k m) (block k' m)"
      using rest n by (simp add: u pcb_inj)
  qed
  have "chain k' s (n # C s)"
    using keep [OF s] familyD(2) [OF C s] n3 n(2) p par u by (cases "C s") (auto simp: alive_def)
  moreover have "distinct (families (C(s := n # C s)))" "set (families (C(s := n # C s))) = insert n (set (families C))"
    using C new s by (auto simp: family_def families_def)
  ultimately show ?thesis
    using C keep t h unfolding family_def by (auto simp: u)
qed

definition loadable :: "kernel \<Rightarrow> view \<Rightarrow> bool" where
  "loadable k c \<longleftrightarrow> command_name c \<noteq> [] \<and>
     (case lookup (vmem k) (fs k) (command_name c) of
        None \<Rightarrow> True
      | Some i \<Rightarrow> exe_inode k i < num_inodes (fs k) \<and> 4 \<le> file_size (vmem k) (fs k) (exe_inode k i) \<and>
          (take 4 (file_contents (vmem k) (fs k) (exe_inode k i)) = ELF_MAGIC \<longrightarrow> runnable k (command_name c) i))"

lemma machine_execute:
  assumes "machine_ok k" and "get_curr_pcb k = get_pcb_by_pid (current k)" and "loadable k c"
  shows "\<exists>f k'. sys_execute c k = Some (f, k') \<and> machine_ok k' \<and> calm k k'"
proof -
  obtain i0 C where k: "sound k" "curr_process k \<in> {0, 1, 2}" "runnable k (map of_char ''shell'') i0" "family k C"
    using assms(1) by (auto simp: machine_ok_def)
  have g: "paging_ok k" "cursor_ok k" "vid_page k < 0x400000" "0 \<le> sint (num_dir_entries (fs k))"
    using k(1,3) by (simp_all add: sound_def display_ok_def runnable_def dir_in_kernel_def)
  have c: "command_name c \<noteq> []" using assms(3) by (simp add: loadable_def)
  note refuse = sys_execute_refuses [OF c g(4)]
  have same: "machine_ok k \<and> calm k k" using assms(1) by (simp add: calm_def)
  show ?thesis
  proof (cases "lookup (vmem k) (fs k) (command_name c)")
    case None
    with refuse(1) same show ?thesis by blast
  next
    case (Some i)
    then have e: "exe_inode k i < num_inodes (fs k)" "4 \<le> file_size (vmem k) (fs k) (exe_inode k i)"
      "take 4 (file_contents (vmem k) (fs k) (exe_inode k i)) = ELF_MAGIC \<longrightarrow> runnable k (command_name c) i"
      using assms(3) by (simp_all add: loadable_def)
    consider (plain) "take 4 (file_contents (vmem k) (fs k) (exe_inode k i)) \<noteq> ELF_MAGIC"
      | (full) "take 4 (file_contents (vmem k) (fs k) (exe_inode k i)) = ELF_MAGIC" "get_new_pid k = ERROR"
      | (run) "runnable k (command_name c) i" "get_new_pid k \<noteq> ERROR" using e(3) by blast
    then show ?thesis
    proof cases
      case plain
      with refuse(2) [OF Some e(1,2)] same show ?thesis by blast
    next
      case full
      obtain m t where "printf (lit (''-- Max Processes Already Reached (%d) --'' @ [CHR 0x0A])) (pushed [word_arg 6]) k =
          Some (m, fold putc t k)" using max_msg by blast
      with refuse(3) [OF Some e(1,2) full] serves_machine [OF serves_putcs assms(1)] show ?thesis by auto
    next
      case run
      let ?n = "get_new_pid k" and ?s = "curr_process k"
      obtain ep k' where k': "sys_execute c k = Some (Enter ep, k')" "0 \<le> ?n" "?n < 6" "used_pids k ?n = 0"
        "used_pids k' = (used_pids k)(?n := 1)" "esp0 (tss k') = 0x800000 - 4 - word_of_int ?n * 0x2000"
        "prog_curr_pid (terminals k' ?s) = ?n" "maps_range k' 0x08048000 (prog_page ?n + 0x48000) 0x3B8000" "paging_ok k'"
        "exec_frame ?n k k'" "pcb_pid (block k' ?n) = ?n" "par_pcb_ptr (block k' ?n) = get_curr_pcb k"
        "par_pid (block k' ?n) = par_pid (new_block ?n k)" "block_ok (block k' ?n)" "\<forall>q. q \<noteq> get_pcb_by_pid ?n \<longrightarrow> pcbs k' q = pcbs k q"
        using runnable_runs [OF run(1) c g(1-3) refl run(2)] by blast
      note fd = familyD [OF k(4,2), folded current_def]
      have cn: "current k \<noteq> ?n" using fd(7) k'(4) by (auto simp: alive_def)
      have "\<not> ?n < 3" using familyD(8) [OF k(4), of ?n] k'(2,4) terminal_set [of ?n] by blast
      then have "par_pid (new_block ?n k) = current k"
        using assms(2) fd(5-7) k'(2,3) cn by (simp add: new_block_def pcb_inj alive_def Let_def)
      with k' have fam: "family k' (C(?s := ?n # C ?s))"
        unfolding current_def by (intro family_grows [OF k(4,2) k'(2-5) _ k'(7,11,14)])
          (simp_all add: assms(2) current_def exec_frame_def)
      have "machine_ok k'" by (rule machine_enters [OF assms(1) k'(10,9,8,6,7,2,3) fam])
      moreover have "calm k k'"
      proof (rule calm_exec [OF assms(1) k'(10) _ k'(2,3)])
        show "\<forall>t \<in> {0, 1, 2}. t \<noteq> ?s \<longrightarrow> prog_curr_pid (terminals k t) \<noteq> ?n"
          using familyD(7) [OF k(4)] k'(4) unfolding alive_def by metis
        show "\<forall>q. q \<noteq> get_pcb_by_pid ?n \<longrightarrow> (\<exists>d. pcbs k' q = (pcbs k q)\<lparr>divisor := d\<rparr>)" using k'(15) divisor_idem by metis
      qed
      ultimately show ?thesis using k'(1) by blast
    qed
  qed
qed

subsection \<open>Ending a program\<close>

lemma same_block_divisor: "\<exists>d. q' = q\<lparr>divisor := d\<rparr> \<Longrightarrow> same_block q q'"
  by (auto simp: same_block_def block_ok_def)

lemma chain_other:
  assumes C: "family k C" and t: "t \<in> {0, 1, 2}" and n: "0 \<le> n" "n < 6" and out: "n \<notin> set ns" and sub: "set ns \<subseteq> set (C t)"
    and ch: "chain k t ns" and u: "used_pids k' = (used_pids k)(n := v)"
    and rest: "\<forall>q. q \<noteq> get_pcb_by_pid n \<longrightarrow> (\<exists>d. pcbs k' q = (pcbs k q)\<lparr>divisor := d\<rparr>)"
  shows "chain k' t ns"
proof (rule chain_keep [OF ch], intro ballI)
  fix m assume m: "m \<in> set ns"
  then have "0 \<le> m" "m < 6" using chain_slots [OF familyD(1) [OF C t]] t sub by auto
  moreover have "m \<noteq> n" using m out by blast
  ultimately have "get_pcb_by_pid m \<noteq> get_pcb_by_pid n" using n by (simp add: pcb_inj)
  then show "used_pids k' m = used_pids k m \<and> same_block (block k m) (block k' m)"
    using rest same_block_divisor \<open>m \<noteq> n\<close> by (auto simp: u)
qed

text \<open>A process leaves the family of its terminal, or a new root shell takes the place of the old one.\<close>

lemma family_shrinks:
  assumes C: "family k C" and s: "s \<in> {0, 1, 2}" and c: "C s = n # m # ns"
    and u: "used_pids k' = (used_pids k)(n := 0)" and t: "\<forall>t. t \<noteq> s \<longrightarrow> terminals k' t = terminals k t"
    and h: "prog_curr_pid (terminals k' s) = m"
    and rest: "\<forall>q. q \<noteq> get_pcb_by_pid n \<longrightarrow> (\<exists>d. pcbs k' q = (pcbs k q)\<lparr>divisor := d\<rparr>)"
  shows "family k' (C(s := m # ns))"
proof -
  have n: "n \<in> set (C s)" "n \<notin> set (m # ns)" "0 \<le> n" "n < 6"
    using familyD(1,3) [OF C s] c by auto
  have "chain k' t (C t)" if "t \<in> {0, 1, 2}" "t \<noteq> s" for t
    using family_apart [OF C s that(1)] that n(1) by (intro chain_other [OF C that(1) n(3,4) _ _ familyD(1) [OF C that(1)] u rest]) auto
  moreover have "chain k' s (m # ns)"
    using familyD(1) [OF C s] c by (intro chain_other [OF C s n(3,4,2) _ _ u rest]) auto
  moreover have "distinct (families (C(s := m # ns)))" "set (families (C(s := m # ns))) = set (families C) - {n}"
    using C s c n(2) by (auto simp: family_def families_def)
  ultimately show ?thesis
    using C t h unfolding family_def by (auto simp: u)
qed

lemma family_restarts:
  assumes C: "family k C" and s: "s \<in> {0, 1, 2}" and c: "C s = [s]"
    and u: "used_pids k' = (used_pids k)(s := 1)" and t: "\<forall>t. t \<noteq> s \<longrightarrow> terminals k' t = terminals k t"
    and h: "prog_curr_pid (terminals k' s) = s"
    and b: "pcb_pid (block k' s) = s" "par_pid (block k' s) = s" "block_ok (block k' s)"
    and rest: "\<forall>q. q \<noteq> get_pcb_by_pid s \<longrightarrow> (\<exists>d. pcbs k' q = (pcbs k q)\<lparr>divisor := d\<rparr>)"
  shows "family k' C"
proof -
  have n: "0 \<le> s" "s < 6" using s by auto
  have "chain k' t (C t)" if "t \<in> {0, 1, 2}" "t \<noteq> s" for t
    using family_apart [OF C s that(1), of s] that c by (intro chain_other [OF C that(1) n _ _ familyD(1) [OF C that(1)] u rest]) auto
  moreover have "chain k' s (C s)" using b by (simp add: c alive_def u)
  ultimately have "chain k' t (C t)" if "t \<in> {0, 1, 2}" for t using that by blast
  moreover have "hd (C t) = prog_curr_pid (terminals k' t)" if "t \<in> {0, 1, 2}" for t
    using familyD(2) [OF C that] t h c by (cases "t = s") auto
  moreover have "s \<in> set (families C)" using s c by (auto simp: families_def)
  ultimately show ?thesis using C unfolding family_def by (simp add: u)
qed

lemma machine_halt_child:
  assumes "machine_ok k" and C: "family k C" and c: "C (curr_process k) = n # m # ns"
  shows "\<exists>f k'. sys_halt a status k = Some (f, k') \<and> machine_ok k' \<and> calm k k'"
proof -
  let ?s = "curr_process k"
  have s: "?s \<in> {0, 1, 2}" and g: "paging_ok k" "cursor_ok k" "vid_page k < 0x400000"
    using assms(1) by (auto simp: machine_ok_def sound_def display_ok_def)
  note fd = familyD [OF C s]
  have cur: "prog_curr_pid (terminals k ?s) = n" using fd(2) c by simp
  have n: "3 \<le> n" "n < 6" "0 \<le> n" "pcb_pid (block k n) = n" "par_pid (block k n) = m" "par_pcb_ptr (block k n) = get_pcb_by_pid m"
    "\<forall>i. 0 \<le> i \<and> i < 8 \<and> enabled (fdt (block k n) i) \<longrightarrow> fot_ptr (fdt (block k n) i) \<noteq> NULL_fot"
    using fd(1) c by (auto simp: alive_def block_ok_def)
  have m: "0 \<le> m" "m < 6" "pcb_pid (block k m) = m"
    using chain_slots [OF fd(1), of m] s chain_live [OF fd(1), of m] c by (auto simp: alive_def)
  obtain f k' where k': "sys_halt a status k = Some (f, k')"
    "\<forall>j < 0x3B8000. paddr k' (0x08048000 + of_nat j) = Some (prog_page m + 0x48000 + of_nat j)"
    "esp0 (tss k') = 0x800000 - 4 - word_of_int m * 0x2000" "prog_curr_pid (terminals k' ?s) = m"
    "used_pids k' = (used_pids k)(n := 0)" "\<forall>q. q \<noteq> get_pcb_by_pid n \<longrightarrow> (\<exists>d. pcbs k' q = (pcbs k q)\<lparr>divisor := d\<rparr>)"
    "paging_ok k'" "exec_frame n k k'"
    using sys_halt_child [OF g cur n(1,2,4) _ _ n(7), of a status, unfolded n(5,6) m(3)] m(1,2) by blast
  have mr: "maps_range k' 0x08048000 (prog_page m + 0x48000) 0x3B8000" using k'(2) by (simp add: maps_range_def)
  have t: "\<forall>t. t \<noteq> ?s \<longrightarrow> terminals k' t = terminals k t" using k'(8) by (simp add: exec_frame_def)
  have apart: "\<forall>t \<in> {0, 1, 2}. t \<noteq> ?s \<longrightarrow> prog_curr_pid (terminals k t) \<noteq> n"
    using family_others [OF C s] c by simp
  have "machine_ok k'"
    by (rule machine_enters [OF assms(1) k'(8,7) mr k'(3,4) m(1,2) family_shrinks [OF C s c k'(5) t k'(4,6)]])
  with calm_exec [OF assms(1) k'(8) apart n(3,2) k'(6)] k'(1) show ?thesis by blast
qed

lemma machine_halt_root:
  assumes "machine_ok k" and C: "family k C" and c: "C s = [s]" and s: "curr_process k = s"
  shows "\<exists>f k'. sys_halt a status k = Some (f, k') \<and> machine_ok k' \<and> calm k k'"
proof -
  obtain i where i: "runnable k (map of_char ''shell'') i" and t: "s \<in> {0, 1, 2}"
    and g: "paging_ok k" "cursor_ok k" "vid_page k < 0x400000"
    using assms(1) s by (auto simp: machine_ok_def sound_def display_ok_def)
  note fd = familyD [OF C t]
  have cur: "prog_curr_pid (terminals k (curr_process k)) = s" using fd(2) c by (simp add: s)
  have n: "0 \<le> s" "s < 3" "s < 6" using t by auto
  have b: "pcb_pid (block k s) = s" "par_pid (block k s) = s"
    "\<forall>i. 0 \<le> i \<and> i < 8 \<and> enabled (fdt (block k s) i) \<longrightarrow> fot_ptr (fdt (block k s) i) \<noteq> NULL_fot"
    using fd(1) c by (auto simp: alive_def block_ok_def)
  have low: "\<forall>j. 0 \<le> j \<and> j < s \<longrightarrow> used_pids k j \<noteq> 0"
  proof (intro allI impI)
    fix j assume "0 \<le> j \<and> j < s"
    then have "j \<in> {0, 1, 2}" using n(2) unfolding terminal_set [symmetric] by linarith
    then show "used_pids k j \<noteq> 0" by (rule familyD(8) [OF C])
  qed
  obtain e k' where k': "sys_halt a status k = Some (Enter e, k')" "used_pids k' = (used_pids k)(s := 1)"
    "prog_curr_pid (terminals k' (curr_process k)) = s" "esp0 (tss k') = 0x800000 - 4 - word_of_int s * 0x2000"
    "maps_range k' 0x08048000 (prog_page s + 0x48000) 0x3B8000" "pcb_pid (block k' s) = s" "par_pid (block k' s) = s"
    "block_ok (block k' s)" "\<forall>q. q \<noteq> get_pcb_by_pid s \<longrightarrow> (\<exists>d. pcbs k' q = (pcbs k q)\<lparr>divisor := d\<rparr>)" "paging_ok k'" "exec_frame s k k'"
    using sys_halt_root [OF g cur n(1,2) b i low, of a status] by blast
  have "\<forall>t. t \<noteq> s \<longrightarrow> terminals k' t = terminals k t" using k'(11) by (simp add: exec_frame_def s)
  note fam = family_restarts [OF C t c k'(2) this k'(3) [unfolded s] k'(6,7,8,9)]
  have apart: "\<forall>t \<in> {0, 1, 2}. t \<noteq> curr_process k \<longrightarrow> prog_curr_pid (terminals k t) \<noteq> s"
    unfolding s by (rule family_others [OF C t chain_root [OF fd(1)]])
  have "machine_ok k'" by (rule machine_enters [OF assms(1) k'(11,10,5,4,3) n(1,3) fam])
  with calm_exec [OF assms(1) k'(11) apart n(1,3) k'(9)] k'(1) show ?thesis by blast
qed

lemma machine_halt:
  assumes "machine_ok k"
  shows "\<exists>f k'. sys_halt a status k = Some (f, k') \<and> machine_ok k' \<and> calm k k'"
proof -
  obtain C where C: "family k C" and s: "curr_process k \<in> {0, 1, 2}" using assms by (auto simp: machine_ok_def)
  show ?thesis
  proof (cases rule: chain_split [OF familyD(1) [OF C s]])
    case 1
    from machine_halt_root [OF assms C this(1) refl] show ?thesis .
  next
    case (2 n m ns)
    from machine_halt_child [OF assms C this(1)] show ?thesis .
  qed
qed

text \<open>An exception is a message and the end of the program.\<close>

lemma machine_exception:
  assumes "machine_ok k" and "run_exception h a k = Some (f, k')"
  shows "machine_ok k' \<and> calm k k'"
proof -
  have "h \<in> set (NI_h # exc_handlers)" using assms(2) by (cases h) (simp_all add: exc_handlers_def)
  then have r: "run_exception h a k = blue_screen a (lit (exc_message h)) k" by (rule run_exception_message)
  obtain m t where "printf (lit (''! ERROR '' @ [CHR 0xAF] @ '' %s !'' @ [CHR 0x0A])) (pushed [str_arg (lit (exc_message h))]) k =
      Some (m, fold putc t k)" using error_msg [OF exc_message_cstr(1)] exc_message_cstr(2) [of h] by force
  then have h: "sys_halt a 4 (fold putc t k) = Some (f, k')" using assms(2) by (simp add: r blue_screen_def)
  have "machine_ok (fold putc t k)" "calm k (fold putc t k)" using serves_machine [OF serves_putcs assms(1)] by blast+
  with machine_halt [of "fold putc t k" a 4] h show ?thesis using calm_trans by auto
qed

subsection \<open>The timer\<close>

lemma chain_saved:
  assumes "\<forall>q. \<exists>s b. pcbs k' q = (pcbs k q)\<lparr>pcb_esp := s, pcb_ebp := b\<rparr>" and "used_pids k' = used_pids k" and "chain k t ns"
  shows "chain k' t ns"
proof -
  have "pcb_pid (pcbs k' q) = pcb_pid (pcbs k q) \<and> par_pid (pcbs k' q) = par_pid (pcbs k q) \<and>
      par_pcb_ptr (pcbs k' q) = par_pcb_ptr (pcbs k q) \<and> block_ok (pcbs k' q) = block_ok (pcbs k q)" for q
  proof -
    obtain s b where "pcbs k' q = (pcbs k q)\<lparr>pcb_esp := s, pcb_ebp := b\<rparr>" using assms(1) by blast
    then show ?thesis by (simp add: block_ok_def)
  qed
  with assms(2,3) show ?thesis by (induction k t ns rule: chain.induct) (auto simp: alive_def)
qed

lemma machine_timer:
  assumes "machine_ok k"
  shows "\<exists>k'. PT_handler k = Some (Ret 0, k') \<and> machine_ok k' \<and> phys k' = phys k \<and> fs k' = fs k \<and> terminals k' = terminals k"
proof -
  let ?s = "curr_process k"
  let ?n = "next_terminal ?s"
  let ?c = "prog_curr_pid (terminals k ?s)" and ?p = "prog_curr_pid (terminals k ?n)"
  obtain i C where k: "sound k" "?s \<in> {0, 1, 2}" "\<not> irq_masked 0 k" "runnable k (map of_char ''shell'') i" "family k C"
    using assms by (auto simp: machine_ok_def)
  have n: "?n \<in> {0, 1, 2}" using k(2) by auto
  have s: "0 \<le> ?s" "?s < 3" using k(2) by auto
  have ok: "paging_ok k" using k(1) by (simp add: sound_def display_ok_def)
  have "?c \<noteq> -1" using familyD(5) [OF k(5,2)] by auto
  from PT_handler_eq [OF ok refl s refl refl this refl familyD(5,6) [OF k(5) n]]
  obtain k' where k': "PT_handler k = Some (Ret 0, k')" "running ?n ?p k'"
    "pcbs k' = (pcbs k)(get_pcb_by_pid ?c := (block k ?c)\<lparr>pcb_esp := esp k, pcb_ebp := ebp k\<rparr>)" "terminals k' = terminals k"
    "curr_ter k' = curr_ter k" "phys k' = phys k" "used_pids k' = used_pids k" "fs k' = fs k"
    "\<forall>i < 16. irq_masked i k' \<longleftrightarrow> (if i = 1 then ?n \<noteq> curr_ter k else irq_masked i k)"
    by blast
  note r = k'(2) [unfolded running_def]
  have t: "0 \<le> ?n" "?n < 3" using n by auto
  have "saved_in (terminals k ?n)" using k(1) by (simp add: sound_def display_ok_def)
  then have "cursor_ok k'" using r k'(4) by (simp add: cursor_ok_def saved_in_def)
  moreover have "vid_page k' < 0x400000" using r backing_low [OF t] by (simp add: screen_page_def)
  moreover have "in_context k'"
    using r k'(4) familyD(5,6) [OF k(5) n] by (intro in_context_maps [of k' ?p]) (simp_all add: current_def)
  ultimately have "sound k'" using k(1) r k'(4,5) by (simp add: sound_def display_ok_def kb_ok_def)
  moreover have saved: "\<forall>q. \<exists>s b. pcbs k' q = (pcbs k q)\<lparr>pcb_esp := s, pcb_ebp := b\<rparr>"
  proof
    fix q
    show "\<exists>s b. pcbs k' q = (pcbs k q)\<lparr>pcb_esp := s, pcb_ebp := b\<rparr>"
      using stack_idem by (cases "q = get_pcb_by_pid ?c") (auto simp: k'(3))
  qed
  have "family k' C" using k(5) chain_saved [OF saved k'(7)] unfolding family_def k'(4,7) by blast
  moreover have "runnable k' (map of_char ''shell'') i" using r k'(6,8) by (intro runnable_agree [OF k(4) ok]) simp_all
  moreover have "\<not> irq_masked 0 k'" using k'(9) k(3) by simp
  ultimately show ?thesis using k'(1,4,6,8) r n by (intro exI [of _ k']) (auto simp: machine_ok_def)
qed

subsection \<open>Steps\<close>

text \<open>
  What can happen between two timer interrupts: a key when the keyboard line is open, a tick of the clock, a
  store of the program through its own pages, a change of its registers, a system call with \<open>d\<close>
  bytes of its kernel stack in use, and an exception. A call may wait, and takes the interrupts of the devices then;
  the timer may come while it waits, so a read of the keyboard and one of the clock also appear in the two parts before
  and behind the wait. A program keeps its place in a wait on its stack; the relation lets the second part happen whenever the
  wait is over, which includes every run of the code.
  The conditions on a call are those under which the code checks enough: its buffers are the
  program's, and a file that it executes is either not executable or a well formed program. A call through a descriptor behind
  the table does not return and is no step. Apart from the waits a call is a single step; the timer can come before and after it.
\<close>

inductive quiet :: "kernel \<Rightarrow> kernel \<Rightarrow> bool" where
  key: "\<not> irq_masked 1 k \<Longrightarrow> KB_handler scancode k = Some k' \<Longrightarrow> quiet k k'"
| clock: "\<not> irq_masked 8 k \<Longrightarrow> quiet k (RT_handler k)"
| store: "user_walk (addr_of k) (tabs k) a = Some p \<Longrightarrow> quiet k (k\<lparr>phys := (phys k)(p := b)\<rparr>)"
| registers: "quiet k (k\<lparr>esp := s, ebp := b\<rparr>)"
| call: "d < 0x1000 \<Longrightarrow> list_all device hs \<Longrightarrow> buffers_ok eax ebx ecx edx \<Longrightarrow>
     (eax = 2 \<longrightarrow> loadable k (view_of (vmem k) ebx)) \<Longrightarrow>
     SYS_handler_wrapper ra eax ebx ecx edx (trap d b k) hs = Some (f, k', hs') \<Longrightarrow> quiet k k'"
| line_wait: "quiet k (line_wait (trap d b k))"
| line_taken: "buffer_updated (terminals k (curr_process k)) \<noteq> 0 \<Longrightarrow> buffer_ok buf (nat n) \<Longrightarrow> n \<le> 128 \<Longrightarrow>
     quiet k (snd (line_taken buf n k))"
| tick_wait: "quiet k (tick_wait (get_pcb_by_pid (current k)) (trap d b k))"
| tick_taken: "rtc_interrupt_flags k (curr_process k) = 1 \<Longrightarrow> quiet k (tick_taken (get_pcb_by_pid (current k)) k)"
| exception: "d < 0x1000 \<Longrightarrow> run_exception h ra (trap d b k) = Some (f, k') \<Longrightarrow> quiet k k'"

inductive step :: "kernel \<Rightarrow> kernel \<Rightarrow> bool" where
  quiet: "quiet k k' \<Longrightarrow> step k k'"
| timer: "\<not> irq_masked 0 k \<Longrightarrow> PT_handler k = Some (f, k') \<Longrightarrow> step k k'"

inductive_cases quietE: "quiet k k'"
inductive_cases stepE: "step k k'"

lemma user_walk_area:
  assumes "paging_ok k" and "user_walk (addr_of k) (tabs k) a = Some p"
  shows "user_area a" and "paddr k a = Some p"
proof -
  have w: "walk (addr_of k) (tabs k) a = Some p" "pde_user_supervisor (page_directory (tabs k) (int (unat a div 0x400000)))"
    using assms(2) by (auto simp: user_walk_def div_4MB(2) Let_def split: if_splits option.splits)
  then have "unat a div 0x400000 \<in> {0, 1, 32, 33}"
    using walk_absent [of k a] assms(1) by (auto simp: paging_ok_def)
  with w(2) assms(1) show "user_area a" by (auto simp: paging_ok_def pd_ok_def user_area_def Let_def)
  show "paddr k a = Some p" using w(1) assms(1) by (simp add: paddr_def paging_ok_def)
qed

lemma serves_store:
  assumes "user_walk (addr_of k) (tabs k) a = Some p"
  shows "serves k (k\<lparr>phys := (phys k)(p := b)\<rparr>)"
proof (rule serves_memory)
  fix x assume s: "sound k" and x: "kernel_addr x \<or> other_mem (current k) x"
  then have "paging_ok k" by (simp add: sound_def display_ok_def)
  from user_target [OF s user_walk_area [OF this assms]] x show "((phys k)(p := b)) x = phys k x" by auto
qed

lemma trap_sel: "vmem (sti (trap d b k)) = vmem k" "fs (sti (trap d b k)) = fs k" "fresh (sti (trap d b k)) = fresh k" "current (trap d b k) = current k"
proof -
  have "paddr (sti (trap d b k)) = paddr k" by (intro paddr_cong) (simp_all add: trap_def sti_def)
  then show "vmem (sti (trap d b k)) = vmem k" by (intro ext) (simp add: vmem_def trap_def sti_def split: option.split)
qed (simp_all add: trap_def sti_def current_def)

lemma loadable_trap: "loadable (sti (trap d b k)) c = loadable k c"
  unfolding loadable_def runnable_def exe_inode_def trap_sel ..

lemma SYS_jump:
  "SYS_handler_wrapper ra 1 ebx ecx edx k hs = map_option (\<lambda>(f, k'). (f, k', hs)) (sys_halt ra (ucast ebx) (sti k))"
  "SYS_handler_wrapper ra 2 ebx ecx edx k hs =
     map_option (\<lambda>(f, k'). (f, k', hs)) (sys_execute (view_of (vmem (sti k)) ebx) (sti k))"
  by (simp_all add: SYS_handler_wrapper_def Let_def word_le_nat_alt)

lemma machine_in_call:
  assumes "machine_ok k" and "d < 0x1000"
  shows "machine_ok (sti (trap d b k))" and "get_curr_pcb (sti (trap d b k)) = get_pcb_by_pid (current (sti (trap d b k)))"
    and "calm k (sti (trap d b k))"
proof -
  let ?t = "trap d b k"
  have t: "machine_ok ?t" "calm k ?t" using machine_trap [OF assms(1)] by blast+
  have "in_context k" using assms(1) by (simp add: machine_ok_def sound_def)
  from trap_block [OF this assms(2)] serves_machine [OF serves_flag t(1), of True] t(2)
  show "machine_ok (sti ?t)" "get_curr_pcb (sti ?t) = get_pcb_by_pid (current (sti ?t))" "calm k (sti ?t)"
    using calm_trans by (auto simp: sti_def get_curr_pcb_def current_def trap_def)
qed

lemma machine_call:
  assumes "machine_ok k" and "d < 0x1000" and "list_all device hs" and "buffers_ok eax ebx ecx edx"
    and "eax = 2 \<longrightarrow> loadable k (view_of (vmem k) ebx)"
    and call: "SYS_handler_wrapper ra eax ebx ecx edx (trap d b k) hs = Some (f, k', hs')"
  shows "machine_ok k' \<and> calm k k'"
proof -
  let ?t = "trap d b k"
  have t: "machine_ok ?t" "calm k ?t" using machine_trap [OF assms(1)] by blast+
  obtain C where c: "in_context k" "family k C" "curr_process k \<in> {0, 1, 2}" using assms(1) by (auto simp: machine_ok_def sound_def)
  note s = machine_in_call [OF assms(1,2), of b]
  consider "eax = 1" | "eax = 2" | "eax \<noteq> 1" "eax \<noteq> 2" by blast
  then show ?thesis
  proof cases
    case 1
    then have "map_option (\<lambda>(f, k'). (f, k', hs)) (sys_halt ra (ucast ebx) (sti ?t)) = Some (f, k', hs')"
      using call by (simp only: SYS_jump)
    with machine_halt [OF s(1), of ra "ucast ebx"] show ?thesis using calm_trans [OF s(3)] by auto
  next
    case 2
    then have "map_option (\<lambda>(f, k'). (f, k', hs)) (sys_execute (view_of (vmem (sti ?t)) ebx) (sti ?t)) = Some (f, k', hs')"
      using call by (simp only: SYS_jump)
    then have "map_option (\<lambda>(f, k'). (f, k', hs)) (sys_execute (view_of (vmem k) ebx) (sti ?t)) = Some (f, k', hs')"
      unfolding trap_sel .
    moreover have "loadable (sti ?t) (view_of (vmem k) ebx)" using 2 assms(5) by (simp add: loadable_trap)
    ultimately show ?thesis using machine_execute [OF s(1,2)] calm_trans [OF s(3)] by fastforce
  next
    case 3
    have "block_ok (block k (current k))" using familyD(7) [OF c(2,3)] by (simp add: alive_def current_def)
    then have "-1 \<le> arg_len (pcbs ?t (get_curr_pcb ?t))"
      unfolding trap_block [OF c(1) assms(2)] by (simp add: block_ok_def trap_def)
    from serves_machine [OF serves_call [OF call assms(3) 3 assms(4) this] t(1)] show ?thesis
      using calm_trans [OF t(2)] by blast
  qed
qed

lemma quiet_machine: "quiet k k' \<Longrightarrow> machine_ok k \<Longrightarrow> machine_ok k' \<and> calm k k'"
proof (induction rule: quiet.induct)
  case (key k scancode k')
  then show ?case using serves_machine [OF serves_keyboard] by blast
next
  case (clock k)
  then show ?case using serves_machine [OF serves_clock] by blast
next
  case (store k a p b)
  then show ?case using serves_machine [OF serves_store] by blast
next
  case (registers k s b)
  then show ?case using serves_machine [OF serves_stack] by blast
next
  case (call d hs eax ebx ecx edx k ra b f k' hs')
  then show ?case by (intro machine_call)
next
  case (line_wait k d b)
  then show ?case using machine_trap [of k d b] serves_machine [OF serves_line_wait] calm_trans by blast
next
  case (line_taken k buf n)
  then show ?case using serves_machine [OF serves_line_taken] by blast
next
  case (tick_wait k d b)
  then show ?case using machine_trap [of k d b] serves_machine [OF serves_tick_wait] calm_trans by blast
next
  case (tick_taken k)
  then show ?case using serves_machine [OF serves_tick_taken] by blast
next
  case (exception d h ra b k f k')
  then show ?case using machine_trap [of k d b] machine_exception calm_trans by blast
qed

lemma step_machine: "step k k' \<Longrightarrow> machine_ok k \<Longrightarrow> machine_ok k' \<and> fs k' = fs k \<and> (\<forall>a. kernel_addr a \<longrightarrow> phys k' a = phys k a)"
proof (induction rule: step.induct)
  case (quiet k k')
  then show ?case using quiet_machine by (auto simp: calm_def)
next
  case (timer k f k')
  then show ?case using machine_timer by fastforce
qed

subsection \<open>Starting up\<close>

text \<open>The machine when the first \<open>m\<close> shells run.\<close>

definition stage :: "int \<Rightarrow> kernel \<Rightarrow> bool" where
  "stage m k \<longleftrightarrow> paging_ok k \<and> curr_process k = (if m = 0 then 2 else m - 1) \<and>
     (\<forall>t \<in> {0, 1, 2}. prog_curr_pid (terminals k t) = (if t < m then t else -1)) \<and>
     (\<forall>j. 0 \<le> j \<and> j < 6 \<longrightarrow> used_pids k j = (if j < m then 1 else 0)) \<and>
     (\<forall>j. 0 \<le> j \<and> j < m \<longrightarrow> pcb_pid (block k j) = j \<and> par_pid (block k j) = j \<and> block_ok (block k j)) \<and>
     (\<exists>i. runnable k (map of_char ''shell'') i) \<and> kb_ok k \<and> (\<forall>t. saved_in (terminals k t)) \<and> \<not> irq_masked 0 k"

lemma stage_next:
  assumes "stage m k" and "0 \<le> m" and "m < 3"
  shows "\<exists>e k'. PT_handler k = Some (Enter e, k') \<and> stage (m + 1) k' \<and> curr_ter k' = curr_ter k \<and>
    vid_page k' = screen_page k' m \<and> cursor_ok k' \<and> in_context k' \<and> fs k' = fs k \<and> (\<forall>a. kernel_addr a \<longrightarrow> phys k' a = phys k a)"
proof -
  obtain i where k: "paging_ok k" "curr_process k = (if m = 0 then 2 else m - 1)"
    "\<forall>t \<in> {0, 1, 2}. prog_curr_pid (terminals k t) = (if t < m then t else -1)"
    "\<forall>j. 0 \<le> j \<and> j < 6 \<longrightarrow> used_pids k j = (if j < m then 1 else 0)"
    "\<forall>j. 0 \<le> j \<and> j < m \<longrightarrow> pcb_pid (block k j) = j \<and> par_pid (block k j) = j \<and> block_ok (block k j)"
    "runnable k (map of_char ''shell'') i" "kb_ok k" "\<forall>t. saved_in (terminals k t)" "\<not> irq_masked 0 k"
    using assms(1) unfolding stage_def by blast
  have m: "m \<in> {0, 1, 2}" using assms(2,3) terminal_set by blast
  have s: "0 \<le> curr_process k" "curr_process k < 3" "next_terminal (curr_process k) = m" using k(2) m by auto
  have none: "prog_curr_pid (terminals k m) = -1" using k(3) m by auto
  have p: "get_new_pid k = m" using k(4) assms(2,3) by (intro lowest_free) auto
  have "m \<noteq> ERROR" using assms(2) by simp
  from shell_start [OF k(1) refl s none k(6) p this]
  obtain e k' where k': "PT_handler k = Some (Enter e, k')" "curr_process k' = m" "prog_curr_pid (terminals k' m) = m"
    "\<forall>t. t \<noteq> m \<longrightarrow> prog_curr_pid (terminals k' t) = prog_curr_pid (terminals k t)" "used_pids k' = (used_pids k)(m := 1)"
    "curr_ter k' = curr_ter k" "fs k' = fs k" "vid_page k' = screen_page k' m"
    "maps_range k' 0x08048000 (prog_page m + 0x48000) 0x3B8000" "esp0 (tss k') = 0x800000 - 4 - word_of_int m * 0x2000"
    "paging_ok k'" "cursor_ok k'" "\<forall>t. term_ok (terminals k' t) = term_ok (terminals k t)"
    "(\<forall>t. saved_in (terminals k t)) \<longrightarrow> (\<forall>t. saved_in (terminals k' t))"
    "\<forall>i < 16. irq_masked i k' \<longleftrightarrow> (if i = 1 then m \<noteq> curr_ter k else irq_masked i k)"
    "\<forall>a. kernel_addr a \<longrightarrow> phys k' a = phys k a" "pcb_pid (block k' m) = m" "m < 3 \<longrightarrow> par_pid (block k' m) = m" "block_ok (block k' m)"
    "\<forall>q. q \<noteq> get_pcb_by_pid m \<longrightarrow> (\<exists>s b. pcbs k' q = (pcbs k q)\<lparr>pcb_esp := s, pcb_ebp := b\<rparr>)"
    by blast
  have "runnable k' (map of_char ''shell'') i" by (rule runnable_agree [OF k(6,1) k'(11,7)]) (use k'(16) in blast)
  moreover have "pcb_pid (block k' j) = j \<and> par_pid (block k' j) = j \<and> block_ok (block k' j)" if "0 \<le> j" "j < m + 1" for j
  proof (cases "j = m")
    case False
    then have "get_pcb_by_pid j \<noteq> get_pcb_by_pid m" using that assms(2,3) by (simp add: pcb_inj)
    then obtain s b where "block k' j = (block k j)\<lparr>pcb_esp := s, pcb_ebp := b\<rparr>" using k'(20) by blast
    with k(5) that False show ?thesis by (simp add: block_ok_def)
  qed (use k'(17-19) assms(3) in simp)
  moreover have "\<forall>t \<in> {0, 1, 2}. prog_curr_pid (terminals k' t) = (if t < m + 1 then t else -1)"
    using k(3) k'(3,4) m by auto
  moreover have "\<forall>j. 0 \<le> j \<and> j < 6 \<longrightarrow> used_pids k' j = (if j < m + 1 then 1 else 0)" using k(4) by (auto simp: k'(5))
  moreover have "\<not> irq_masked 0 k'" using k'(15) k(9) by simp
  moreover have "kb_ok k'" using k(7) k'(6,13) by (simp add: kb_ok_def)
  ultimately have "stage (m + 1) k'" using k'(2,11,14) k(8) assms(2) unfolding stage_def by auto
  moreover have "in_context k'"
    using k'(2,3) assms(2,3) by (intro in_context_maps [OF k'(11,9,10)]) (simp_all add: current_def)
  ultimately show ?thesis using k'(1,6,7,8,12,16) by blast
qed

lemma stage_machine:
  assumes "stage 3 k" and "cursor_ok k" and "in_context k" and "vid_page k = screen_page k 2"
  shows "machine_ok k"
proof -
  have s: "paging_ok k" "curr_process k = 2" "\<forall>t \<in> {0, 1, 2}. prog_curr_pid (terminals k t) = t"
    "\<forall>j. 0 \<le> j \<and> j < 6 \<longrightarrow> used_pids k j = (if j < 3 then 1 else 0)"
    "\<forall>j. 0 \<le> j \<and> j < 3 \<longrightarrow> pcb_pid (block k j) = j \<and> par_pid (block k j) = j \<and> block_ok (block k j)"
    "kb_ok k" "\<forall>t. saved_in (terminals k t)"
    using assms(1) by (auto simp: stage_def)
  have "vid_page k < 0x400000" using backing_low [of 2] by (simp add: assms(4) screen_page_def)
  then have "sound k" using s assms(2,3) by (simp add: sound_def display_ok_def)
  moreover have "family k (\<lambda>t. [t])"
    unfolding family_def
  proof (intro conjI ballI allI impI)
    show "distinct (families (\<lambda>t. [t]))" by (simp add: families_def)
    show "(used_pids k n \<noteq> 0) = (n \<in> set (families (\<lambda>t. [t])))" if "0 \<le> n \<and> n < 6" for n
      using s(4) that by (auto simp: families_def)
  qed (use s in \<open>auto simp: alive_def\<close>)
  ultimately show ?thesis using assms(1) s(2) by (auto simp: machine_ok_def stage_def)
qed

lemma three_shells:
  assumes "stage 0 k"
  shows "\<exists>e1 k1 e2 k2 e3 k3. PT_handler k = Some (Enter e1, k1) \<and> PT_handler k1 = Some (Enter e2, k2) \<and>
    PT_handler k2 = Some (Enter e3, k3) \<and> stage 3 k3 \<and> machine_ok k3 \<and> curr_ter k3 = curr_ter k \<and> vid_page k3 = screen_page k3 2 \<and>
    fs k3 = fs k \<and> (\<forall>a. kernel_addr a \<longrightarrow> phys k3 a = phys k a)"
proof -
  obtain e1 k1 where k1: "PT_handler k = Some (Enter e1, k1)" "stage 1 k1" "curr_ter k1 = curr_ter k" "fs k1 = fs k"
    "\<forall>a. kernel_addr a \<longrightarrow> phys k1 a = phys k a"
    using stage_next [OF assms] by auto
  obtain e2 k2 where k2: "PT_handler k1 = Some (Enter e2, k2)" "stage 2 k2" "curr_ter k2 = curr_ter k1" "fs k2 = fs k1"
    "\<forall>a. kernel_addr a \<longrightarrow> phys k2 a = phys k1 a"
    using stage_next [OF k1(2)] by auto
  obtain e3 k3 where k3: "PT_handler k2 = Some (Enter e3, k3)" "stage 3 k3" "curr_ter k3 = curr_ter k2"
    "vid_page k3 = screen_page k3 2" "cursor_ok k3" "in_context k3" "fs k3 = fs k2" "\<forall>a. kernel_addr a \<longrightarrow> phys k3 a = phys k2 a"
    using stage_next [OF k2(2)] by auto
  with stage_machine [OF k3(2,5,6,4)] k1 k2 show ?thesis by metis
qed

subsection \<open>Runs\<close>

definition same_kernel :: "kernel \<Rightarrow> kernel \<Rightarrow> bool" where
  "same_kernel k k' \<longleftrightarrow> fs k' = fs k \<and> (\<forall>a. kernel_addr a \<longrightarrow> phys k' a = phys k a)"

interpretation quiets: framed_run calm machine_ok quiet
  by unfold_locales (auto simp: calm_def [of k k for k] dest: quiet_machine intro: calm_trans)

interpretation steps: framed_run same_kernel machine_ok step
  by unfold_locales (auto simp: same_kernel_def dest: step_machine)

lemmas steps_machine = steps.whole_run [unfolded same_kernel_def]
lemmas quiets_machine = quiets.whole_run

lemma machine_facts:
  assumes "machine_ok k"
  shows "paging_ok k" "cursor_ok k" "kb_ok k" "curr_process k \<in> {0, 1, 2}" "\<not> irq_masked 0 k"
    "maps_range k 0x08048000 (prog_page (current k) + 0x48000) 0x3B8000"
    "esp0 (tss k) = 0x800000 - 4 - word_of_int (current k) * 0x2000"
    "t \<in> {0, 1, 2} \<Longrightarrow> alive k (prog_curr_pid (terminals k t))"
    "t \<in> {0, 1, 2} \<Longrightarrow> 0 \<le> prog_curr_pid (terminals k t) \<and> prog_curr_pid (terminals k t) < 6"
    "s \<in> {0, 1, 2} \<Longrightarrow> t \<in> {0, 1, 2} \<Longrightarrow> s \<noteq> t \<Longrightarrow> prog_curr_pid (terminals k s) \<noteq> prog_curr_pid (terminals k t)"
proof -
  obtain C where C: "family k C" using assms by (auto simp: machine_ok_def)
  show "alive k (prog_curr_pid (terminals k t))" if "t \<in> {0, 1, 2}" for t by (rule familyD(7) [OF C that])
  show "0 \<le> prog_curr_pid (terminals k t) \<and> prog_curr_pid (terminals k t) < 6" if "t \<in> {0, 1, 2}" for t
    using familyD(5,6) [OF C that] by blast
  show "prog_curr_pid (terminals k s) \<noteq> prog_curr_pid (terminals k t)" if "s \<in> {0, 1, 2}" "t \<in> {0, 1, 2}" "s \<noteq> t" for s t
    using family_others [OF C that(2) familyD(4) [OF C that(2)]] that by blast
  show ok: "paging_ok k" "cursor_ok k" "kb_ok k" "curr_process k \<in> {0, 1, 2}" "\<not> irq_masked 0 k"
    using assms by (simp_all add: machine_ok_def sound_def display_ok_def)
  have c: "in_context k" using assms by (simp add: machine_ok_def sound_def)
  then show "esp0 (tss k) = 0x800000 - 4 - word_of_int (current k) * 0x2000" by (simp add: in_context_def Let_def)
  show "maps_range k 0x08048000 (prog_page (current k) + 0x48000) 0x3B8000"
    unfolding maps_range_def
  proof (intro allI impI)
    fix i :: nat assume "i < 0x3B8000"
    note a = program_addr [OF this]
    show "paddr k (0x08048000 + of_nat i) = Some (prog_page (current k) + 0x48000 + of_nat i)"
      using a c ok(1) by (simp add: paddr_def paging_ok_def walk_def div_4MB(2) in_context_def Let_def add.assoc)
  qed
qed

lemma machine_undisturbed:
  assumes "machine_ok k'" and "calm k k'" and "t \<in> {0, 1, 2}" and "t \<noteq> curr_process k"
  shows "undisturbed t k k'"
proof -
  have c: "curr_process k' = curr_process k" using assms(2) by (simp add: calm_def)
  note m = machine_facts [OF assms(1)]
  have s: "curr_process k \<in> {0, 1, 2}" using m(4) c by simp
  have p: "\<forall>s. s \<noteq> curr_process k \<longrightarrow> prog_curr_pid (terminals k' s) = prog_curr_pid (terminals k s)"
    using assms(2) by (simp add: calm_def)
  then have "prog_curr_pid (terminals k' (curr_process k)) \<noteq> prog_curr_pid (terminals k t)"
    using m(10) [OF s assms(3)] assms(4) by auto
  moreover have "pcb_esp (block k' (prog_curr_pid (terminals k t))) = pcb_esp (block k (prog_curr_pid (terminals k t))) \<and>
      pcb_ebp (block k' (prog_curr_pid (terminals k t))) = pcb_ebp (block k (prog_curr_pid (terminals k t)))"
    using assms(2-4) unfolding calm_def by blast
  ultimately show ?thesis using m(1) c p m(9) [OF s] by (simp add: undisturbed_def Let_def)
qed

lemma turn:
  assumes "machine_ok k" and "PT_handler k = Some (Ret 0, k')" and "curr_process k' \<noteq> t" and "t \<in> {0, 1, 2}"
    and "rtranclp quiet k' k''"
  shows "machine_ok k''" and "undisturbed t k' k''" and "prog_curr_pid (terminals k'' t) = prog_curr_pid (terminals k t)"
    and "in_slot (prog_curr_pid (terminals k t)) a \<Longrightarrow> phys k'' a = phys k a"
proof -
  have k': "machine_ok k'" "phys k' = phys k" "terminals k' = terminals k" using machine_timer [OF assms(1)] assms(2) by auto
  have q: "machine_ok k''" "calm k' k''" using quiets_machine [OF assms(5) k'(1)] by blast+
  show "machine_ok k''" by (rule q(1))
  show "undisturbed t k' k''" using machine_undisturbed [OF q assms(4)] assms(3) by auto
  show "prog_curr_pid (terminals k'' t) = prog_curr_pid (terminals k t)"
    using q(2) assms(3) k'(3) by (simp add: calm_def)
  show "in_slot (prog_curr_pid (terminals k t)) a \<Longrightarrow> phys k'' a = phys k a"
    using q(2) assms(3,4) unfolding calm_def k'(2,3) by auto
qed

text \<open>Two turns of others leave the memory of the program that waits alone.\<close>

lemma turns_memory:
  assumes "machine_ok k" and "PT_handler k = Some (Ret 0, k1)" and "curr_process k1 \<noteq> t" and "t \<in> {0, 1, 2}"
    and "rtranclp quiet k1 k1'" and "PT_handler k1' = Some (Ret 0, k2)" and "curr_process k2 \<noteq> t"
    and "rtranclp quiet k2 k2'" and "PT_handler k2' = Some (Ret 0, k3)"
  shows "\<forall>a. in_slot (prog_curr_pid (terminals k t)) a \<longrightarrow> phys k3 a = phys k a"
proof -
  note t1 = turn [OF assms(1-5)]
  note t2 = turn [OF t1(1) assms(6,7,4,8), unfolded t1(3)]
  have "phys k3 = phys k2'" using machine_timer [OF t2(1)] assms(9) by auto
  with t1(4) t2(4) show ?thesis by simp
qed

text \<open>
  The bytes of the image that the boot loader left in the kernel's page, below the stacks and control blocks
  of the six processes at its top.
\<close>

definition image_byte :: "fs_globals \<Rightarrow> u32 \<Rightarrow> bool" where
  "image_byte g a \<longleftrightarrow> unat (boot_block g) \<le> unat a \<and>
     unat a < unat (boot_block g) + 4096 * (1 + unat (num_inodes g) + unat (num_data_blocks g)) \<and>
     0x400000 \<le> unat a \<and> unat a < 0x7F4000"

lemma image_kernel: "image_byte g a \<Longrightarrow> kernel_addr a"
  by (simp add: image_byte_def kernel_addr_def)

subsection \<open>Properties\<close>

text \<open>
  C1. An invariant of every state that \<open>step\<close> reaches from three running shells: the page tables, the cursor
  and the terminals are well formed, the three terminals run three different programs in slots that are in use
  with their blocks in order, the program that runs sees its own memory at the program address and has its
  own kernel stack in the TSS, and the image that the boot loader left and the variables that
  locate it are what they were. The steps are keys, ticks of the clock and the timer at
  any time outside a system call and in the waits of one, and the stores, exceptions and system calls of the programs, with
  at most 0x1000 bytes of kernel stack in use; a system call is one step, or two around each wait, so a timer
  interrupt in the middle of a call that does not wait is not among them. The calls are those that return in the model
  (one through a descriptor above 7 that the code would find enabled does not), with buffers in the
  program's pages and with commands that name no file or a well formed one.
\<close>

theorem machine_invariant:
  fixes k0 k :: kernel
  defines "pid \<equiv> \<lambda>t. prog_curr_pid (terminals k t)"
  assumes "machine_ok k0" and "rtranclp step k0 k"
  shows "machine_ok k \<and> paging_ok k \<and> cursor_ok k \<and> (\<forall>t \<in> {0, 1, 2}. term_ok (terminals k t)) \<and>
    (\<forall>s \<in> {0, 1, 2}. \<forall>t \<in> {0, 1, 2}. s \<noteq> t \<longrightarrow> pid s \<noteq> pid t) \<and>
    (\<forall>t \<in> {0, 1, 2}. 0 \<le> pid t \<and> pid t < 6 \<and> used_pids k (pid t) \<noteq> 0 \<and>
       pcb_pid (pcbs k (get_pcb_by_pid (pid t))) = pid t \<and> block_ok (pcbs k (get_pcb_by_pid (pid t)))) \<and>
    maps_range k 0x08048000 (prog_page (pid (curr_process k)) + 0x48000) 0x3B8000 \<and>
    esp0 (tss k) = 0x800000 - 4 - word_of_int (pid (curr_process k)) * 0x2000 \<and>
    fs k = fs k0 \<and> (\<forall>a. image_byte (fs k0) a \<longrightarrow> phys k a = phys k0 a)"
proof -
  have k: "machine_ok k" "fs k = fs k0" "\<forall>a. image_byte (fs k0) a \<longrightarrow> phys k a = phys k0 a"
    using steps_machine [OF assms(3,2)] image_kernel by blast+
  note m = machine_facts [OF k(1)]
  have "\<forall>t \<in> {0, 1, 2}. term_ok (terminals k t)" using m(3) by (simp add: kb_ok_def)
  moreover have "\<forall>t \<in> {0, 1, 2}. 0 \<le> pid t \<and> pid t < 6 \<and> used_pids k (pid t) \<noteq> 0 \<and>
      pcb_pid (block k (pid t)) = pid t \<and> block_ok (block k (pid t))"
    using m(8,9) unfolding pid_def alive_def by blast
  moreover have "current k = pid (curr_process k)" by (simp add: current_def pid_def)
  ultimately show ?thesis using k m(1,2,6,7,10) unfolding pid_def by (simp only:) blast
qed

text \<open>
  C4. No state that \<open>step\<close> reaches from three running shells is stuck, with the limits of that relation
  (no timer interrupt inside a system call but in its waits, buffers in the program's pages, no call through a descriptor behind the
  table, well formed executables): the timer line is open and the
  timer interrupt returns to a program, the keyboard handler returns for every byte, the running program
  can halt with every status, and with less than 0x1000 bytes of its kernel stack in use it can execute every command
  that names no file, a file that is not executable, or a well formed executable (\<open>loadable\<close>).
\<close>

theorem machine_progress:
  fixes k0 k :: kernel
  assumes "machine_ok k0" and "rtranclp step k0 k"
  shows "\<not> irq_masked 0 k \<and> (\<exists>k'. PT_handler k = Some (Ret 0, k')) \<and> (\<exists>k'. KB_handler scancode k = Some k') \<and>
    (\<exists>f k'. sys_halt ra status k = Some (f, k')) \<and>
    (d < 0x1000 \<and> loadable k c \<longrightarrow> (\<exists>f k'. sys_execute c (sti (trap d b k)) = Some (f, k')))"
proof -
  have k: "machine_ok k" using steps_machine [OF assms(2,1)] by blast
  note m = machine_facts [OF k]
  have "\<exists>k'. KB_handler scancode k = Some k'" using KB_handler_inv [of k scancode] m(1-3) by (auto simp: kb_inv_def)
  moreover have "\<exists>f k'. sys_execute c (sti (trap d b k)) = Some (f, k')" if "d < 0x1000" "loadable k c"
    using machine_execute [OF machine_in_call(1,2) [OF k that(1)], of b c] that(2) unfolding loadable_trap by blast
  ultimately show ?thesis using m(5) machine_timer [OF k] machine_halt [OF k, of ra status] by blast
qed

text \<open>
  C3. Every program gets its turn: the program that a timer interrupt stops runs again after exactly
  two more timer interrupts, in its own slot, on the same stack, with its own kernel stack, cursor and screen, and with
  every byte of its memory as it was, whatever \<open>quiet\<close> steps the devices and the programs of the other terminals take
  in between: keys, ticks, stores, exceptions and whole system calls or the parts of one around a wait, with the
  limits of that relation (buffers in the program's pages, no call through a descriptor behind the table, well formed executables, at most 0x1000
  bytes of kernel stack). A timer interrupt inside a call that does not wait is not covered.
\<close>

theorem fair_turns:
  fixes k :: kernel
  defines "t \<equiv> curr_process k"
  assumes "machine_ok k"
  shows "\<exists>k1. PT_handler k = Some (Ret 0, k1) \<and>
    (\<forall>k1'. rtranclp quiet k1 k1' \<longrightarrow> (\<exists>k2. PT_handler k1' = Some (Ret 0, k2) \<and>
    (\<forall>k2'. rtranclp quiet k2 k2' \<longrightarrow> (\<exists>k3. PT_handler k2' = Some (Ret 0, k3) \<and>
      running t (prog_curr_pid (terminals k t)) k3 \<and> esp k3 = esp k \<and> ebp k3 = ebp k \<and>
      (\<forall>a. in_slot (prog_curr_pid (terminals k t)) a \<longrightarrow> phys k3 a = phys k a)))))"
proof -
  note m = machine_facts [OF assms(2)]
  have t: "t \<in> {0, 1, 2}" using m(4) by (simp add: t_def)
  have "\<forall>s. 0 \<le> s \<and> s < 3 \<longrightarrow> 0 \<le> prog_curr_pid (terminals k s) \<and> prog_curr_pid (terminals k s) < 6"
    using m(9) terminal_set by blast
  moreover have "\<forall>s. 0 \<le> s \<and> s < 3 \<and> s \<noteq> t \<longrightarrow> prog_curr_pid (terminals k s) \<noteq> prog_curr_pid (terminals k t)"
    using m(10) [OF _ t] terminal_set by blast
  moreover have "0 \<le> t" "t < 3" using t by auto
  ultimately obtain k1 where k1: "PT_handler k = Some (Ret 0, k1)" "curr_process k1 \<noteq> t"
    "\<forall>k1'. undisturbed t k1 k1' \<longrightarrow> (\<exists>k2. PT_handler k1' = Some (Ret 0, k2) \<and> curr_process k2 \<noteq> t \<and>
      (\<forall>k2'. undisturbed t k2 k2' \<longrightarrow> (\<exists>k3. PT_handler k2' = Some (Ret 0, k3) \<and>
        running t (prog_curr_pid (terminals k t)) k3 \<and> esp k3 = esp k \<and> ebp k3 = ebp k)))"
    using round_robin [OF m(1)] unfolding t_def by blast
  have turns: "\<exists>k2. PT_handler k1' = Some (Ret 0, k2) \<and> curr_process k2 \<noteq> t \<and>
      (\<forall>k2'. rtranclp quiet k2 k2' \<longrightarrow> (\<exists>k3. PT_handler k2' = Some (Ret 0, k3) \<and>
        running t (prog_curr_pid (terminals k t)) k3 \<and> esp k3 = esp k \<and> ebp k3 = ebp k))"
    if q: "rtranclp quiet k1 k1'" for k1'
  proof -
    note t1 = turn(1,2) [OF assms(2) k1(1,2) t q]
    with k1(3) obtain k2 where k2: "PT_handler k1' = Some (Ret 0, k2)" "curr_process k2 \<noteq> t"
      "\<forall>k2'. undisturbed t k2 k2' \<longrightarrow> (\<exists>k3. PT_handler k2' = Some (Ret 0, k3) \<and>
        running t (prog_curr_pid (terminals k t)) k3 \<and> esp k3 = esp k \<and> ebp k3 = ebp k)" by blast
    with turn(2) [OF t1(1) k2(1,2) t] show ?thesis by blast
  qed
  show ?thesis
  proof (rule exI [of _ k1], intro conjI k1(1) allI impI)
    fix k1' assume q: "rtranclp quiet k1 k1'"
    from turns [OF q] turns_memory [OF assms(2) k1(1,2) t q] show "\<exists>k2. PT_handler k1' = Some (Ret 0, k2) \<and>
      (\<forall>k2'. rtranclp quiet k2 k2' \<longrightarrow> (\<exists>k3. PT_handler k2' = Some (Ret 0, k3) \<and>
        running t (prog_curr_pid (terminals k t)) k3 \<and> esp k3 = esp k \<and> ebp k3 = ebp k \<and>
        (\<forall>a. in_slot (prog_curr_pid (terminals k t)) a \<longrightarrow> phys k3 a = phys k a)))" by blast
  qed
qed

text \<open>A machine in the idle loop, with the lines of the timer, the keyboard and the cascade open.\<close>

definition demo_idle :: kernel where
  "demo_idle = demo_boot\<lparr>master_mask := 0xF8\<rparr>"

lemma demo_idle_stage: "stage 0 demo_idle"
proof -
  have t: "terminals demo_idle t = zero_terminal\<lparr>prog_curr_pid := -1\<rparr>" for t by (simp add: demo_idle_def demo_boot_def)
  have "cprefix 128 (\<lambda>_. 0) = []" by (simp add: cprefix_def bytes_def upt_rec [of 0 128])
  then have "kb_ok demo_idle" "\<forall>t. saved_in (terminals demo_idle t)"
    using demo_boot_sel(6) by (simp_all add: kb_ok_def term_ok_def t saved_in_def zero_terminal_def) (simp add: demo_idle_def)
  moreover have ok: "paging_ok demo_idle" using demo_boot_sel(1) paging_ok_cong [of demo_idle demo_boot] by (simp add: demo_idle_def)
  moreover have "runnable demo_idle (map of_char ''shell'') 0"
    by (rule runnable_agree [OF demo_boot_sel(4,1) ok]) (simp_all add: demo_idle_def)
  moreover have "\<not> bit (0xF8 :: u8) 0" by code_simp
  then have "\<not> irq_masked 0 demo_idle" by (simp add: irq_masked_def demo_idle_def)
  ultimately show ?thesis using demo_boot_sel(2,5) by (auto simp: stage_def t) (simp_all add: demo_idle_def)
qed

theorem machine_invariant_witness:
  "\<exists>k k'. machine_ok k \<and> step k k' \<and> paging_ok k' \<and> cursor_ok k' \<and>
     prog_curr_pid (terminals k' 0) \<noteq> prog_curr_pid (terminals k' 1) \<and> phys k' 0x600000 = 1"
proof -
  obtain k where k: "machine_ok k" "fs k = fs demo_idle" "\<forall>a. kernel_addr a \<longrightarrow> phys k a = phys demo_idle a"
    using three_shells [OF demo_idle_stage] by blast
  obtain k' where k': "PT_handler k = Some (Ret 0, k')" using machine_timer [OF k(1)] by blast
  have s: "step k k'" using timer [OF machine_facts(5) [OF k(1)] k'] .
  have "fs demo_idle = file_system_init image_mem 0x600000" "phys demo_idle = image_mem"
    by (simp_all add: demo_idle_def demo_boot_def demo_machine_sel)
  then have "image_byte (fs k) 0x600000" "phys k 0x600000 = 1"
    using k(2,3) by (simp_all add: image_byte_def file_system_init_def kernel_addr_def image_mem_def elf_mem_def lit_def)
  with machine_invariant [OF k(1) r_into_rtranclp [of step, OF s]] have p: "phys k' 0x600000 = 1" by simp
  from machine_invariant [OF k(1) r_into_rtranclp [of step, OF s]]
  have "paging_ok k'" "cursor_ok k'" "prog_curr_pid (terminals k' 0) \<noteq> prog_curr_pid (terminals k' 1)" by simp_all
  with k(1) s p show ?thesis by blast
qed

theorem machine_progress_witness:
  "\<exists>k k'. machine_ok k \<and> PT_handler k = Some (Ret 0, k') \<and> \<not> irq_masked 0 k"
proof -
  obtain k where k: "machine_ok k" using three_shells [OF demo_idle_stage] by blast
  from machine_progress [OF k rtranclp.rtrancl_refl] k show ?thesis by blast
qed

theorem fair_turns_witness:
  "\<exists>k k1 k2 k3. machine_ok k \<and> PT_handler k = Some (Ret 0, k1) \<and> PT_handler k1 = Some (Ret 0, k2) \<and>
     PT_handler k2 = Some (Ret 0, k3) \<and> curr_process k3 = curr_process k \<and> esp k3 = esp k \<and>
     (\<forall>a. in_slot (prog_curr_pid (terminals k (curr_process k))) a \<longrightarrow> phys k3 a = phys k a)"
proof -
  obtain k where k: "machine_ok k" using three_shells [OF demo_idle_stage] by blast
  obtain k1 where k1: "PT_handler k = Some (Ret 0, k1)" and "\<exists>k2. PT_handler k1 = Some (Ret 0, k2) \<and>
    (\<forall>k2'. rtranclp quiet k2 k2' \<longrightarrow> (\<exists>k3. PT_handler k2' = Some (Ret 0, k3) \<and>
      running (curr_process k) (prog_curr_pid (terminals k (curr_process k))) k3 \<and> esp k3 = esp k \<and> ebp k3 = ebp k \<and>
      (\<forall>a. in_slot (prog_curr_pid (terminals k (curr_process k))) a \<longrightarrow> phys k3 a = phys k a)))"
    using fair_turns [OF k] rtranclp.rtrancl_refl [of quiet] by blast
  then obtain k2 k3 where "PT_handler k1 = Some (Ret 0, k2)" "PT_handler k2 = Some (Ret 0, k3)"
    "running (curr_process k) (prog_curr_pid (terminals k (curr_process k))) k3" "esp k3 = esp k"
    "\<forall>a. in_slot (prog_curr_pid (terminals k (curr_process k))) a \<longrightarrow> phys k3 a = phys k a"
    using rtranclp.rtrancl_refl [of quiet] by blast
  with k k1 show ?thesis unfolding running_def by blast
qed

end
